(* ===== verification/Prelude.thy ===== *)
theory Prelude
  imports Main "HOL-Library.AList" "HOL-Library.Sublist" "HOL-Library.List_Lexorder"
    "HOL-Library.Char_ord"
begin

text \<open>
  Shared vocabulary of the development: Go instants and durations, 64-bit signed wrap-around,
  Go maps as association lists with distinct keys, the byte-string helpers the components use,
  and the lemma collections that carry the component proofs.

  Conventions.
  \<^item> A Go \<open>string\<close> is a byte sequence, here a \<^typ>\<open>string\<close> (a list of 8-bit characters); the
    order on strings is Go's bytewise lexicographic one.
  \<^item> A Go \<open>time.Time\<close> is an integer count of nanoseconds since its zero value (1 January of
    year 1, UTC), so the zero value is 0. A \<open>time.Duration\<close> is an integer count of nanoseconds.
  \<^item> A Go \<open>map\<close> is an association list. Its order is the order in which the next
    \<open>range\<close> loop visits the keys, which Go leaves open: lemmas hold for every list.
  \<^item> A fallible function returns a sum, \<open>Inl\<close> holding the error.
\<close>

named_theorems gomap_simps \<open>lookups, keys and sizes of Go maps after an update or deletion\<close>
named_theorems time_simps \<open>unfolding of the instants and durations\<close>

section \<open>Instants, durations and 64-bit integers\<close>

type_synonym time = int
type_synonym duration = int

abbreviation (input) zero_time :: time where "zero_time \<equiv> 0"

abbreviation IsZero :: "time \<Rightarrow> bool" where "IsZero t \<equiv> t = zero_time"

abbreviation (input) nanosecond :: duration where "nanosecond \<equiv> 1"
abbreviation (input) second :: duration where "second \<equiv> 1000000000"
abbreviation (input) minute :: duration where "minute \<equiv> 60000000000"

text \<open>The value a signed 64-bit register holds after arithmetic produced the integer \<open>x\<close>.\<close>

definition i64 :: "int \<Rightarrow> int" where
  "i64 x = (x + 2 ^ 63) mod 2 ^ 64 - 2 ^ 63"

definition max_i64 :: int where
  "max_i64 = 2 ^ 63 - 1"

definition min_i64 :: int where
  "min_i64 = - (2 ^ 63)"

text \<open>\<open>Time.Sub\<close> saturates at the ends of the \<open>Duration\<close> range.\<close>

definition time_sub :: "time \<Rightarrow> time \<Rightarrow> duration" where
  "time_sub a b = (if a - b > max_i64 then max_i64 else if a - b < min_i64 then min_i64 else a - b)"

lemma i64_id: "min_i64 \<le> x \<Longrightarrow> x \<le> max_i64 \<Longrightarrow> i64 x = x"
  by (simp add: i64_def min_i64_def max_i64_def)

lemma i64_range: "min_i64 \<le> i64 x \<and> i64 x \<le> max_i64"
proof -
  have "0 \<le> (x + 2 ^ 63) mod (2 ^ 64 :: int)" and "(x + 2 ^ 63) mod (2 ^ 64 :: int) < 2 ^ 64"
    by simp_all
  then show ?thesis by (simp add: i64_def min_i64_def max_i64_def)
qed

lemma time_sub_exact [time_simps]:
  "\<bar>a - b\<bar> \<le> max_i64 \<Longrightarrow> time_sub a b = a - b"
  by (auto simp: time_sub_def min_i64_def max_i64_def)

lemma time_sub_pos_iff [simp]: "time_sub a b > 0 \<longleftrightarrow> a > b"
  by (auto simp: time_sub_def min_i64_def max_i64_def)

lemma time_sub_le_iff:
  "min_i64 < d \<Longrightarrow> d \<le> max_i64 \<Longrightarrow> d \<le> time_sub a b \<longleftrightarrow> b + d \<le> a"
  by (auto simp: time_sub_def min_i64_def max_i64_def)

section \<open>Go maps\<close>

type_synonym ('k, 'v) gomap = "('k \<times> 'v) list"

definition gm_ok :: "('k, 'v) gomap \<Rightarrow> bool" where
  "gm_ok m \<longleftrightarrow> distinct (map fst m)"

abbreviation gm_get :: "('k, 'v) gomap \<Rightarrow> 'k \<Rightarrow> 'v option" where
  "gm_get m k \<equiv> map_of m k"

abbreviation gm_put :: "'k \<Rightarrow> 'v \<Rightarrow> ('k, 'v) gomap \<Rightarrow> ('k, 'v) gomap" where
  "gm_put k v m \<equiv> AList.update k v m"

abbreviation gm_del :: "'k \<Rightarrow> ('k, 'v) gomap \<Rightarrow> ('k, 'v) gomap" where
  "gm_del k m \<equiv> AList.delete k m"

abbreviation gm_keys :: "('k, 'v) gomap \<Rightarrow> 'k list" where
  "gm_keys m \<equiv> map fst m"

text \<open>A \<open>range\<close> loop that deletes the entries satisfying \<open>p\<close>.\<close>

definition gm_drop :: "('k \<Rightarrow> 'v \<Rightarrow> bool) \<Rightarrow> ('k, 'v) gomap \<Rightarrow> ('k, 'v) gomap" where
  "gm_drop p m = filter (\<lambda>(k, v). \<not> p k v) m"

lemma gm_ok_Nil [simp, intro]: "gm_ok []"
  by (simp add: gm_ok_def)

lemma gm_ok_put [simp, intro]: "gm_ok m \<Longrightarrow> gm_ok (gm_put k v m)"
  by (simp add: gm_ok_def distinct_update)

lemma gm_ok_del [simp, intro]: "gm_ok m \<Longrightarrow> gm_ok (gm_del k m)"
  by (simp add: gm_ok_def distinct_delete)

lemma gm_ok_filter [simp, intro]: "gm_ok m \<Longrightarrow> gm_ok (filter p m)"
  by (simp add: gm_ok_def distinct_map_filter)

lemma gm_ok_drop [simp, intro]: "gm_ok m \<Longrightarrow> gm_ok (gm_drop p m)"
  by (simp add: gm_drop_def)

lemma gm_get_put [simp, gomap_simps]:
  "gm_get (gm_put k v m) k' = (if k' = k then Some v else gm_get m k')"
  by (simp add: update_conv)

lemma gm_get_del [simp, gomap_simps]:
  "gm_get (gm_del k m) k' = (if k' = k then None else gm_get m k')"
  by (simp add: delete_conv)

lemma gm_get_filter:
  "gm_ok m \<Longrightarrow> gm_get (filter p m) k
     = (case gm_get m k of None \<Rightarrow> None | Some v \<Rightarrow> if p (k, v) then Some v else None)"
proof (induction m)
  case Nil
  then show ?case by simp
next
  case (Cons kv m)
  obtain k0 v0 where kv: "kv = (k0, v0)" by (cases kv)
  from Cons.prems kv have ok: "gm_ok m" and new: "k0 \<notin> set (map fst m)"
    by (auto simp: gm_ok_def)
  from new have "gm_get (filter p m) k0 = None"
    by (auto simp: map_of_eq_None_iff)
  with Cons.IH [OF ok] kv show ?case by (auto split: option.splits)
qed

lemma gm_get_drop [gomap_simps]:
  "gm_ok m \<Longrightarrow> gm_get (gm_drop p m) k
     = (case gm_get m k of None \<Rightarrow> None | Some v \<Rightarrow> if p k v then None else Some v)"
  by (auto simp: gm_drop_def gm_get_filter split: option.splits)

lemma length_put [gomap_simps]:
  "length (gm_put k v m) = (if k \<in> set (gm_keys m) then length m else Suc (length m))"
proof -
  have "length (map fst (gm_put k v m)) = (if k \<in> set (gm_keys m) then length m else Suc (length m))"
    by (simp add: update_keys)
  then show ?thesis by simp
qed

lemma length_del_le [gomap_simps]: "length (gm_del k m) \<le> length m"
  by (simp add: AList.delete_eq)

lemma length_del_less: "k \<in> set (gm_keys m) \<Longrightarrow> length (gm_del k m) < length m"
  by (auto simp: AList.delete_eq intro!: length_filter_less)

lemma length_drop_le [gomap_simps]: "length (gm_drop p m) \<le> length m"
  by (simp add: gm_drop_def)

lemma gm_get_None_iff: "gm_get m k = None \<longleftrightarrow> k \<notin> set (gm_keys m)"
  by (simp add: map_of_eq_None_iff)

lemma length_put_new: "gm_get m k = None \<Longrightarrow> length (gm_put k v m) = Suc (length m)"
  by (simp add: length_put gm_get_None_iff)

lemma gm_get_SomeD: "gm_get m k = Some v \<Longrightarrow> (k, v) \<in> set m"
  by (rule map_of_SomeD)

lemma gm_get_Some_iff: "gm_ok m \<Longrightarrow> gm_get m k = Some v \<longleftrightarrow> (k, v) \<in> set m"
  by (simp add: gm_ok_def map_of_eq_Some_iff)

section \<open>Byte strings\<close>

abbreviation HasPrefix :: "string \<Rightarrow> string \<Rightarrow> bool" where
  "HasPrefix s p \<equiv> prefix p s"

text \<open>\<open>strings.CutSuffix\<close>.\<close>

definition CutSuffix :: "string \<Rightarrow> string \<Rightarrow> string option" where
  "CutSuffix s suf = (if suffix suf s then Some (take (length s - length suf) s) else None)"

text \<open>\<open>strings.Join\<close>.\<close>

fun Join :: "string list \<Rightarrow> string \<Rightarrow> string" where
  "Join [] sep = []"
| "Join [x] sep = x"
| "Join (x # y # xs) sep = x @ sep @ Join (y # xs) sep"

text \<open>Decimal rendering of a non-negative integer, as \<open>fmt\<close> does it.\<close>

definition digit_char :: "nat \<Rightarrow> char" where
  "digit_char d = char_of (48 + d)"

fun show_nat :: "nat \<Rightarrow> string" where
  "show_nat n = (if n < 10 then [digit_char n] else show_nat (n div 10) @ [digit_char (n mod 10)])"

declare show_nat.simps [simp del]

lemma digit_char_inj: "a < 10 \<Longrightarrow> b < 10 \<Longrightarrow> digit_char a = digit_char b \<Longrightarrow> a = b"
proof -
  assume a: "a < 10" and b: "b < 10" and e: "digit_char a = digit_char b"
  have "(of_char (digit_char a) :: nat) = of_char (digit_char b)" by (simp add: e)
  then show "a = b" using a b by (simp add: digit_char_def)
qed

lemma show_nat_nonempty: "show_nat n \<noteq> []"
  by (subst show_nat.simps) simp

lemma show_nat_inj: "show_nat a = show_nat b \<Longrightarrow> a = b"
proof (induction a arbitrary: b rule: show_nat.induct)
  case (1 a)
  consider "a < 10" "b < 10" | "a < 10" "\<not> b < 10" | "\<not> a < 10" "b < 10" | "\<not> a < 10" "\<not> b < 10"
    by blast
  then show ?case
  proof cases
    case 1
    then show ?thesis using "1.prems" digit_char_inj
      by (simp add: show_nat.simps [of a] show_nat.simps [of b])
  next
    case 2
    then show ?thesis using "1.prems" show_nat_nonempty [of "b div 10"]
      by (simp add: show_nat.simps [of a] show_nat.simps [of b])
  next
    case 3
    then show ?thesis using "1.prems" show_nat_nonempty [of "a div 10"]
      by (simp add: show_nat.simps [of a] show_nat.simps [of b])
  next
    case 4
    then have "show_nat (a div 10) = show_nat (b div 10)"
      and d: "digit_char (a mod 10) = digit_char (b mod 10)"
      using "1.prems" by (simp_all add: show_nat.simps [of a] show_nat.simps [of b])
    with 4 "1.IH" have "a div 10 = b div 10" by blast
    moreover from d have "a mod 10 = b mod 10" by (rule digit_char_inj [rotated 2]) simp_all
    ultimately show ?thesis by (metis div_mult_mod_eq)
  qed
qed

section \<open>Lists\<close>

text \<open>Appending the elements not seen yet, as the \<open>slices.Contains\<close> loops do.\<close>

fun add_new :: "'a list \<Rightarrow> 'a list \<Rightarrow> 'a list" where
  "add_new acc [] = acc"
| "add_new acc (x # xs) = add_new (if x \<in> set acc then acc else acc @ [x]) xs"

lemma set_add_new [simp]: "set (add_new acc xs) = set acc \<union> set xs"
  by (induction xs arbitrary: acc) auto

lemma distinct_add_new [simp]: "distinct acc \<Longrightarrow> distinct (add_new acc xs)"
  by (induction xs arbitrary: acc) auto

lemma sorted_distinct_unique:
  "sorted xs \<Longrightarrow> distinct xs \<Longrightarrow> sorted ys \<Longrightarrow> distinct ys \<Longrightarrow> set xs = set ys \<Longrightarrow> xs = ys"
  by (rule sorted_distinct_set_unique)

lemma find_Some_iff_hd: "find p xs = Some x \<Longrightarrow> p x \<and> x \<in> set xs"
  by (auto simp: find_Some_iff)

section \<open>Fallible computations\<close>

text \<open>Chains of guards and fallible calls, as the early returns of the handlers. \<open>guards\<close> collects
  what a successful chain tells about its links.\<close>

named_theorems guards \<open>when a chain of fallible calls succeeds\<close>

definition andThen :: "'e + 'a \<Rightarrow> ('a \<Rightarrow> 'e + 'b) \<Rightarrow> 'e + 'b" where
  "andThen m f = (case m of Inl e \<Rightarrow> Inl e | Inr x \<Rightarrow> f x)"

definition require :: "bool \<Rightarrow> 'e \<Rightarrow> 'e + unit" where
  "require b e = (if b then Inr () else Inl e)"

text \<open>The errors of a callee become the given error of the caller.\<close>

definition orElse :: "'d + 'a \<Rightarrow> 'e \<Rightarrow> 'e + 'a" where
  "orElse m e = (case m of Inl _ \<Rightarrow> Inl e | Inr x \<Rightarrow> Inr x)"

definition orNone :: "'a option \<Rightarrow> 'e \<Rightarrow> 'e + 'a" where
  "orNone m e = (case m of None \<Rightarrow> Inl e | Some x \<Rightarrow> Inr x)"

definition mapErr :: "('d \<Rightarrow> 'e) \<Rightarrow> 'd + 'a \<Rightarrow> 'e + 'a" where
  "mapErr f m = (case m of Inl d \<Rightarrow> Inl (f d) | Inr x \<Rightarrow> Inr x)"

lemma mapErr_simps [simp]: "mapErr f (Inl d) = Inl (f d)" "mapErr f (Inr x) = Inr x"
  by (simp_all add: mapErr_def)

lemma mapErr_Inr [guards]: "mapErr f m = Inr x \<longleftrightarrow> m = Inr x"
  by (cases m) simp_all

lemma andThen_simps [simp]: "andThen (Inl e) f = Inl e" "andThen (Inr x) f = f x"
  by (simp_all add: andThen_def)

lemma require_simps [simp]: "require True e = Inr ()" "require False e = Inl e"
  by (simp_all add: require_def)

lemma orElse_simps [simp]: "orElse (Inl d) e = Inl e" "orElse (Inr x) e = Inr x"
  by (simp_all add: orElse_def)

lemma orNone_simps [simp]: "orNone None e = Inl e" "orNone (Some x) e = Inr x"
  by (simp_all add: orNone_def)

lemma andThen_Inr [guards]: "andThen m f = Inr y \<longleftrightarrow> (\<exists>x. m = Inr x \<and> f x = Inr y)"
  by (cases m) simp_all

lemma require_Inr [guards]: "require b e = Inr u \<longleftrightarrow> b"
  by (simp add: require_def)

lemma orElse_Inr [guards]: "orElse m e = Inr x \<longleftrightarrow> m = Inr x"
  by (cases m) simp_all

lemma orNone_Inr [guards]: "orNone m e = Inr x \<longleftrightarrow> m = Some x"
  by (cases m) simp_all

end
