(* ===== verification/Glob.thy ===== *)
theory Glob
  imports Prelude
begin

text \<open>
  The glob matcher of the policy engine, \<open>src/policy/glob.go\<close>: the pattern tokenizer, the
  iterative matcher with one backtracking point, the escaping of literals and the substitution of
  \<open>{name}\<close> variables. The matcher is proved equal to the language a pattern denotes, escaping is
  proved to make a value match only itself, and substitution is proved not to add wildcards to a
  pattern that holds no backslash.
\<close>

section \<open>The matcher\<close>

abbreviation star_char :: char where "star_char \<equiv> CHR ''*''"
abbreviation backslash :: char where "backslash \<equiv> CHR 0x5C"
abbreviation lbrace :: char where "lbrace \<equiv> CHR 0x7B"
abbreviation rbrace :: char where "rbrace \<equiv> CHR 0x7D"

text \<open>The token at index \<open>i\<close>: its byte, its width and whether it is the wildcard.\<close>

definition token :: "string \<Rightarrow> nat \<Rightarrow> char \<times> nat \<times> bool" where
  "token p i =
     (if p ! i = star_char then (CHR 0x00, 1, True)
      else if p ! i = backslash \<and> i + 1 < length p then (p ! (i + 1), 2, False)
      else (p ! i, 1, False))"

lemma token_width_pos: "0 < fst (snd (token p i))"
  by (simp add: token_def)

text \<open>
  The main loop of \<open>Match\<close> over its four cursors. \<open>starP\<close> is \<open>None\<close> for the source's \<open>-1\<close>.
  The result is \<open>None\<close> when the loop returns false and \<open>Some p\<close> when it falls through.
\<close>

function match_loop :: "string \<Rightarrow> string \<Rightarrow> nat \<Rightarrow> nat \<Rightarrow> nat option \<Rightarrow> nat \<Rightarrow> nat option" where
  "match_loop pat s p i starP starI =
     (if i < length s then
        (if p < length pat \<and> snd (snd (token pat p)) then
           match_loop pat s (p + fst (snd (token pat p))) i (Some p) i
         else if p < length pat \<and> fst (token pat p) = s ! i then
           match_loop pat s (p + fst (snd (token pat p))) (i + 1) starP starI
         else
           (case starP of
              None \<Rightarrow> None
            | Some sp \<Rightarrow> match_loop pat s (sp + 1) (starI + 1) (Some sp) (starI + 1)))
      else Some p)"
  by pat_completeness auto

termination
proof (relation "measures
    [\<lambda>(pat, s, p, i, starP, starI). if starI \<le> i then length s - starI else length s + 1,
     \<lambda>(pat, s, p, i, starP, starI). length s - i,
     \<lambda>(pat, s, p, i, starP, starI). length pat - p]", goal_cases)
  case 1
  show ?case by simp
next
  case (2 pat s p i starP starI)
  then show ?case using token_width_pos [of pat p] by auto
next
  case (3 pat s p i starP starI)
  then show ?case by auto
next
  case (4 pat s p i starP starI sp)
  then show ?case by auto
qed

declare match_loop.simps [simp del]

text \<open>The closing loop of \<open>Match\<close>: only wildcards may be left.\<close>

function tail_stars :: "string \<Rightarrow> nat \<Rightarrow> bool" where
  "tail_stars pat p =
     (if p < length pat then
        (if snd (snd (token pat p)) then tail_stars pat (p + fst (snd (token pat p))) else False)
      else True)"
  by pat_completeness auto
termination
  by (relation "measure (\<lambda>(pat, p). length pat - p)")
    (use token_width_pos diff_less_mono2 in auto)

declare tail_stars.simps [simp del]

definition Match :: "string \<Rightarrow> string \<Rightarrow> bool" where
  "Match pattern s =
     (case match_loop pattern s 0 0 None 0 of
        None \<Rightarrow> False
      | Some p \<Rightarrow> tail_stars pattern p)"

section \<open>Escaping and substitution\<close>

fun Escape_bytes :: "string \<Rightarrow> string" where
  "Escape_bytes [] = []"
| "Escape_bytes (c # cs) =
     (if c = star_char \<or> c = backslash then backslash # c # Escape_bytes cs
      else c # Escape_bytes cs)"

definition Escape :: "string \<Rightarrow> string" where
  "Escape v = (if star_char \<notin> set v \<and> backslash \<notin> set v then v else Escape_bytes v)"

definition isVarChar :: "char \<Rightarrow> bool" where
  "isVarChar c \<longleftrightarrow>
     (CHR ''a'' \<le> c \<and> c \<le> CHR ''z'') \<or> (CHR ''A'' \<le> c \<and> c \<le> CHR ''Z'') \<or>
     (CHR ''0'' \<le> c \<and> c \<le> CHR ''9'') \<or> c = CHR ''_'' \<or> c = CHR ''.'' \<or> c = CHR ''-''"

text \<open>
  The loop of \<open>expand\<close>, on the rest of the input. At an opening brace it scans the longest run of
  variable characters; the run is a reference when it is not empty and a closing brace follows.
  A missing variable clears the flag and contributes the empty string.
\<close>

function expand_loop ::
  "string \<Rightarrow> (string, string) gomap \<Rightarrow> bool \<Rightarrow> string \<times> bool" where
  "expand_loop [] vars esc = ([], True)"
| "expand_loop (c # cs) vars esc =
     (if c \<noteq> lbrace then (c # fst (expand_loop cs vars esc), snd (expand_loop cs vars esc))
      else
        (let name = takeWhile isVarChar cs; rest = dropWhile isVarChar cs in
         if name = [] \<or> rest = [] \<or> hd rest \<noteq> rbrace then
           (c # fst (expand_loop cs vars esc), snd (expand_loop cs vars esc))
         else
           (let v = (case gm_get vars name of None \<Rightarrow> [] | Some v \<Rightarrow> v);
                v' = (if esc then Escape v else v);
                r = expand_loop (tl rest) vars esc
            in (v' @ fst r, gm_get vars name \<noteq> None \<and> snd r))))"
  by pat_completeness auto
termination
proof (relation "measure (\<lambda>(s, vars, esc). length s)", goal_cases)
  case (6 c cs vars esc name rest v v')
  then show ?case using length_dropWhile_le [of isVarChar cs] by auto
qed auto

definition expand :: "string \<Rightarrow> (string, string) gomap \<Rightarrow> bool \<Rightarrow> string \<times> bool" where
  "expand s vars esc = (if lbrace \<notin> set s then (s, True) else expand_loop s vars esc)"


section \<open>The language of a pattern\<close>

datatype glob_tok = Star | Lit char

fun toks :: "string \<Rightarrow> glob_tok list" where
  "toks [] = []"
| "toks [c] = [if c = star_char then Star else Lit c]"
| "toks (c # d # cs) =
     (if c = star_char then Star # toks (d # cs)
      else if c = backslash then Lit d # toks cs
      else Lit c # toks (d # cs))"

text \<open>The strings a token list denotes: a wildcard stands for any run of bytes.\<close>

fun glob_lang :: "glob_tok list \<Rightarrow> string set" where
  "glob_lang [] = {[]}"
| "glob_lang (Lit c # ts) = {c # v | v. v \<in> glob_lang ts}"
| "glob_lang (Star # ts) = {u @ v | u v. v \<in> glob_lang ts}"

lemma toks_drop:
  assumes "p < length pat"
  shows "toks (drop p pat) =
    (if snd (snd (token pat p)) then Star else Lit (fst (token pat p)))
      # toks (drop (p + fst (snd (token pat p))) pat)"
proof -
  obtain c cs where d: "drop p pat = c # cs"
    using assms by (metis Cons_nth_drop_Suc)
  then have c: "pat ! p = c" by (metis nth_via_drop)
  have cs: "drop (Suc p) pat = cs" using d by (metis drop_Suc tl_drop list.sel(3))
  show ?thesis
  proof (cases cs)
    case Nil
    then have "\<not> Suc p < length pat" using cs by simp
    then show ?thesis using d c cs Nil by (simp add: token_def)
  next
    case (Cons d' cs')
    then have lt: "Suc p < length pat" using cs by (metis drop_eq_Nil leI list.discI)
    have "pat ! Suc p = d'" using cs Cons by (metis nth_via_drop)
    moreover have "drop (Suc (Suc p)) pat = cs'"
      using cs Cons by (metis drop_Suc tl_drop list.sel(3))
    ultimately show ?thesis using d c cs Cons lt by (simp add: token_def)
  qed
qed

lemma lits_lang: "v \<in> glob_lang (map Lit ls @ ts) \<longleftrightarrow> (\<exists>w. v = ls @ w \<and> w \<in> glob_lang ts)"
  by (induction ls arbitrary: v) auto

lemma star_langI: "v \<in> glob_lang ts \<Longrightarrow> u @ v \<in> glob_lang (Star # ts)"
  by auto

lemma star_lang_suffix: "v \<in> glob_lang (Star # ts) \<Longrightarrow> u @ v \<in> glob_lang (Star # ts)"
proof -
  assume "v \<in> glob_lang (Star # ts)"
  then obtain a b where "v = a @ b" "b \<in> glob_lang ts" by auto
  then have "u @ v = (u @ a) @ b" by simp
  with \<open>b \<in> glob_lang ts\<close> show ?thesis by (metis star_langI)
qed

lemma star_lang_Cons:
  "x # xs \<in> glob_lang (Star # ts) \<longleftrightarrow> x # xs \<in> glob_lang ts \<or> xs \<in> glob_lang (Star # ts)"
proof
  assume "x # xs \<in> glob_lang (Star # ts)"
  then obtain u v where "x # xs = u @ v" "v \<in> glob_lang ts" by auto
  then show "x # xs \<in> glob_lang ts \<or> xs \<in> glob_lang (Star # ts)"
    by (cases u) (auto intro: star_langI)
next
  assume "x # xs \<in> glob_lang ts \<or> xs \<in> glob_lang (Star # ts)"
  then show "x # xs \<in> glob_lang (Star # ts)"
    using star_langI [of "x # xs" ts "[]"] star_lang_suffix [of xs ts "[x]"] by auto
qed

lemma star_lang_end: "ls \<in> glob_lang (Star # map Lit ls @ ts) \<longleftrightarrow> [] \<in> glob_lang ts"
proof
  assume "ls \<in> glob_lang (Star # map Lit ls @ ts)"
  then obtain u v where uv: "ls = u @ v" "v \<in> glob_lang (map Lit ls @ ts)" by auto
  then obtain w where w: "v = ls @ w" "w \<in> glob_lang ts" by (auto simp: lits_lang)
  with uv have "length ls = length u + (length ls + length w)" by (metis length_append)
  then have "w = []" by simp
  with w show "[] \<in> glob_lang ts" by simp
next
  assume "[] \<in> glob_lang ts"
  then have "ls \<in> glob_lang (map Lit ls @ ts)" by (auto simp: lits_lang)
  then show "ls \<in> glob_lang (Star # map Lit ls @ ts)"
    using star_langI [of ls _ "[]"] by simp
qed

text \<open>
  A second wildcard makes the first one irrelevant: what the literals between them left over can
  always be matched from the earliest place. This is why one backtracking point is enough.
\<close>

lemma star_lang_restart:
  "ls @ r \<in> glob_lang (Star # map Lit ls @ Star # ts) \<longleftrightarrow> r \<in> glob_lang (Star # ts)"
proof
  assume "ls @ r \<in> glob_lang (Star # map Lit ls @ Star # ts)"
  then obtain u v where uv: "ls @ r = u @ v" "v \<in> glob_lang (map Lit ls @ Star # ts)" by auto
  then obtain w where w: "v = ls @ w" "w \<in> glob_lang (Star # ts)"
    by (auto simp: lits_lang simp del: glob_lang.simps)
  from uv w have "ls @ r = (u @ ls) @ w" by simp
  then have "r = drop (length ls) ((u @ ls) @ w)" by (metis append_eq_conv_conj)
  then have "r = drop (length ls) (u @ ls) @ w" by simp
  with w(2) show "r \<in> glob_lang (Star # ts)" by (simp only: star_lang_suffix)
next
  assume "r \<in> glob_lang (Star # ts)"
  then have "ls @ r \<in> glob_lang (map Lit ls @ Star # ts)"
    by (auto simp: lits_lang simp del: glob_lang.simps)
  then show "ls @ r \<in> glob_lang (Star # map Lit ls @ Star # ts)"
    using star_langI [of "ls @ r" _ "[]"] by simp
qed

lemma tail_stars_lang: "tail_stars pat p \<longleftrightarrow> [] \<in> glob_lang (toks (drop p pat))"
proof (induction pat p rule: tail_stars.induct)
  case (1 pat p)
  show ?case
  proof (cases "p < length pat")
    case True
    with 1 show ?thesis
      by (auto simp: tail_stars.simps [of pat p] toks_drop)
  next
    case False
    then show ?thesis by (simp add: tail_stars.simps [of pat p])
  qed
qed

text \<open>
  The loop invariant: since the last wildcard at \<open>sp\<close>, first tried at \<open>si\<close>, the pattern up to \<open>p\<close>
  and the subject up to \<open>i\<close> advanced over the same literals.
\<close>

definition star_inv :: "string \<Rightarrow> string \<Rightarrow> nat \<Rightarrow> nat \<Rightarrow> nat option \<Rightarrow> nat \<Rightarrow> bool" where
  "star_inv pat s p i starP si \<longleftrightarrow> i \<le> length s \<and>
     (case starP of None \<Rightarrow> True
      | Some sp \<Rightarrow> si \<le> i \<and>
          (\<exists>ls. toks (drop (sp + 1) pat) = map Lit ls @ toks (drop p pat)
              \<and> drop si s = ls @ drop i s))"

definition loop_goal :: "string \<Rightarrow> string \<Rightarrow> nat \<Rightarrow> nat \<Rightarrow> nat option \<Rightarrow> nat \<Rightarrow> bool" where
  "loop_goal pat s p i starP si \<longleftrightarrow>
     (case starP of
        None \<Rightarrow> drop i s \<in> glob_lang (toks (drop p pat))
      | Some sp \<Rightarrow> drop si s \<in> glob_lang (Star # toks (drop (sp + 1) pat)))"

lemma match_loop_goal:
  "star_inv pat s p i starP si \<Longrightarrow>
   (case match_loop pat s p i starP si of None \<Rightarrow> False | Some q \<Rightarrow> tail_stars pat q)
     \<longleftrightarrow> loop_goal pat s p i starP si"
proof (induction pat s p i starP si rule: match_loop.induct)
  case (1 pat s p i starP si)
  let ?t = "token pat p" and ?w = "fst (snd (token pat p))"
  note unf = match_loop.simps [of pat s p i starP si]
  consider (fin) "\<not> i < length s"
    | (star) "i < length s" "p < length pat" "snd (snd ?t)"
    | (lit) "i < length s" "p < length pat" "\<not> snd (snd ?t)" "fst ?t = s ! i"
    | (stuck) "i < length s" "p < length pat \<longrightarrow> \<not> snd (snd ?t) \<and> fst ?t \<noteq> s ! i"
    by blast
  then show ?case
  proof cases
    case fin
    then have e: "drop i s = []" by simp
    have "loop_goal pat s p i starP si \<longleftrightarrow> [] \<in> glob_lang (toks (drop p pat))"
    proof (cases starP)
      case None
      then show ?thesis by (simp add: loop_goal_def e)
    next
      case (Some sp)
      then obtain ls where "toks (drop (sp + 1) pat) = map Lit ls @ toks (drop p pat)"
        "drop si s = ls" using "1.prems" e by (auto simp: star_inv_def)
      then show ?thesis using Some by (simp add: loop_goal_def star_lang_end del: glob_lang.simps)
    qed
    with fin show ?thesis by (simp add: unf tail_stars_lang)
  next
    case star
    have inv: "star_inv pat s (p + ?w) i (Some p) i"
      using star by (auto simp: star_inv_def token_def split: if_splits)
    have w: "?w = 1" using star(3) by (auto simp: token_def split: if_splits)
    have t: "toks (drop p pat) = Star # toks (drop (p + 1) pat)"
      using toks_drop [OF star(2)] star(3) w by simp
    have "loop_goal pat s (p + ?w) i (Some p) i \<longleftrightarrow> loop_goal pat s p i starP si"
    proof (cases starP)
      case None
      then show ?thesis using t by (simp add: loop_goal_def)
    next
      case (Some sp)
      then obtain ls where "toks (drop (sp + 1) pat) = map Lit ls @ toks (drop p pat)"
        "drop si s = ls @ drop i s" using "1.prems" by (auto simp: star_inv_def)
      then show ?thesis using Some t
        by (simp add: loop_goal_def star_lang_restart del: glob_lang.simps)
    qed
    with "1.IH"(1) [OF star(1) _ inv] star show ?thesis by (simp add: unf)
  next
    case lit
    have t: "toks (drop p pat) = Lit (s ! i) # toks (drop (p + ?w) pat)"
      using toks_drop [OF lit(2)] lit by simp
    have s: "drop i s = s ! i # drop (i + 1) s"
      using lit(1) by (simp add: Cons_nth_drop_Suc)
    have inv: "star_inv pat s (p + ?w) (i + 1) starP si"
    proof (cases starP)
      case None
      then show ?thesis using lit by (simp add: star_inv_def)
    next
      case (Some sp)
      then obtain ls where "toks (drop (sp + 1) pat) = map Lit ls @ toks (drop p pat)"
        "drop si s = ls @ drop i s" "si \<le> i" using "1.prems" by (auto simp: star_inv_def)
      then have "toks (drop (sp + 1) pat) = map Lit (ls @ [s ! i]) @ toks (drop (p + ?w) pat)"
        "drop si s = (ls @ [s ! i]) @ drop (i + 1) s" using t s by simp_all
      then show ?thesis using Some lit(1) \<open>si \<le> i\<close> by (auto simp: star_inv_def)
    qed
    have "loop_goal pat s (p + ?w) (i + 1) starP si \<longleftrightarrow> loop_goal pat s p i starP si"
      using t s by (cases starP) (auto simp: loop_goal_def)
    with "1.IH"(2) [OF lit(1) _ _ inv] lit show ?thesis by (simp add: unf)
  next
    case stuck
    have s: "drop i s = s ! i # drop (i + 1) s"
      using stuck(1) by (simp add: Cons_nth_drop_Suc)
    have no: "drop i s \<notin> glob_lang (toks (drop p pat))"
    proof (cases "p < length pat")
      case True
      then show ?thesis using toks_drop [OF True] stuck(2) s by auto
    next
      case False
      then show ?thesis using s by simp
    qed
    show ?thesis
    proof (cases starP)
      case None
      then have "match_loop pat s p i starP si = None" using stuck by (subst unf) auto
      with None no show ?thesis by (simp add: loop_goal_def)
    next
      case (Some sp)
      then obtain ls where ls: "toks (drop (sp + 1) pat) = map Lit ls @ toks (drop p pat)"
        "drop si s = ls @ drop i s" and si: "si \<le> i" using "1.prems" by (auto simp: star_inv_def)
      have inv: "star_inv pat s (sp + 1) (si + 1) (Some sp) (si + 1)"
        using stuck(1) si by (simp add: star_inv_def)
      have "drop si s \<notin> glob_lang (toks (drop (sp + 1) pat))"
        using ls no by (auto simp: lits_lang)
      moreover have "drop si s = s ! si # drop (si + 1) s"
        using stuck(1) si by (simp add: Cons_nth_drop_Suc)
      ultimately have "loop_goal pat s (sp + 1) (si + 1) (Some sp) (si + 1)
          \<longleftrightarrow> loop_goal pat s p i starP si"
        using Some by (simp add: loop_goal_def star_lang_Cons del: glob_lang.simps)
      moreover have "match_loop pat s p i starP si
          = match_loop pat s (sp + 1) (si + 1) (Some sp) (si + 1)"
        using stuck Some by (subst unf) auto
      ultimately show ?thesis using "1.IH"(3) [OF stuck(1) _ _ Some inv] stuck by auto
    qed
  qed
qed

lemma Match_iff_lang: "Match pat s \<longleftrightarrow> s \<in> glob_lang (toks pat)"
  using match_loop_goal [of pat s 0 0 None 0]
  by (simp add: Match_def star_inv_def loop_goal_def)


section \<open>Properties\<close>

text \<open>C16: the iterative matcher accepts exactly the strings the pattern denotes, where a wildcard
  stands for any run of bytes, a backslash makes the next byte literal and every other byte stands
  for itself. The loop terminates on every input, since \<open>match_loop\<close> is total.\<close>

theorem Match_correct: "Match pattern s \<longleftrightarrow> s \<in> glob_lang (toks pattern)"
  by (rule Match_iff_lang)

lemma toks_Escape_bytes: "toks (Escape_bytes v @ r) = map Lit v @ toks r"
proof (induction v)
  case Nil
  then show ?case by simp
next
  case (Cons c v)
  show ?case
  proof (cases "Escape_bytes v @ r")
    case Nil
    then show ?thesis using Cons by auto
  next
    case (Cons d ds)
    then show ?thesis using Cons.IH by (auto split: if_splits)
  qed
qed

lemma Escape_bytes_plain:
  "star_char \<notin> set v \<Longrightarrow> backslash \<notin> set v \<Longrightarrow> Escape_bytes v = v"
  by (induction v) auto

lemma Escape_eq_bytes: "Escape v = Escape_bytes v"
  by (simp add: Escape_def Escape_bytes_plain)

lemma toks_Escape: "toks (Escape v @ r) = map Lit v @ toks r"
  by (simp add: Escape_eq_bytes toks_Escape_bytes)

text \<open>C33: an escaped value matches itself and nothing else, whatever wildcards or backslashes it
  contains.\<close>

theorem Match_Escape: "Match (Escape v) s \<longleftrightarrow> s = v"
  using lits_lang [of s v "[]"] toks_Escape [of v "[]"] by (simp add: Match_iff_lang)

text \<open>A pattern as the author wrote it: single bytes and references to variables.\<close>

datatype segment = Byte char | Var string

function segments :: "string \<Rightarrow> segment list" where
  "segments [] = []"
| "segments (c # cs) =
     (if c = lbrace \<and> takeWhile isVarChar cs \<noteq> [] \<and>
         (\<exists>rest. dropWhile isVarChar cs = rbrace # rest)
      then Var (takeWhile isVarChar cs) # segments (tl (dropWhile isVarChar cs))
      else Byte c # segments cs)"
  by pat_completeness auto
termination
proof (relation "measure length", goal_cases)
  case (2 c cs)
  then show ?case using length_dropWhile_le [of isVarChar cs] by auto
qed auto

fun segment_toks :: "(string, string) gomap \<Rightarrow> segment \<Rightarrow> glob_tok list" where
  "segment_toks vars (Byte c) = [if c = star_char then Star else Lit c]"
| "segment_toks vars (Var n) = map Lit (case gm_get vars n of None \<Rightarrow> [] | Some v \<Rightarrow> v)"

fun segment_resolves :: "(string, string) gomap \<Rightarrow> segment \<Rightarrow> bool" where
  "segment_resolves vars (Byte c) = True"
| "segment_resolves vars (Var n) = (gm_get vars n \<noteq> None)"

text \<open>Whether a variable reference starts at the byte \<open>c\<close> with \<open>cs\<close> behind it.\<close>

definition is_ref :: "char \<Rightarrow> string \<Rightarrow> bool" where
  "is_ref c cs \<longleftrightarrow> c = lbrace \<and> takeWhile isVarChar cs \<noteq> [] \<and>
     (\<exists>rest. dropWhile isVarChar cs = rbrace # rest)"

lemma segments_Cons:
  "segments (c # cs) =
     (if is_ref c cs then Var (takeWhile isVarChar cs) # segments (tl (dropWhile isVarChar cs))
      else Byte c # segments cs)"
  by (simp add: is_ref_def)

lemma expand_loop_byte:
  "\<not> is_ref c cs \<Longrightarrow> expand_loop (c # cs) vars esc
     = (c # fst (expand_loop cs vars esc), snd (expand_loop cs vars esc))"
  by (cases "dropWhile isVarChar cs") (auto simp: Let_def is_ref_def)

lemma expand_loop_ref:
  "is_ref c cs \<Longrightarrow> expand_loop (c # cs) vars esc
     = (let v = (case gm_get vars (takeWhile isVarChar cs) of None \<Rightarrow> [] | Some v \<Rightarrow> v);
            r = expand_loop (tl (dropWhile isVarChar cs)) vars esc
        in ((if esc then Escape v else v) @ fst r,
            gm_get vars (takeWhile isVarChar cs) \<noteq> None \<and> snd r))"
  by (auto simp: Let_def is_ref_def simp del: dropWhile_eq_Nil_conv)

declare expand_loop.simps(2) [simp del] segments.simps(2) [simp del]

lemma segments_induct [case_names Nil Byte Ref]:
  assumes "P []"
    and "\<And>c cs. \<not> is_ref c cs \<Longrightarrow> P cs \<Longrightarrow> P (c # cs)"
    and "\<And>c cs. is_ref c cs \<Longrightarrow> P (tl (dropWhile isVarChar cs)) \<Longrightarrow> P (c # cs)"
  shows "P pat"
proof (induction pat rule: segments.induct)
  case 1
  show ?case by (rule assms(1))
next
  case (2 c cs)
  then show ?case using assms(2,3) by (cases "is_ref c cs") (auto simp: is_ref_def)
qed

lemma set_tl_dropWhile: "set (tl (dropWhile p xs)) \<subseteq> set xs"
  by (metis list.set_sel(2) set_dropWhileD subsetI tl_Nil)

lemma toks_Cons_plain:
  "c \<noteq> backslash \<Longrightarrow> toks (c # cs) = (if c = star_char then Star else Lit c) # toks cs"
  by (cases cs) auto

lemma expand_loop_toks:
  "backslash \<notin> set pat \<Longrightarrow>
   toks (fst (expand_loop pat vars True)) = concat (map (segment_toks vars) (segments pat))"
proof (induction pat rule: segments_induct)
  case Nil
  then show ?case by simp
next
  case (Byte c cs)
  then show ?case by (auto simp: expand_loop_byte segments_Cons toks_Cons_plain)
next
  case (Ref c cs)
  then have "backslash \<notin> set (tl (dropWhile isVarChar cs))"
    using set_tl_dropWhile [of isVarChar cs] by auto
  with Ref show ?case by (simp add: expand_loop_ref segments_Cons Let_def toks_Escape)
qed

lemma expand_loop_resolves:
  "snd (expand_loop pat vars esc) \<longleftrightarrow> list_all (segment_resolves vars) (segments pat)"
  by (induction pat rule: segments_induct)
    (auto simp: expand_loop_byte expand_loop_ref segments_Cons Let_def)

lemma segments_no_brace: "lbrace \<notin> set pat \<Longrightarrow> segments pat = map Byte pat"
  by (induction pat) (auto simp: segments_Cons is_ref_def)

lemma toks_no_backslash:
  "backslash \<notin> set pat \<Longrightarrow> toks pat = concat (map (segment_toks vars) (map Byte pat))"
  by (induction pat) (auto simp: toks_Cons_plain)

lemma expand_resolves: "snd (expand pat vars esc) \<longleftrightarrow> list_all (segment_resolves vars) (segments pat)"
proof (cases "lbrace \<in> set pat")
  case True
  then show ?thesis by (simp add: expand_def expand_loop_resolves)
next
  case False
  then show ?thesis by (simp add: expand_def segments_no_brace list_all_iff)
qed

text \<open>C34: substitution into a pattern without backslashes cannot inject wildcards: the expanded
  pattern matches exactly the strings that the author's bytes, with each variable standing for its
  value taken literally, denote; and the flag says that every referenced variable has a value.\<close>

theorem expand_no_injection:
  assumes "backslash \<notin> set pat"
  shows "(Match (fst (expand pat vars True)) s
            \<longleftrightarrow> s \<in> glob_lang (concat (map (segment_toks vars) (segments pat))))
       \<and> (snd (expand pat vars True) \<longleftrightarrow> list_all (segment_resolves vars) (segments pat))"
proof -
  have "toks (fst (expand pat vars True)) = concat (map (segment_toks vars) (segments pat))"
  proof (cases "lbrace \<in> set pat")
    case True
    then show ?thesis using expand_loop_toks [OF assms] by (simp add: expand_def)
  next
    case False
    then show ?thesis using toks_no_backslash [OF assms] by (simp add: expand_def segments_no_brace)
  qed
  then show ?thesis by (simp add: Match_iff_lang expand_resolves)
qed

definition tenant_pattern :: string where
  "tenant_pattern = ''doc:'' @ [lbrace] @ ''org'' @ [rbrace] @ ''/*''"

theorem expand_no_injection_witness:
  "backslash \<notin> set tenant_pattern
   \<and> (Match (fst (expand tenant_pattern [(''org'', ''*'')] True)) ''doc:acme/1''
        \<longleftrightarrow> ''doc:acme/1'' \<in> glob_lang
             (concat (map (segment_toks [(''org'', ''*'')]) (segments tenant_pattern))))"
proof -
  have h: "backslash \<notin> set tenant_pattern" by code_simp
  show ?thesis using h expand_no_injection [OF h, of "[(''org'', ''*'')]" "''doc:acme/1''"] by blast
qed

text \<open>The guarantee of the previous property is lost after a backslash. In the pattern made of
  a backslash and a variable reference, the backslash escapes the backslash that \<open>Escape\<close> puts in
  front of a wildcard in the value, so a value of one wildcard matches every string that starts with
  a backslash instead of only itself.\<close>

theorem expand_after_backslash_injects:
  "fst (expand [backslash, lbrace, CHR ''u'', rbrace] [(''u'', ''*'')] True)
     = [backslash, backslash, star_char]
   \<and> Match (fst (expand [backslash, lbrace, CHR ''u'', rbrace] [(''u'', ''*'')] True))
        (backslash # t)"
proof -
  have e: "fst (expand [backslash, lbrace, CHR ''u'', rbrace] [(''u'', ''*'')] True)
     = [backslash, backslash, star_char]" by code_simp
  have "t = t @ []" by simp
  then have "backslash # t \<in> glob_lang (toks [backslash, backslash, star_char])"
    by simp
  with e show ?thesis by (simp add: Match_iff_lang del: toks.simps)
qed

end
