(* ===== verification/PolicyDoc.thy ===== *)
theory PolicyDoc
  imports Glob Complex_Main
begin

text \<open>
  Policy documents and the vocabulary of decisions: \<open>src/policy/policy.go\<close> (documents and their
  validation), the types of \<open>src/policy/risk.go\<close>, \<open>src/policy/taint.go\<close> and
  \<open>src/policy/eval.go\<close>, and the decision codes of \<open>src/policy/codes.go\<close>.

  The text parsers the source takes from Go's library (CIDR prefixes, IP addresses, RFC 3339
  instants, \<open>15:04\<close> clock times) and the JSON codec are fields of the record \<open>golib\<close>; every
  definition that needs them takes the record as its first argument, and the theorems hold for every
  value of it.
\<close>

record ('addr, 'pfx) golib =
  ParsePrefix :: "string \<Rightarrow> 'pfx option"
  ParseAddr :: "string \<Rightarrow> 'addr option"
  Unmap :: "'addr \<Rightarrow> 'addr"
  Contains :: "'pfx \<Rightarrow> 'addr \<Rightarrow> bool"
  ParseRFC3339 :: "string \<Rightarrow> time option"
  Parse1504 :: "string \<Rightarrow> (nat \<times> nat) option"
  TrimSpace :: "string \<Rightarrow> string"

section \<open>Constants and documents\<close>

type_synonym Effect = string
type_synonym Requirement = string

definition PolicyVersion :: string where "PolicyVersion = ''1''"

definition MaxDocumentBytes :: nat where "MaxDocumentBytes = 2 ^ 20"
definition MaxStatements :: nat where "MaxStatements = 256"
definition MaxPatternLen :: nat where "MaxPatternLen = 512"
definition MaxListLen :: nat where "MaxListLen = 256"

definition Allow :: Effect where "Allow = ''allow''"
definition Deny :: Effect where "Deny = ''deny''"
definition Escalate :: Effect where "Escalate = ''escalate''"

lemmas effect_defs = Allow_def Deny_def Escalate_def

lemma effects_distinct [simp]:
  "Allow \<noteq> Deny" "Deny \<noteq> Allow" "Allow \<noteq> Escalate" "Escalate \<noteq> Allow"
  "Deny \<noteq> Escalate" "Escalate \<noteq> Deny" "Allow \<noteq> []" "Deny \<noteq> []" "Escalate \<noteq> []"
  "[] \<noteq> Allow" "[] \<noteq> Deny" "[] \<noteq> Escalate"
  by (simp_all add: effect_defs)

definition OpEquals :: string where "OpEquals = ''equals''"
definition OpNotEquals :: string where "OpNotEquals = ''not_equals''"
definition OpIn :: string where "OpIn = ''in''"
definition OpNotIn :: string where "OpNotIn = ''not_in''"
definition OpIPCIDR :: string where "OpIPCIDR = ''ip_cidr''"
definition OpNotIPCIDR :: string where "OpNotIPCIDR = ''not_ip_cidr''"
definition OpTimeWindow :: string where "OpTimeWindow = ''time_window''"
definition OpDailyWindow :: string where "OpDailyWindow = ''daily_window''"

lemmas op_defs = OpEquals_def OpNotEquals_def OpIn_def OpNotIn_def OpIPCIDR_def OpNotIPCIDR_def
  OpTimeWindow_def OpDailyWindow_def

definition RequireNone :: Requirement where "RequireNone = ''none''"
definition RequireApproval :: Requirement where "RequireApproval = ''approval''"
definition RequireStepUp :: Requirement where "RequireStepUp = ''step_up''"

lemmas require_defs = RequireNone_def RequireApproval_def RequireStepUp_def

record Condition =
  cond_Op :: string
  cond_Key :: string
  cond_Values :: "string list"

record Statement =
  st_ID :: string
  st_Effect :: Effect
  st_Actions :: "string list"
  st_Resources :: "string list"
  st_Conditions :: "Condition list"
  st_Tier :: string
  st_Require :: Requirement

record Policy =
  pol_Version :: string
  pol_ID :: string
  pol_Statements :: "Statement list"

section \<open>Validation\<close>

datatype stmt_error =
    BadEffect
  | BadRequire
  | PatternsEmpty string
  | PatternsTooMany string
  | PatternEntryLen string
  | TooManyConditions
  | TooManyValues
  | ValueTooLong
  | NeedsKeyAndOneValue
  | NeedsKeyAndValues
  | NeedsCIDR
  | BadCIDR string
  | TimeWindowShape
  | TimeWindowBadTime string
  | DailyWindowShape
  | DailyWindowBadTime string
  | UnknownOp string

datatype policy_error =
    DocumentTooLarge
  | BadJSON
  | TrailingData
  | BadVersion string
  | TooManyStatements
  | InStatement nat stmt_error

text \<open>The first error a loop over a slice returns, if any.\<close>

fun first_error :: "('a \<Rightarrow> 'e option) \<Rightarrow> 'a list \<Rightarrow> 'e option" where
  "first_error f [] = None"
| "first_error f (x # xs) = (case f x of Some e \<Rightarrow> Some e | None \<Rightarrow> first_error f xs)"

lemma first_error_None [simp]: "first_error f xs = None \<longleftrightarrow> (\<forall>x \<in> set xs. f x = None)"
  by (induction xs) (auto split: option.splits)

definition parseClock :: "('a, 'p) golib \<Rightarrow> string \<Rightarrow> nat option" where
  "parseClock lib v =
     (case Parse1504 lib (TrimSpace lib v) of
        None \<Rightarrow> None
      | Some (h, m) \<Rightarrow> Some (h * 60 + m))"

definition checkPatterns :: "string \<Rightarrow> string list \<Rightarrow> stmt_error option" where
  "checkPatterns field xs =
     (if xs = [] then Some (PatternsEmpty field)
      else if length xs > MaxListLen then Some (PatternsTooMany field)
      else first_error
        (\<lambda>v. if v = [] \<or> length v > MaxPatternLen then Some (PatternEntryLen field) else None) xs)"

definition Condition_validate :: "('a, 'p) golib \<Rightarrow> Condition \<Rightarrow> stmt_error option" where
  "Condition_validate lib c =
     (if length (cond_Values c) > MaxListLen then Some TooManyValues
      else if first_error (\<lambda>v. if length v > MaxPatternLen then Some ValueTooLong else None)
                (cond_Values c) \<noteq> None then Some ValueTooLong
      else if cond_Op c = OpEquals \<or> cond_Op c = OpNotEquals then
        (if cond_Key c = [] \<or> length (cond_Values c) \<noteq> 1 then Some NeedsKeyAndOneValue else None)
      else if cond_Op c = OpIn \<or> cond_Op c = OpNotIn then
        (if cond_Key c = [] \<or> length (cond_Values c) = 0 then Some NeedsKeyAndValues else None)
      else if cond_Op c = OpIPCIDR \<or> cond_Op c = OpNotIPCIDR then
        (if length (cond_Values c) = 0 then Some NeedsCIDR
         else first_error
           (\<lambda>v. if ParsePrefix lib v = None then Some (BadCIDR v) else None) (cond_Values c))
      else if cond_Op c = OpTimeWindow then
        (case cond_Values c of
           [a, b] \<Rightarrow>
             (if a = [] \<and> b = [] then Some TimeWindowShape
              else first_error
                (\<lambda>v. if v = [] then None
                     else if ParseRFC3339 lib v = None then Some (TimeWindowBadTime v) else None)
                [a, b])
         | _ \<Rightarrow> Some TimeWindowShape)
      else if cond_Op c = OpDailyWindow then
        (if length (cond_Values c) \<noteq> 2 then Some DailyWindowShape
         else first_error
           (\<lambda>v. if parseClock lib v = None then Some (DailyWindowBadTime v) else None)
           (cond_Values c))
      else Some (UnknownOp (cond_Op c)))"

definition Statement_validate :: "('a, 'p) golib \<Rightarrow> Statement \<Rightarrow> stmt_error option" where
  "Statement_validate lib s =
     (if st_Effect s \<noteq> Allow \<and> st_Effect s \<noteq> Deny \<and> st_Effect s \<noteq> Escalate then Some BadEffect
      else if st_Effect s = Escalate \<and> st_Require s \<noteq> [] \<and> st_Require s \<noteq> RequireApproval
                \<and> st_Require s \<noteq> RequireStepUp then Some BadRequire
      else case checkPatterns ''actions'' (st_Actions s) of
        Some e \<Rightarrow> Some e
      | None \<Rightarrow>
        (case checkPatterns ''resources'' (st_Resources s) of
           Some e \<Rightarrow> Some e
         | None \<Rightarrow>
           (if length (st_Conditions s) > MaxListLen then Some TooManyConditions
            else first_error (Condition_validate lib) (st_Conditions s))))"

fun validate_from :: "('a, 'p) golib \<Rightarrow> nat \<Rightarrow> Statement list \<Rightarrow> policy_error option" where
  "validate_from lib i [] = None"
| "validate_from lib i (s # ss) =
     (case Statement_validate lib s of
        Some e \<Rightarrow> Some (InStatement i e)
      | None \<Rightarrow> validate_from lib (Suc i) ss)"

definition Validate :: "('a, 'p) golib \<Rightarrow> Policy \<Rightarrow> policy_error option" where
  "Validate lib p =
     (if pol_Version p \<noteq> PolicyVersion then Some (BadVersion (pol_Version p))
      else if length (pol_Statements p) > MaxStatements then Some TooManyStatements
      else validate_from lib 0 (pol_Statements p))"

text \<open>
  \<open>dec\<close> is the strict JSON decoder: the first value of the input, if it decodes, and whether more
  input follows. \<open>enc\<close> is \<open>json.MarshalIndent\<close>.
\<close>

definition Parse ::
  "('a, 'p) golib \<Rightarrow> (string \<Rightarrow> (Policy \<times> bool) option) \<Rightarrow> string \<Rightarrow> policy_error + Policy" where
  "Parse lib dec data =
     (if length data > MaxDocumentBytes then Inl DocumentTooLarge
      else case dec data of
        None \<Rightarrow> Inl BadJSON
      | Some (p, trailing) \<Rightarrow>
          if trailing then Inl TrailingData
          else (case Validate lib p of Some e \<Rightarrow> Inl e | None \<Rightarrow> Inr p))"

definition Marshal ::
  "('a, 'p) golib \<Rightarrow> (Policy \<Rightarrow> string option) \<Rightarrow> Policy \<Rightarrow> policy_error + string" where
  "Marshal lib enc p =
     (case Validate lib p of
        Some e \<Rightarrow> Inl e
      | None \<Rightarrow> (case enc p of None \<Rightarrow> Inl BadJSON | Some b \<Rightarrow> Inr b))"

section \<open>Requests and decisions\<close>

text \<open>
  The source compares amounts only; a \<open>float64\<close> is a not-a-number, an infinity or a finite value,
  with IEEE comparison.
\<close>

datatype float64 = NaN | NegInf | Fin rat | PosInf

fun flt_less :: "float64 \<Rightarrow> float64 \<Rightarrow> bool" where
  "flt_less NaN y = False"
| "flt_less x NaN = False"
| "flt_less NegInf y = (y \<noteq> NegInf)"
| "flt_less x NegInf = False"
| "flt_less PosInf y = False"
| "flt_less x PosInf = True"
| "flt_less (Fin x) (Fin y) = (x < y)"

record Request =
  req_Action :: string
  req_Resource :: string
  req_Attributes :: "(string, string) gomap"
  req_IP :: string
  req_Now :: time
  req_Amount :: float64
  req_Currency :: string
  req_DataClass :: string
  req_Irreversible :: bool
  req_Provenance :: "(string, string list) gomap"

datatype DecisionCode =
    CodeNone
  | CodeAllowed
  | CodeApprovalConsumed
  | CodeNoPermission
  | CodeRateLimited
  | CodeIPNotAllowed
  | CodeTimeRestricted
  | CodeArgumentRejected
  | CodeApprovalRequired
  | CodeApprovalInvalid
  | CodeAgentNotFound
  | CodeAgentRevoked
  | CodeAgentExpired
  | CodeInvalidToken
  | CodeOwnerMismatch
  | CodeHookDenied
  | CodeHookTimeout
  | CodeHookError
  | CodeTaintViolation
  | CodeRiskEscalation
  | CodePolicyIndeterminate

definition AllDecisionCodes :: "DecisionCode list" where
  "AllDecisionCodes =
     [CodeAllowed, CodeApprovalConsumed, CodeNoPermission, CodeRateLimited,
      CodeIPNotAllowed, CodeTimeRestricted, CodeArgumentRejected,
      CodeApprovalRequired, CodeApprovalInvalid, CodeAgentNotFound,
      CodeAgentRevoked, CodeAgentExpired, CodeInvalidToken, CodeOwnerMismatch,
      CodeHookDenied, CodeHookTimeout, CodeHookError, CodeTaintViolation,
      CodeRiskEscalation, CodePolicyIndeterminate]"

fun code_string :: "DecisionCode \<Rightarrow> string" where
  "code_string CodeNone = []"
| "code_string CodeAllowed = ''allowed''"
| "code_string CodeApprovalConsumed = ''approval_consumed''"
| "code_string CodeNoPermission = ''no_permission''"
| "code_string CodeRateLimited = ''rate_limited''"
| "code_string CodeIPNotAllowed = ''ip_not_allowed''"
| "code_string CodeTimeRestricted = ''time_restricted''"
| "code_string CodeArgumentRejected = ''argument_rejected''"
| "code_string CodeApprovalRequired = ''approval_required''"
| "code_string CodeApprovalInvalid = ''approval_invalid''"
| "code_string CodeAgentNotFound = ''agent_not_found''"
| "code_string CodeAgentRevoked = ''agent_revoked''"
| "code_string CodeAgentExpired = ''agent_expired''"
| "code_string CodeInvalidToken = ''invalid_token''"
| "code_string CodeOwnerMismatch = ''owner_mismatch''"
| "code_string CodeHookDenied = ''hook_denied''"
| "code_string CodeHookTimeout = ''hook_timeout''"
| "code_string CodeHookError = ''hook_error''"
| "code_string CodeTaintViolation = ''taint_violation''"
| "code_string CodeRiskEscalation = ''risk_escalation''"
| "code_string CodePolicyIndeterminate = ''policy_indeterminate''"

definition Permits :: "DecisionCode \<Rightarrow> bool" where
  "Permits c \<longleftrightarrow> c = CodeAllowed \<or> c = CodeApprovalConsumed"

definition code_Valid :: "DecisionCode \<Rightarrow> bool" where
  "code_Valid c \<longleftrightarrow> c \<in> set AllDecisionCodes"

record Escalation =
  esc_Tier :: string
  esc_Requirement :: Requirement
  esc_Reason :: string

record TaintMatch =
  tm_Rule :: string
  tm_Kind :: string
  tm_Arg :: string
  tm_Labels :: "string list"
  tm_Effect :: Effect

record TaintVerdict =
  tv_Verdict :: string
  tv_Matches :: "TaintMatch list"
  tv_Labels :: "(string, string list) gomap"

record Decision =
  d_Allowed :: bool
  d_Effect :: Effect
  d_PolicyID :: string
  d_StatementID :: string
  d_Reason :: string
  d_Code :: DecisionCode
  d_Boundary :: bool
  d_Escalation :: "Escalation option"
  d_Taint :: "TaintVerdict option"

record RiskTier =
  rt_Name :: string
  rt_MinAmount :: float64
  rt_Currency :: string
  rt_DataClasses :: "string list"
  rt_Irreversible :: "bool option"
  rt_Require :: Requirement

record ArgRule =
  ar_Forbid :: "string list"
  ar_Require :: "string list"

record TaintRule =
  tr_ID :: string
  tr_Resource :: string
  tr_Actions :: "string list"
  tr_Forbid :: "string list"
  tr_Require :: "string list"
  tr_Args :: "(string, ArgRule) gomap"
  tr_Effect :: Effect
  tr_Tier :: string
  tr_Unlabeled :: string

text \<open>
  The evaluator's clock is optional; \<open>None\<close> stands for the nil function. A clock is the sequence of
  its readings.
\<close>

record Evaluator =
  ev_Now :: "(nat \<Rightarrow> time) option"
  ev_Risk :: "RiskTier list"
  ev_Taint :: "TaintRule list"

text \<open>The zero value of a decision.\<close>

definition zero_Decision :: Decision where
  "zero_Decision = \<lparr>d_Allowed = False, d_Effect = [], d_PolicyID = [], d_StatementID = [],
     d_Reason = [], d_Code = CodeNone, d_Boundary = False, d_Escalation = None, d_Taint = None\<rparr>"

end
