(* ===== verification/PolicyEval.thy ===== *)
theory PolicyEval
  imports PolicyDoc
begin

text \<open>
  Evaluation of a request against policies before taint rules: \<open>src/policy/eval.go\<close>
  (statement matching, conditions, the deny, escalate, allow scan, default deny codes) and
  \<open>src/policy/risk.go\<close> (risk tiers). The scan is characterised declaratively by the set of
  matching statements.
\<close>

section \<open>Conditions\<close>

definition utc_Hour :: "time \<Rightarrow> nat" where
  "utc_Hour t = nat ((t div (60 * minute)) mod 24)"

definition utc_Minute :: "time \<Rightarrow> nat" where
  "utc_Minute t = nat ((t div minute) mod 60)"

definition inCIDR :: "('a, 'p) golib \<Rightarrow> string list \<Rightarrow> string \<Rightarrow> bool" where
  "inCIDR lib cidrs ip =
     (case ParseAddr lib ip of
        None \<Rightarrow> False
      | Some addr \<Rightarrow>
          list_ex (\<lambda>c. case ParsePrefix lib c of None \<Rightarrow> False
                       | Some p \<Rightarrow> Contains lib p (Unmap lib addr)) cidrs)"

definition inAbsoluteWindow :: "('a, 'p) golib \<Rightarrow> string list \<Rightarrow> time \<Rightarrow> bool" where
  "inAbsoluteWindow lib v now =
     (case v of
        [a, b] \<Rightarrow>
          (if a \<noteq> [] \<and> (case ParseRFC3339 lib a of None \<Rightarrow> True | Some start \<Rightarrow> now < start) then False
           else if b \<noteq> [] \<and> (case ParseRFC3339 lib b of None \<Rightarrow> True | Some en \<Rightarrow> \<not> now < en)
           then False
           else True)
      | _ \<Rightarrow> False)"

definition inDailyWindow :: "('a, 'p) golib \<Rightarrow> string list \<Rightarrow> time \<Rightarrow> bool" where
  "inDailyWindow lib v now =
     (case v of
        [a, b] \<Rightarrow>
          (case (parseClock lib a, parseClock lib b) of
             (Some start, Some en) \<Rightarrow>
               (let cur = utc_Hour now * 60 + utc_Minute now in
                if start \<le> en then cur \<ge> start \<and> cur < en else cur \<ge> start \<or> cur < en)
           | _ \<Rightarrow> False)
      | _ \<Rightarrow> False)"

text \<open>The values of a condition after substitution; unresolved ones are dropped.\<close>

fun expand_values :: "string list \<Rightarrow> (string, string) gomap \<Rightarrow> string list" where
  "expand_values [] vars = []"
| "expand_values (v # vs) vars =
     (let (x, ok) = expand v vars False in
      if ok then x # expand_values vs vars else expand_values vs vars)"

definition Condition_holds :: "('a, 'p) golib \<Rightarrow> Request \<Rightarrow> Condition \<Rightarrow> bool" where
  "Condition_holds lib req c =
     (if cond_Op c = OpTimeWindow then inAbsoluteWindow lib (cond_Values c) (req_Now req)
      else if cond_Op c = OpDailyWindow then inDailyWindow lib (cond_Values c) (req_Now req)
      else
        (let val = (if cond_Key c = ''ip'' then (if req_IP req \<noteq> [] then Some (req_IP req) else None)
                    else gm_get (req_Attributes req) (cond_Key c));
             want = expand_values (cond_Values c) (req_Attributes req)
         in
         if cond_Op c = OpEquals then (case val of None \<Rightarrow> False | Some v \<Rightarrow> want = [v])
         else if cond_Op c = OpNotEquals then (case val of None \<Rightarrow> True | Some v \<Rightarrow> want \<noteq> [v])
         else if cond_Op c = OpIn then (case val of None \<Rightarrow> False | Some v \<Rightarrow> v \<in> set want)
         else if cond_Op c = OpNotIn then (case val of None \<Rightarrow> True | Some v \<Rightarrow> v \<notin> set want)
         else if cond_Op c = OpIPCIDR then
           (case val of None \<Rightarrow> False | Some v \<Rightarrow> inCIDR lib (cond_Values c) v)
         else if cond_Op c = OpNotIPCIDR then
           (case val of None \<Rightarrow> True | Some v \<Rightarrow> \<not> inCIDR lib (cond_Values c) v)
         else False))"

section \<open>Statements\<close>

fun matchesResource_loop :: "Request \<Rightarrow> bool \<Rightarrow> string list \<Rightarrow> bool" where
  "matchesResource_loop req unresolvedMatches [] = False"
| "matchesResource_loop req unresolvedMatches (pat # pats) =
     (let (exp, ok) = expand pat (req_Attributes req) True in
      if \<not> ok then (if unresolvedMatches then True else matchesResource_loop req unresolvedMatches pats)
      else if Match exp (req_Resource req) then True
      else matchesResource_loop req unresolvedMatches pats)"

definition matchesResource :: "Statement \<Rightarrow> Request \<Rightarrow> bool \<Rightarrow> bool" where
  "matchesResource s req unresolvedMatches =
     matchesResource_loop req unresolvedMatches (st_Resources s)"

definition matchesTarget :: "Statement \<Rightarrow> Request \<Rightarrow> bool" where
  "matchesTarget s req =
     (if \<not> list_ex (\<lambda>p. Match p (req_Action req)) (st_Actions s) then False
      else matchesResource s req (st_Effect s = Deny))"

definition Statement_matches :: "('a, 'p) golib \<Rightarrow> Request \<Rightarrow> Statement \<Rightarrow> bool" where
  "Statement_matches lib req s =
     (matchesTarget s req \<and> list_all (Condition_holds lib req) (st_Conditions s))"

definition statementIndexID :: "nat \<Rightarrow> string" where
  "statementIndexID i = ''stmt-'' @ show_nat i"

section \<open>Risk tiers\<close>

definition RiskTier_matches :: "RiskTier \<Rightarrow> Request \<Rightarrow> bool" where
  "RiskTier_matches t req =
     (if flt_less (Fin 0) (rt_MinAmount t) \<and> flt_less (req_Amount req) (rt_MinAmount t) then False
      else if rt_Currency t \<noteq> [] \<and> rt_Currency t \<noteq> req_Currency req then False
      else if rt_DataClasses t \<noteq> [] \<and> req_DataClass req \<notin> set (rt_DataClasses t) then False
      else case rt_Irreversible t of
        None \<Rightarrow> True
      | Some b \<Rightarrow> b = req_Irreversible req)"

definition strength :: "Requirement \<Rightarrow> nat" where
  "strength r = (if r = RequireStepUp then 2 else if r = RequireApproval then 1 else 0)"

fun classify_loop :: "Request \<Rightarrow> RiskTier option \<Rightarrow> RiskTier list \<Rightarrow> RiskTier option" where
  "classify_loop req best [] = best"
| "classify_loop req best (t # ts) =
     (if \<not> RiskTier_matches t req then classify_loop req best ts
      else case best of
        None \<Rightarrow> classify_loop req (Some t) ts
      | Some b \<Rightarrow>
          (if strength (rt_Require t) > strength (rt_Require b)
           then classify_loop req (Some t) ts else classify_loop req best ts))"

definition Classify :: "Evaluator \<Rightarrow> Request \<Rightarrow> RiskTier option" where
  "Classify e req =
     (case classify_loop req None (ev_Risk e) of
        None \<Rightarrow> None
      | Some best \<Rightarrow> if strength (rt_Require best) = 0 then None else Some best)"

definition applyRisk :: "Evaluator \<Rightarrow> Request \<Rightarrow> Decision \<Rightarrow> Decision" where
  "applyRisk e req d =
     (case Classify e req of
        None \<Rightarrow> d
      | Some t \<Rightarrow>
          (let reason = ''risk tier '' @ rt_Name t @ '' requires '' @ rt_Require t in
           d\<lparr>d_Allowed := False, d_Effect := Escalate, d_Code := CodeRiskEscalation,
             d_Reason := reason,
             d_Escalation := Some \<lparr>esc_Tier = rt_Name t, esc_Requirement = rt_Require t,
                                   esc_Reason = reason\<rparr>\<rparr>))"

section \<open>The scan\<close>

text \<open>The decisions the scan of a matching statement builds, by its effect.\<close>

definition named_decision :: "Policy \<Rightarrow> nat \<Rightarrow> Statement \<Rightarrow> Decision" where
  "named_decision p i s =
     zero_Decision\<lparr>d_Effect := st_Effect s, d_PolicyID := pol_ID p,
       d_StatementID := (if st_ID s = [] then statementIndexID i else st_ID s)\<rparr>"

definition deny_decision :: "Policy \<Rightarrow> nat \<Rightarrow> Statement \<Rightarrow> Decision" where
  "deny_decision p i s =
     (named_decision p i s)\<lparr>d_Reason := ''explicit deny'', d_Code := CodeNoPermission\<rparr>"

definition escalate_decision :: "Policy \<Rightarrow> nat \<Rightarrow> Statement \<Rightarrow> Decision" where
  "escalate_decision p i s =
     (named_decision p i s)\<lparr>d_Reason := ''escalation required by statement'',
       d_Code := CodeApprovalRequired,
       d_Escalation := Some \<lparr>esc_Tier = st_Tier s,
         esc_Requirement = (if st_Require s = [] then RequireApproval else st_Require s),
         esc_Reason = ''escalation required by statement''\<rparr>\<rparr>"

definition allow_decision :: "Policy \<Rightarrow> nat \<Rightarrow> Statement \<Rightarrow> Decision" where
  "allow_decision p i s =
     (named_decision p i s)\<lparr>d_Allowed := True, d_Reason := ''allowed by statement'',
       d_Code := CodeAllowed\<rparr>"

text \<open>
  The two nested loops of \<open>evaluate\<close>. \<open>Inl\<close> is the early return of an explicit deny; \<open>Inr\<close> holds
  the first allow and the first escalation found so far.
\<close>

fun scan_statements ::
  "('a, 'p) golib \<Rightarrow> Request \<Rightarrow> Policy \<Rightarrow> nat \<Rightarrow> Statement list
     \<Rightarrow> Decision option \<Rightarrow> Decision option \<Rightarrow> Decision + (Decision option \<times> Decision option)" where
  "scan_statements lib req p i [] allow esc = Inr (allow, esc)"
| "scan_statements lib req p i (s # ss) allow esc =
     (if \<not> Statement_matches lib req s then scan_statements lib req p (Suc i) ss allow esc
      else if st_Effect s = Deny then Inl (deny_decision p i s)
      else if st_Effect s = Escalate then
        scan_statements lib req p (Suc i) ss allow
          (case esc of None \<Rightarrow> Some (escalate_decision p i s) | Some d \<Rightarrow> Some d)
      else
        scan_statements lib req p (Suc i) ss
          (case allow of None \<Rightarrow> Some (allow_decision p i s) | Some d \<Rightarrow> Some d) esc)"

fun scan_policies ::
  "('a, 'p) golib \<Rightarrow> Request \<Rightarrow> Policy option list
     \<Rightarrow> Decision option \<Rightarrow> Decision option \<Rightarrow> Decision + (Decision option \<times> Decision option)" where
  "scan_policies lib req [] allow esc = Inr (allow, esc)"
| "scan_policies lib req (None # ps) allow esc = scan_policies lib req ps allow esc"
| "scan_policies lib req (Some p # ps) allow esc =
     (case scan_statements lib req p 0 (pol_Statements p) allow esc of
        Inl d \<Rightarrow> Inl d
      | Inr (allow', esc') \<Rightarrow> scan_policies lib req ps allow' esc')"

text \<open>\<open>defaultDenyCode\<close>: the first failing address or time condition of a covering allow.\<close>

fun failed_condition_code :: "('a, 'p) golib \<Rightarrow> Request \<Rightarrow> Condition list \<Rightarrow> DecisionCode option" where
  "failed_condition_code lib req [] = None"
| "failed_condition_code lib req (c # cs) =
     (if Condition_holds lib req c then failed_condition_code lib req cs
      else if cond_Op c = OpIPCIDR \<or> cond_Op c = OpNotIPCIDR then Some CodeIPNotAllowed
      else if cond_Op c = OpTimeWindow \<or> cond_Op c = OpDailyWindow then Some CodeTimeRestricted
      else failed_condition_code lib req cs)"

fun deny_code_statements ::
  "('a, 'p) golib \<Rightarrow> Request \<Rightarrow> Statement list \<Rightarrow> DecisionCode option" where
  "deny_code_statements lib req [] = None"
| "deny_code_statements lib req (s # ss) =
     (if st_Effect s \<noteq> Allow \<or> \<not> matchesTarget s req then deny_code_statements lib req ss
      else case failed_condition_code lib req (st_Conditions s) of
        Some code \<Rightarrow> Some code
      | None \<Rightarrow> deny_code_statements lib req ss)"

fun defaultDenyCode :: "('a, 'p) golib \<Rightarrow> Request \<Rightarrow> Policy option list \<Rightarrow> DecisionCode" where
  "defaultDenyCode lib req [] = CodeNoPermission"
| "defaultDenyCode lib req (None # ps) = defaultDenyCode lib req ps"
| "defaultDenyCode lib req (Some p # ps) =
     (case deny_code_statements lib req (pol_Statements p) of
        Some code \<Rightarrow> code
      | None \<Rightarrow> defaultDenyCode lib req ps)"

definition evaluate ::
  "('a, 'p) golib \<Rightarrow> Evaluator \<Rightarrow> Request \<Rightarrow> Policy option list \<Rightarrow> Decision" where
  "evaluate lib e req policies =
     (case scan_policies lib req policies None None of
        Inl d \<Rightarrow> d
      | Inr (allow, esc) \<Rightarrow>
          (case esc of
             Some d \<Rightarrow> d
           | None \<Rightarrow>
               (case allow of
                  Some d \<Rightarrow> applyRisk e req d
                | None \<Rightarrow>
                    zero_Decision\<lparr>d_Reason := ''no matching allow statement (default deny)'',
                      d_Code := defaultDenyCode lib req policies\<rparr>)))"

text \<open>
  \<open>prepare\<close> fills a missing instant from the evaluator's clock, else from the system clock \<open>sys\<close>;
  \<open>k\<close> numbers the reading.
\<close>

definition prepare :: "Evaluator \<Rightarrow> (nat \<Rightarrow> time) \<Rightarrow> nat \<Rightarrow> Request \<Rightarrow> Request" where
  "prepare e sys k req =
     (if IsZero (req_Now req)
      then req\<lparr>req_Now := (case ev_Now e of Some clock \<Rightarrow> clock k | None \<Rightarrow> sys k)\<rparr>
      else req)"

section \<open>What the scan computes\<close>

text \<open>The statements of the policies that match the request, whatever their order.\<close>

definition matching :: "('a, 'p) golib \<Rightarrow> Request \<Rightarrow> Policy option list \<Rightarrow> Statement set" where
  "matching lib req policies =
     {s. \<exists>p. Some p \<in> set policies \<and> s \<in> set (pol_Statements p) \<and> Statement_matches lib req s}"

definition any_effect :: "('a, 'p) golib \<Rightarrow> Request \<Rightarrow> Policy option list \<Rightarrow> (Effect \<Rightarrow> bool) \<Rightarrow> bool" where
  "any_effect lib req policies P \<longleftrightarrow> (\<exists>s \<in> matching lib req policies. P (st_Effect s))"

lemma matching_Nil [simp]: "matching lib req [] = {}"
  by (simp add: matching_def)

lemma matching_None [simp]: "matching lib req (None # ps) = matching lib req ps"
  by (auto simp: matching_def)

lemma matching_Some [simp]:
  "matching lib req (Some p # ps)
     = {s \<in> set (pol_Statements p). Statement_matches lib req s} \<union> matching lib req ps"
  by (auto simp: matching_def)

lemma any_effect_simps [simp]:
  "any_effect lib req [] P = False"
  "any_effect lib req (None # ps) P = any_effect lib req ps P"
  "any_effect lib req (Some p # ps) P \<longleftrightarrow>
     (\<exists>s \<in> set (pol_Statements p). Statement_matches lib req s \<and> P (st_Effect s))
     \<or> any_effect lib req ps P"
  by (auto simp: any_effect_def)

text \<open>Shapes of the decisions the scan can return or remember.\<close>

definition is_deny :: "Decision \<Rightarrow> bool" where
  "is_deny d \<longleftrightarrow> \<not> d_Allowed d \<and> d_Effect d = Deny \<and> d_Code d = CodeNoPermission
     \<and> d_Escalation d = None \<and> d_Taint d = None \<and> \<not> d_Boundary d"

definition is_escalate :: "Decision \<Rightarrow> bool" where
  "is_escalate d \<longleftrightarrow> \<not> d_Allowed d \<and> d_Effect d = Escalate \<and> d_Code d = CodeApprovalRequired
     \<and> d_Escalation d \<noteq> None \<and> d_Taint d = None \<and> \<not> d_Boundary d"

definition is_allow :: "Decision \<Rightarrow> bool" where
  "is_allow d \<longleftrightarrow> d_Allowed d \<and> d_Effect d \<noteq> Deny \<and> d_Effect d \<noteq> Escalate \<and> d_Code d = CodeAllowed
     \<and> d_Escalation d = None \<and> d_Taint d = None \<and> \<not> d_Boundary d"

lemmas decision_shapes = is_deny_def is_escalate_def is_allow_def
lemmas decision_builders = deny_decision_def escalate_decision_def allow_decision_def
  named_decision_def zero_Decision_def

lemma scan_statements_spec:
  "case scan_statements lib req p i ss allow esc of
     Inl d \<Rightarrow> is_deny d \<and> (\<exists>s \<in> set ss. Statement_matches lib req s \<and> st_Effect s = Deny)
   | Inr (allow', esc') \<Rightarrow>
       \<not> (\<exists>s \<in> set ss. Statement_matches lib req s \<and> st_Effect s = Deny)
       \<and> (esc' \<noteq> None \<longleftrightarrow> esc \<noteq> None
            \<or> (\<exists>s \<in> set ss. Statement_matches lib req s \<and> st_Effect s = Escalate))
       \<and> (allow' \<noteq> None \<longleftrightarrow> allow \<noteq> None
            \<or> (\<exists>s \<in> set ss. Statement_matches lib req s \<and> st_Effect s \<noteq> Escalate \<and> st_Effect s \<noteq> Deny))
       \<and> (pred_option is_escalate esc \<longrightarrow> pred_option is_escalate esc')
       \<and> (pred_option is_allow allow \<longrightarrow> pred_option is_allow allow')"
proof (induction ss arbitrary: i allow esc)
  case Nil
  then show ?case by simp
next
  case (Cons s ss)
  have built: "is_deny (deny_decision p i s)" if "st_Effect s = Deny"
    using that by (simp add: is_deny_def decision_builders)
  have built': "is_escalate (escalate_decision p i s)" if "st_Effect s = Escalate"
    using that by (simp add: is_escalate_def decision_builders)
  have built'': "is_allow (allow_decision p i s)" if "st_Effect s \<noteq> Escalate" "st_Effect s \<noteq> Deny"
    using that by (simp add: is_allow_def decision_builders)
  consider (no) "\<not> Statement_matches lib req s"
    | (deny) "Statement_matches lib req s" "st_Effect s = Deny"
    | (esc) "Statement_matches lib req s" "st_Effect s = Escalate"
    | (allow) "Statement_matches lib req s" "st_Effect s \<noteq> Deny" "st_Effect s \<noteq> Escalate"
    by blast
  then show ?case
  proof cases
    case no
    then show ?thesis using Cons [where i = "Suc i" and allow = allow and esc = esc]
      by (auto split: sum.splits prod.splits)
  next
    case deny
    then show ?thesis using built by auto
  next
    case esc
    then show ?thesis using built'
        Cons [where i = "Suc i" and allow = allow and
          esc = "case esc of None \<Rightarrow> Some (escalate_decision p i s) | Some d \<Rightarrow> Some d"]
      by (auto split: sum.splits prod.splits option.splits)
  next
    case allow
    then show ?thesis using built''
        Cons [where i = "Suc i" and esc = esc and
          allow = "case allow of None \<Rightarrow> Some (allow_decision p i s) | Some d \<Rightarrow> Some d"]
      by (auto split: sum.splits prod.splits option.splits)
  qed
qed

lemma scan_statements_Inl:
  assumes "scan_statements lib req p i ss allow esc = Inl d"
  shows "is_deny d" and "\<exists>s \<in> set ss. Statement_matches lib req s \<and> st_Effect s = Deny"
  using scan_statements_spec [where lib = lib and req = req and p = p and i = i and ss = ss
      and allow = allow and esc = esc] assms by simp_all

lemma scan_statements_Inr:
  assumes "scan_statements lib req p i ss allow esc = Inr (allow', esc')"
  shows "\<not> (\<exists>s \<in> set ss. Statement_matches lib req s \<and> st_Effect s = Deny)"
    and "esc' \<noteq> None \<longleftrightarrow> esc \<noteq> None
           \<or> (\<exists>s \<in> set ss. Statement_matches lib req s \<and> st_Effect s = Escalate)"
    and "allow' \<noteq> None \<longleftrightarrow> allow \<noteq> None
           \<or> (\<exists>s \<in> set ss. Statement_matches lib req s \<and> st_Effect s \<noteq> Escalate \<and> st_Effect s \<noteq> Deny)"
    and "pred_option is_escalate esc \<Longrightarrow> pred_option is_escalate esc'"
    and "pred_option is_allow allow \<Longrightarrow> pred_option is_allow allow'"
  using scan_statements_spec [where lib = lib and req = req and p = p and i = i and ss = ss
      and allow = allow and esc = esc] assms by simp_all

lemma scan_policies_Inl:
  "scan_policies lib req ps allow esc = Inl d \<Longrightarrow>
     is_deny d \<and> any_effect lib req ps (\<lambda>f. f = Deny)"
proof (induction lib req ps allow esc rule: scan_policies.induct)
  case (3 lib req p ps allow esc)
  show ?case
  proof (cases "scan_statements lib req p 0 (pol_Statements p) allow esc")
    case (Inl d')
    then show ?thesis using 3(2) scan_statements_Inl [OF Inl] by simp
  next
    case (Inr ae)
    obtain a e where ae: "ae = (a, e)" by (cases ae)
    then show ?thesis using 3(2) 3(1) [OF Inr ae [symmetric]] Inr by simp
  qed
qed simp_all

lemma scan_policies_Inr:
  "scan_policies lib req ps allow esc = Inr (allow', esc') \<Longrightarrow>
     pred_option is_escalate esc \<Longrightarrow> pred_option is_allow allow \<Longrightarrow>
     \<not> any_effect lib req ps (\<lambda>f. f = Deny)
     \<and> (esc' \<noteq> None \<longleftrightarrow> esc \<noteq> None \<or> any_effect lib req ps (\<lambda>f. f = Escalate))
     \<and> (allow' \<noteq> None \<longleftrightarrow> allow \<noteq> None \<or> any_effect lib req ps (\<lambda>f. f \<noteq> Escalate \<and> f \<noteq> Deny))
     \<and> pred_option is_escalate esc' \<and> pred_option is_allow allow'"
proof (induction lib req ps allow esc rule: scan_policies.induct)
  case (3 lib req p ps allow esc)
  show ?case
  proof (cases "scan_statements lib req p 0 (pol_Statements p) allow esc")
    case (Inl d')
    then show ?thesis using 3(2) by simp
  next
    case (Inr ae)
    obtain a e where ae: "ae = (a, e)" by (cases ae)
    note st = scan_statements_Inr [OF Inr [unfolded ae]]
    have rest: "scan_policies lib req ps a e = Inr (allow', esc')"
      using 3(2) Inr ae by simp
    note IH = 3(1) [OF Inr ae [symmetric] rest st(4) [OF 3(3)] st(5) [OF 3(4)]]
    show ?thesis using IH st(1-3) by (simp only: any_effect_simps) blast
  qed
qed simp_all

text \<open>The outcome of \<open>evaluate\<close> in terms of the matching statements only.\<close>

lemma evaluate_cases:
  obtains (deny) "any_effect lib req ps (\<lambda>f. f = Deny)" "is_deny (evaluate lib e req ps)"
  | (escalate) "\<not> any_effect lib req ps (\<lambda>f. f = Deny)" "any_effect lib req ps (\<lambda>f. f = Escalate)"
      "is_escalate (evaluate lib e req ps)"
  | (allow) d where "\<not> any_effect lib req ps (\<lambda>f. f = Deny)"
      "\<not> any_effect lib req ps (\<lambda>f. f = Escalate)"
      "any_effect lib req ps (\<lambda>f. f \<noteq> Escalate \<and> f \<noteq> Deny)" "is_allow d"
      "evaluate lib e req ps = applyRisk e req d"
  | (default) "\<not> any_effect lib req ps (\<lambda>f. True)"
      "evaluate lib e req ps
         = zero_Decision\<lparr>d_Reason := ''no matching allow statement (default deny)'',
             d_Code := defaultDenyCode lib req ps\<rparr>"
proof (cases "scan_policies lib req ps None None")
  case (Inl d)
  then show thesis using scan_policies_Inl [OF Inl] deny by (simp add: evaluate_def)
next
  case (Inr ae)
  obtain a x where ae: "ae = (a, x)" by (cases ae)
  have spec: "\<not> any_effect lib req ps (\<lambda>f. f = Deny)"
    "x \<noteq> None \<longleftrightarrow> any_effect lib req ps (\<lambda>f. f = Escalate)"
    "a \<noteq> None \<longleftrightarrow> any_effect lib req ps (\<lambda>f. f \<noteq> Escalate \<and> f \<noteq> Deny)"
    "pred_option is_escalate x" "pred_option is_allow a"
    using scan_policies_Inr [OF Inr [unfolded ae]] by simp_all
  show thesis
  proof (cases x)
    case (Some d)
    then show thesis using spec Inr ae escalate by (simp add: evaluate_def)
  next
    case None
    show thesis
    proof (cases a)
      case (Some d)
      then show thesis using None spec Inr ae allow [of d] by (simp add: evaluate_def)
    next
      case a: None
      have "\<not> any_effect lib req ps (\<lambda>f. True)"
        using None a spec by (auto simp: any_effect_def)
      then show thesis using None a Inr ae default by (simp add: evaluate_def)
    qed
  qed
qed

lemma applyRisk_None: "Classify e req = None \<Longrightarrow> applyRisk e req d = d"
  by (simp add: applyRisk_def)

lemma applyRisk_Some:
  "Classify e req = Some t \<Longrightarrow>
     \<not> d_Allowed (applyRisk e req d) \<and> d_Effect (applyRisk e req d) = Escalate
     \<and> d_Code (applyRisk e req d) = CodeRiskEscalation \<and> d_Escalation (applyRisk e req d) \<noteq> None
     \<and> d_Taint (applyRisk e req d) = d_Taint d \<and> d_Boundary (applyRisk e req d) = d_Boundary d"
  by (simp add: applyRisk_def Let_def)

lemma deny_code_range:
  "defaultDenyCode lib req ps \<in> {CodeNoPermission, CodeIPNotAllowed, CodeTimeRestricted}"
proof -
  have f: "failed_condition_code lib req cs = Some c \<Longrightarrow> c = CodeIPNotAllowed \<or> c = CodeTimeRestricted"
    for cs c by (induction cs) (auto split: if_splits)
  have s: "deny_code_statements lib req ss = Some c \<Longrightarrow> c = CodeIPNotAllowed \<or> c = CodeTimeRestricted"
    for ss c by (induction ss) (auto split: option.splits if_splits dest: f)
  show ?thesis
  proof (induction ps)
    case (Cons p ps)
    then show ?case by (cases p) (auto split: option.splits dest: s)
  qed simp
qed

lemma evaluate_Allowed_iff:
  "d_Allowed (evaluate lib e req ps) \<longleftrightarrow>
     any_effect lib req ps (\<lambda>f. f \<noteq> Escalate \<and> f \<noteq> Deny)
     \<and> \<not> any_effect lib req ps (\<lambda>f. f = Deny) \<and> \<not> any_effect lib req ps (\<lambda>f. f = Escalate)
     \<and> Classify e req = None"
proof (cases rule: evaluate_cases [of lib req ps e])
  case (allow d)
  then show ?thesis by (cases "Classify e req") (auto simp: applyRisk_None applyRisk_Some is_allow_def)
next
  case default
  then show ?thesis by (auto simp: any_effect_def zero_Decision_def)
qed (auto simp: decision_shapes)

end
