(* ===== verification/Taint.thy ===== *)
theory Taint
  imports PolicyEval
begin

text \<open>
  Taint rules, \<open>src/policy/taint.go\<close>: label patterns, normalised provenance, the checks of one
  rule, the verdict over all rules and its effect on a decision.
\<close>

section \<open>Labels and provenance\<close>

definition CallLabelsKey :: string where "CallLabelsKey = ''*''"
definition UnlabeledViolate :: string where "UnlabeledViolate = ''violate''"
definition TaintClean :: string where "TaintClean = ''clean''"
definition TaintEscalate :: string where "TaintEscalate = ''escalate''"
definition TaintDeny :: string where "TaintDeny = ''deny''"

lemmas verdict_defs = TaintClean_def TaintEscalate_def TaintDeny_def

definition MatchLabel :: "string \<Rightarrow> string \<Rightarrow> bool" where
  "MatchLabel pattern label =
     (if pattern = ''*'' then True
      else case CutSuffix pattern ''*'' of
        Some p \<Rightarrow> HasPrefix label p
      | None \<Rightarrow> pattern = label)"

definition clean_labels :: "string list \<Rightarrow> string list" where
  "clean_labels labels = sort (add_new [] (filter (\<lambda>l. l \<noteq> []) labels))"

text \<open>The nil map of the source is the empty map: \<open>out\<close> is allocated with its first entry.\<close>

definition NormalizeProvenance ::
  "(string, string list) gomap \<Rightarrow> (string, string list) gomap" where
  "NormalizeProvenance raw =
     filter (\<lambda>(arg, clean). clean \<noteq> []) (map (\<lambda>(arg, labels). (arg, clean_labels labels)) raw)"

section \<open>The checks of one rule\<close>

definition TaintRule_effect :: "TaintRule \<Rightarrow> Effect" where
  "TaintRule_effect r = (if tr_Effect r = Deny then Deny else Escalate)"

definition TaintRule_id :: "TaintRule \<Rightarrow> nat \<Rightarrow> string" where
  "TaintRule_id r i = (if tr_ID r \<noteq> [] then tr_ID r else show_nat i)"

definition forbid_matches ::
  "TaintRule \<Rightarrow> string \<Rightarrow> string \<Rightarrow> string list \<Rightarrow> ArgRule \<Rightarrow> TaintMatch list" where
  "forbid_matches r rid arg labels spec =
     (let bad = filter (\<lambda>l. list_ex (\<lambda>p. MatchLabel p l) (ar_Forbid spec)) labels in
      if ar_Forbid spec \<noteq> [] \<and> bad \<noteq> []
      then [\<lparr>tm_Rule = rid, tm_Kind = ''forbid'', tm_Arg = arg, tm_Labels = bad,
             tm_Effect = TaintRule_effect r\<rparr>]
      else [])"

definition require_matches ::
  "TaintRule \<Rightarrow> string \<Rightarrow> string \<Rightarrow> string list \<Rightarrow> ArgRule \<Rightarrow> TaintMatch list" where
  "require_matches r rid arg labels spec =
     (if ar_Require spec = [] then []
      else if labels = [] \<and> tr_Unlabeled r \<noteq> UnlabeledViolate then []
      else
        (let missing = filter (\<lambda>p. \<not> list_ex (MatchLabel p) labels) (ar_Require spec) in
         if missing \<noteq> []
         then [\<lparr>tm_Rule = rid, tm_Kind = ''require'', tm_Arg = arg, tm_Labels = missing,
                tm_Effect = TaintRule_effect r\<rparr>]
         else []))"

definition checkLabels ::
  "TaintRule \<Rightarrow> string \<Rightarrow> string \<Rightarrow> string list \<Rightarrow> ArgRule \<Rightarrow> TaintMatch list \<Rightarrow> TaintMatch list" where
  "checkLabels r rid arg labels spec out =
     out @ forbid_matches r rid arg labels spec @ require_matches r rid arg labels spec"

text \<open>The labels of one argument: its own, then the call's, without repetition, sorted.\<close>

definition arg_labels :: "(string, string list) gomap \<Rightarrow> string \<Rightarrow> string list" where
  "arg_labels prov n =
     sort (add_new (case gm_get prov n of Some ls \<Rightarrow> ls | None \<Rightarrow> [])
                   (case gm_get prov CallLabelsKey of Some ls \<Rightarrow> ls | None \<Rightarrow> []))"

text \<open>The union of all labels on the call.\<close>

definition all_labels :: "(string, string list) gomap \<Rightarrow> string list" where
  "all_labels prov = sort (add_new [] (concat (map snd prov)))"

fun check_args ::
  "TaintRule \<Rightarrow> string \<Rightarrow> (string, string list) gomap \<Rightarrow> string list
     \<Rightarrow> TaintMatch list \<Rightarrow> TaintMatch list" where
  "check_args r rid prov [] out = out"
| "check_args r rid prov (n # ns) out =
     check_args r rid prov ns
       (checkLabels r rid n (arg_labels prov n)
          (case gm_get (tr_Args r) n of Some a \<Rightarrow> a | None \<Rightarrow> \<lparr>ar_Forbid = [], ar_Require = []\<rparr>) out)"

definition rule_applies :: "TaintRule \<Rightarrow> Request \<Rightarrow> (string, string list) gomap \<Rightarrow> bool" where
  "rule_applies r req prov \<longleftrightarrow>
     Match (tr_Resource r) (req_Resource req)
     \<and> (tr_Actions r = [] \<or> list_ex (\<lambda>p. Match p (req_Action req)) (tr_Actions r))
     \<and> (prov \<noteq> [] \<or> tr_Unlabeled r = UnlabeledViolate)"

fun taint_loop ::
  "Request \<Rightarrow> (string, string list) gomap \<Rightarrow> nat \<Rightarrow> TaintRule list \<Rightarrow> TaintMatch list
     \<Rightarrow> TaintMatch list" where
  "taint_loop req prov i [] out = out"
| "taint_loop req prov i (r # rs) out =
     (if \<not> rule_applies r req prov then taint_loop req prov (Suc i) rs out
      else
        (let rid = TaintRule_id r i;
             out' = checkLabels r rid CallLabelsKey (all_labels prov)
               \<lparr>ar_Forbid = tr_Forbid r, ar_Require = tr_Require r\<rparr> out
         in taint_loop req prov (Suc i) rs
              (check_args r rid prov (sort (gm_keys (tr_Args r))) out')))"

definition EvaluateTaint :: "Evaluator \<Rightarrow> Request \<Rightarrow> TaintVerdict option" where
  "EvaluateTaint e req =
     (let prov = NormalizeProvenance (req_Provenance req);
          ms = taint_loop req prov 0 (ev_Taint e) []
      in
      if prov = [] \<and> ms = [] then None
      else Some \<lparr>tv_Verdict =
                   (if ms = [] then TaintClean
                    else if list_ex (\<lambda>m. tm_Effect m = Deny) ms then TaintDeny
                    else TaintEscalate),
                 tv_Matches = ms, tv_Labels = prov\<rparr>)"

section \<open>Applying the verdict\<close>

fun tier_of_rule :: "TaintRule list \<Rightarrow> nat \<Rightarrow> string \<Rightarrow> string option" where
  "tier_of_rule [] i rid = None"
| "tier_of_rule (r # rs) i rid =
     (if TaintRule_id r i = rid \<and> tr_Tier r \<noteq> [] then Some (tr_Tier r)
      else tier_of_rule rs (Suc i) rid)"

definition taintTier :: "Evaluator \<Rightarrow> TaintVerdict \<Rightarrow> string" where
  "taintTier e v =
     (case find (\<lambda>m. tm_Effect m = tv_Verdict v) (tv_Matches v) of
        None \<Rightarrow> ''taint''
      | Some m \<Rightarrow>
          (case tier_of_rule (ev_Taint e) 0 (tm_Rule m) of Some t \<Rightarrow> t | None \<Rightarrow> ''taint''))"

definition describeTaint :: "TaintVerdict \<Rightarrow> string" where
  "describeTaint v =
     ''taint: '' @ Join
       (map (\<lambda>m. (if tm_Kind m = ''require'' then ''missing'' else ''forbidden'') @ '' ''
               @ Join (tm_Labels m) '','' @ '' on '' @ tm_Arg m) (tv_Matches v)) ''; ''"

definition applyTaint :: "Evaluator \<Rightarrow> Request \<Rightarrow> Decision \<Rightarrow> Decision" where
  "applyTaint e req d =
     (if ev_Taint e = [] \<or> (\<not> d_Allowed d \<and> d_Effect d \<noteq> Escalate) then d
      else case EvaluateTaint e req of
        None \<Rightarrow> d
      | Some v \<Rightarrow>
          (let d = d\<lparr>d_Taint := Some v\<rparr> in
           if tv_Verdict v = TaintClean then d
           else if tv_Verdict v = TaintDeny then
             d\<lparr>d_Allowed := False, d_Effect := Deny, d_Escalation := None,
               d_Code := CodeTaintViolation,
               d_Reason := ''taint violation: '' @ describeTaint v\<rparr>
           else if d_Effect d = Escalate then d
           else
             d\<lparr>d_Allowed := False, d_Effect := Escalate, d_Code := CodeTaintViolation,
               d_Reason := describeTaint v,
               d_Escalation := Some \<lparr>esc_Tier = taintTier e v, esc_Requirement = RequireApproval,
                                     esc_Reason = describeTaint v\<rparr>\<rparr>))"

section \<open>What the verdict means\<close>

text \<open>An argument, or the whole call, violates a rule specification.\<close>

definition forbidden_flow :: "ArgRule \<Rightarrow> string list \<Rightarrow> bool" where
  "forbidden_flow spec labels \<longleftrightarrow>
     (\<exists>l \<in> set labels. \<exists>p \<in> set (ar_Forbid spec). MatchLabel p l)"

definition missing_label :: "TaintRule \<Rightarrow> ArgRule \<Rightarrow> string list \<Rightarrow> bool" where
  "missing_label r spec labels \<longleftrightarrow>
     (labels \<noteq> [] \<or> tr_Unlabeled r = UnlabeledViolate)
     \<and> (\<exists>p \<in> set (ar_Require spec). \<forall>l \<in> set labels. \<not> MatchLabel p l)"

definition rule_violated :: "TaintRule \<Rightarrow> (string, string list) gomap \<Rightarrow> bool" where
  "rule_violated r prov \<longleftrightarrow>
     (let call = \<lparr>ar_Forbid = tr_Forbid r, ar_Require = tr_Require r\<rparr> in
      forbidden_flow call (all_labels prov) \<or> missing_label r call (all_labels prov)
      \<or> (\<exists>(n, a) \<in> set (tr_Args r).
            forbidden_flow a (arg_labels prov n) \<or> missing_label r a (arg_labels prov n)))"

lemma clean_labels_props [simp]:
  "sorted (clean_labels ls)" "distinct (clean_labels ls)" "set (clean_labels ls) = set ls - {[]}"
  by (auto simp: clean_labels_def)

lemma forbid_matches_nil: "forbid_matches r rid arg labels spec = [] \<longleftrightarrow> \<not> forbidden_flow spec labels"
  by (auto simp: forbid_matches_def forbidden_flow_def Let_def list_ex_iff filter_empty_conv)

lemma require_matches_nil:
  "require_matches r rid arg labels spec = [] \<longleftrightarrow> \<not> missing_label r spec labels"
  by (auto simp: require_matches_def missing_label_def Let_def list_ex_iff filter_empty_conv)

lemma checkLabels_effects:
  "m \<in> set (checkLabels r rid arg labels spec out) \<Longrightarrow>
     m \<in> set out \<or> tm_Effect m = TaintRule_effect r"
  by (auto simp: checkLabels_def forbid_matches_def require_matches_def Let_def split: if_splits)

lemma checkLabels_nil:
  "checkLabels r rid arg labels spec out = [] \<longleftrightarrow>
     out = [] \<and> \<not> forbidden_flow spec labels \<and> \<not> missing_label r spec labels"
  by (simp add: checkLabels_def forbid_matches_nil require_matches_nil)

lemma checkLabels_mono: "set out \<subseteq> set (checkLabels r rid arg labels spec out)"
  by (auto simp: checkLabels_def)

lemma check_args_mono: "set out \<subseteq> set (check_args r rid prov ns out)"
proof (induction ns arbitrary: out)
  case (Cons n ns)
  then show ?case using checkLabels_mono by (simp del: subset_code) (meson dual_order.trans)
qed simp

lemma check_args_effects:
  "m \<in> set (check_args r rid prov ns out) \<Longrightarrow> m \<in> set out \<or> tm_Effect m = TaintRule_effect r"
proof (induction ns arbitrary: out)
  case (Cons n ns)
  then show ?case using checkLabels_effects by fastforce
qed simp

lemma check_args_nil:
  "gm_ok (tr_Args r) \<Longrightarrow> set ns \<subseteq> set (gm_keys (tr_Args r)) \<Longrightarrow>
   check_args r rid prov ns out = [] \<longleftrightarrow>
     out = [] \<and> (\<forall>(n, a) \<in> set (tr_Args r). n \<in> set ns \<longrightarrow>
        \<not> forbidden_flow a (arg_labels prov n) \<and> \<not> missing_label r a (arg_labels prov n))"
proof (induction ns arbitrary: out)
  case (Cons n ns)
  then obtain a where a: "gm_get (tr_Args r) n = Some a"
    by (metis gm_get_None_iff insert_subset list.set(2) not_Some_eq)
  then have uniq: "(n, b) \<in> set (tr_Args r) \<longleftrightarrow> b = a" for b
    using Cons.prems(1) by (metis gm_get_Some_iff option.inject)
  show ?case using Cons a uniq by (auto simp: checkLabels_nil)
qed auto

text \<open>The matches one rule contributes: none exactly when it is satisfied, all with its effect.\<close>

lemma taint_loop_mono: "set out \<subseteq> set (taint_loop req prov i rs out)"
proof (induction rs arbitrary: i out)
  case (Cons r rs)
  have "set out \<subseteq> set (check_args r rid prov ns (checkLabels r rid k ls spec out))"
    for rid ns k ls spec
    using check_args_mono checkLabels_mono by (metis dual_order.trans)
  then show ?case using Cons by (simp add: Let_def) (meson dual_order.trans)
qed simp

definition rules_ok :: "TaintRule list \<Rightarrow> bool" where
  "rules_ok rs \<longleftrightarrow> (\<forall>r \<in> set rs. gm_ok (tr_Args r))"

lemma check_args_all_nil:
  assumes "gm_ok (tr_Args r)"
  shows "check_args r rid prov (sort (gm_keys (tr_Args r))) out = [] \<longleftrightarrow>
     out = [] \<and> (\<forall>(n, a) \<in> set (tr_Args r).
        \<not> forbidden_flow a (arg_labels prov n) \<and> \<not> missing_label r a (arg_labels prov n))"
proof -
  have "(\<forall>(n, a) \<in> set (tr_Args r). n \<in> set (sort (gm_keys (tr_Args r))) \<longrightarrow> Q n a)
      \<longleftrightarrow> (\<forall>(n, a) \<in> set (tr_Args r). Q n a)" for Q
    by force
  then show ?thesis by (simp only: check_args_nil [OF assms] set_sort subset_refl)
qed

lemma rule_step_nil:
  assumes "gm_ok (tr_Args r)"
  shows "check_args r rid prov (sort (gm_keys (tr_Args r)))
           (checkLabels r rid CallLabelsKey (all_labels prov)
              \<lparr>ar_Forbid = tr_Forbid r, ar_Require = tr_Require r\<rparr> out) = []
         \<longleftrightarrow> out = [] \<and> \<not> rule_violated r prov"
  unfolding check_args_all_nil [OF assms] by (auto simp: checkLabels_nil rule_violated_def Let_def)

lemma taint_loop_nil:
  "rules_ok rs \<Longrightarrow> taint_loop req prov i rs out = [] \<longleftrightarrow>
     out = [] \<and> (\<forall>r \<in> set rs. rule_applies r req prov \<longrightarrow> \<not> rule_violated r prov)"
proof (induction rs arbitrary: i out)
  case (Cons r rs)
  then have ok: "gm_ok (tr_Args r)" "rules_ok rs" by (auto simp: rules_ok_def)
  show ?case using Cons.IH [OF ok(2)] rule_step_nil [OF ok(1)] by (auto simp: Let_def)
qed simp

lemma taint_loop_effects:
  "m \<in> set (taint_loop req prov i rs out) \<Longrightarrow> m \<in> set out \<or>
     (\<exists>r \<in> set rs. rule_applies r req prov \<and> tm_Effect m = TaintRule_effect r)"
proof (induction rs arbitrary: i out)
  case (Cons r rs)
  show ?case
  proof (cases "rule_applies r req prov")
    case True
    then show ?thesis using Cons checkLabels_effects check_args_effects
      by (fastforce simp: Let_def)
  next
    case False
    then show ?thesis using Cons by auto
  qed
qed simp

lemma taint_loop_deny:
  assumes "rules_ok rs"
  shows "(\<exists>m \<in> set (taint_loop req prov i rs out). tm_Effect m = Deny) \<longleftrightarrow>
     (\<exists>m \<in> set out. tm_Effect m = Deny) \<or>
     (\<exists>r \<in> set rs. rule_applies r req prov \<and> rule_violated r prov \<and> tr_Effect r = Deny)"
  using assms
proof (induction rs arbitrary: i out)
  case (Cons r rs)
  then have ok: "gm_ok (tr_Args r)" "rules_ok rs" by (auto simp: rules_ok_def)
  let ?out = "\<lambda>out. check_args r (TaintRule_id r i) prov (sort (gm_keys (tr_Args r)))
           (checkLabels r (TaintRule_id r i) CallLabelsKey (all_labels prov)
              \<lparr>ar_Forbid = tr_Forbid r, ar_Require = tr_Require r\<rparr> out)"
  have app: "checkLabels r x y z w out = out @ checkLabels r x y z w []" for x y z w out
    by (simp add: checkLabels_def)
  have apps: "check_args r x y ns (out @ out') = out @ check_args r x y ns out'" for x y ns out out'
    by (induction ns arbitrary: out') (auto simp: checkLabels_def)
  have split: "?out out = out @ ?out []" by (subst app) (rule apps)
  have "(\<exists>m \<in> set (?out []). tm_Effect m = Deny) \<longleftrightarrow> rule_violated r prov \<and> tr_Effect r = Deny"
  proof -
    have all: "tm_Effect m = TaintRule_effect r" if "m \<in> set (?out [])" for m
      using check_args_effects [OF that] checkLabels_effects by fastforce
    have ne: "?out [] \<noteq> [] \<longleftrightarrow> rule_violated r prov" using rule_step_nil [OF ok(1)] by auto
    show ?thesis using all ne by (cases "?out []") (auto simp: TaintRule_effect_def)
  qed
  then have "(\<exists>m \<in> set (?out out). tm_Effect m = Deny) \<longleftrightarrow>
      (\<exists>m \<in> set out. tm_Effect m = Deny) \<or> (rule_violated r prov \<and> tr_Effect r = Deny)"
    unfolding split by auto
  then show ?case using Cons.IH [OF ok(2)] by (auto simp: Let_def)
qed simp

end
