(* ===== verification/PolicyEngine.thy ===== *)
theory PolicyEngine
  imports Taint
begin

text \<open>
  The entry points of the policy engine, \<open>Evaluate\<close> and \<open>EvaluateWithBoundary\<close> of
  \<open>src/policy/eval.go\<close>, and the properties of the whole engine: explicit deny wins, default deny,
  risk tiers and taint rules only narrow, a permission boundary only narrows, the outcome does not
  depend on the order of policies and statements, and every decision is consistent.
\<close>

definition Evaluate ::
  "('a, 'p) golib \<Rightarrow> Evaluator \<Rightarrow> (nat \<Rightarrow> time) \<Rightarrow> nat \<Rightarrow> Request \<Rightarrow> Policy option list \<Rightarrow> Decision" where
  "Evaluate lib e sys k req policies =
     (let req = prepare e sys k req in applyTaint e req (evaluate lib e req policies))"

definition EvaluateWithBoundary ::
  "('a, 'p) golib \<Rightarrow> Evaluator \<Rightarrow> (nat \<Rightarrow> time) \<Rightarrow> nat \<Rightarrow> Request
     \<Rightarrow> Policy option list \<Rightarrow> Policy option list \<Rightarrow> Decision" where
  "EvaluateWithBoundary lib e sys k req ident boundary =
     (let d = Evaluate lib e sys k req ident in
      if \<not> d_Allowed d \<or> boundary = [] then d
      else
        (let b = evaluate lib e (prepare e sys (Suc k) req) boundary in
         if \<not> d_Allowed b
         then b\<lparr>d_Boundary := True, d_Reason := ''permission boundary: '' @ d_Reason b\<rparr>
         else d))"

section \<open>Outcomes\<close>

text \<open>What a caller branches on: allowed, denied, escalated.\<close>

definition outcome :: "Decision \<Rightarrow> bool \<times> bool \<times> bool" where
  "outcome d = (d_Allowed d, d_Effect d = Deny, d_Effect d = Escalate)"

lemma outcome_evaluate:
  "outcome (evaluate lib e req ps) =
     (if any_effect lib req ps (\<lambda>f. f = Deny) then (False, True, False)
      else if any_effect lib req ps (\<lambda>f. f = Escalate) then (False, False, True)
      else if any_effect lib req ps (\<lambda>f. True)
      then (if Classify e req = None then (True, False, False) else (False, False, True))
      else (False, False, False))"
proof (cases rule: evaluate_cases [of lib req ps e])
  case (allow d)
  then have "any_effect lib req ps (\<lambda>f. True)" by (auto simp: any_effect_def)
  with allow show ?thesis
    by (cases "Classify e req") (auto simp: outcome_def applyRisk_None applyRisk_Some is_allow_def)
next
  case default
  then show ?thesis by (auto simp: any_effect_def outcome_def zero_Decision_def)
qed (auto simp: decision_shapes outcome_def)

text \<open>The effect of the taint rules on an outcome, in terms of the violated rules.\<close>

definition taint_violated :: "Evaluator \<Rightarrow> Request \<Rightarrow> bool" where
  "taint_violated e req \<longleftrightarrow>
     (let prov = NormalizeProvenance (req_Provenance req) in
      \<exists>r \<in> set (ev_Taint e). rule_applies r req prov \<and> rule_violated r prov)"

definition taint_denied :: "Evaluator \<Rightarrow> Request \<Rightarrow> bool" where
  "taint_denied e req \<longleftrightarrow>
     (let prov = NormalizeProvenance (req_Provenance req) in
      \<exists>r \<in> set (ev_Taint e). rule_applies r req prov \<and> rule_violated r prov \<and> tr_Effect r = Deny)"

lemma EvaluateTaint_verdict:
  assumes "rules_ok (ev_Taint e)"
  shows "EvaluateTaint e req = None \<Longrightarrow> \<not> taint_violated e req"
    and "EvaluateTaint e req = Some v \<Longrightarrow>
      tv_Verdict v = (if \<not> taint_violated e req then TaintClean
                      else if taint_denied e req then TaintDeny else TaintEscalate)"
proof -
  let ?prov = "NormalizeProvenance (req_Provenance req)"
  let ?ms = "taint_loop req ?prov 0 (ev_Taint e) []"
  have nil: "?ms = [] \<longleftrightarrow> \<not> taint_violated e req"
    using taint_loop_nil [OF assms] by (auto simp: taint_violated_def Let_def)
  have deny: "list_ex (\<lambda>m. tm_Effect m = Deny) ?ms \<longleftrightarrow> taint_denied e req"
    using taint_loop_deny [OF assms, of req ?prov 0 "[]"]
    by (auto simp: taint_denied_def Let_def list_ex_iff)
  show "EvaluateTaint e req = None \<Longrightarrow> \<not> taint_violated e req"
    using nil by (auto simp: EvaluateTaint_def Let_def split: if_splits)
  show "EvaluateTaint e req = Some v \<Longrightarrow>
      tv_Verdict v = (if \<not> taint_violated e req then TaintClean
                      else if taint_denied e req then TaintDeny else TaintEscalate)"
    using nil deny by (auto simp: EvaluateTaint_def Let_def split: if_splits)
qed

lemma outcome_applyTaint:
  assumes "rules_ok (ev_Taint e)"
  shows "outcome (applyTaint e req d) =
     (case outcome d of (a, b, c) \<Rightarrow>
       if (\<not> a \<and> \<not> c) \<or> \<not> taint_violated e req then (a, b, c)
       else if taint_denied e req then (False, True, False)
       else if c then (a, b, c)
       else (False, False, True))"
proof -
  have none: "ev_Taint e = [] \<Longrightarrow> \<not> taint_violated e req" by (simp add: taint_violated_def)
  show ?thesis
  proof (cases "EvaluateTaint e req")
    case None
    then show ?thesis using EvaluateTaint_verdict(1) [OF assms None]
      by (simp add: applyTaint_def outcome_def)
  next
    case (Some v)
    then show ?thesis using none EvaluateTaint_verdict(2) [OF assms Some]
      by (auto simp: applyTaint_def outcome_def Let_def verdict_defs)
  qed
qed

text \<open>The outcome of \<open>Evaluate\<close> as a function of the matching statements and the violated rules.\<close>

lemma outcome_Evaluate:
  assumes "rules_ok (ev_Taint e)"
  shows "outcome (Evaluate lib e sys k req ps) =
    (let r = prepare e sys k req in
     if any_effect lib r ps (\<lambda>f. f = Deny) then (False, True, False)
     else if \<not> any_effect lib r ps (\<lambda>f. True) then (False, False, False)
     else if taint_denied e r then (False, True, False)
     else if any_effect lib r ps (\<lambda>f. f = Escalate) \<or> Classify e r \<noteq> None \<or> taint_violated e r
     then (False, False, True)
     else (True, False, False))"
proof -
  let ?r = "prepare e sys k req"
  have den: "taint_denied e ?r \<Longrightarrow> taint_violated e ?r"
    by (auto simp: taint_denied_def taint_violated_def Let_def)
  have esc: "any_effect lib ?r ps (\<lambda>f. f = Escalate) \<Longrightarrow> any_effect lib ?r ps (\<lambda>f. True)"
    by (auto simp: any_effect_def)
  show ?thesis using den esc
    by (auto simp: Evaluate_def Let_def outcome_applyTaint [OF assms] outcome_evaluate)
qed

section \<open>A small policy for the witnesses\<close>

definition sample_lib :: "(unit, unit) golib" where
  "sample_lib = \<lparr>ParsePrefix = (\<lambda>_. None), ParseAddr = (\<lambda>_. None), Unmap = (\<lambda>x. x),
     Contains = (\<lambda>_ _. False), ParseRFC3339 = (\<lambda>_. None), Parse1504 = (\<lambda>_. None),
     TrimSpace = (\<lambda>x. x)\<rparr>"

definition sample_req :: Request where
  "sample_req = \<lparr>req_Action = ''read'', req_Resource = ''doc:1'', req_Attributes = [],
     req_IP = [], req_Now = 1, req_Amount = Fin 0, req_Currency = [], req_DataClass = [],
     req_Irreversible = False, req_Provenance = [(''body'', [''web''])]\<rparr>"

definition sample_stmt :: "Effect \<Rightarrow> string \<Rightarrow> Statement" where
  "sample_stmt eff pat = \<lparr>st_ID = [], st_Effect = eff, st_Actions = [''*''], st_Resources = [pat],
     st_Conditions = [], st_Tier = [], st_Require = []\<rparr>"

definition sample_policy :: "Statement list \<Rightarrow> Policy" where
  "sample_policy ss = \<lparr>pol_Version = ''1'', pol_ID = ''p'', pol_Statements = ss\<rparr>"

definition sample_tier :: "string \<Rightarrow> Requirement \<Rightarrow> RiskTier" where
  "sample_tier n r = \<lparr>rt_Name = n, rt_MinAmount = Fin 0, rt_Currency = [], rt_DataClasses = [],
     rt_Irreversible = None, rt_Require = r\<rparr>"

definition sample_rule :: TaintRule where
  "sample_rule = \<lparr>tr_ID = [], tr_Resource = ''*'', tr_Actions = [], tr_Forbid = [''secret*''],
     tr_Require = [], tr_Args = [], tr_Effect = Deny, tr_Tier = [], tr_Unlabeled = []\<rparr>"

definition sample_ev :: Evaluator where
  "sample_ev = \<lparr>ev_Now = None, ev_Risk = [], ev_Taint = [sample_rule]\<rparr>"

section \<open>Properties\<close>

text \<open>C17: explicit deny wins. When any statement with effect deny, in any of the policies and at any
  position, matches the request, the decision is an explicit deny with the code \<open>no_permission\<close>,
  whatever other statements, risk tiers and taint rules say.\<close>

theorem deny_wins:
  assumes "Some p \<in> set ps" "s \<in> set (pol_Statements p)" "st_Effect s = Deny"
    and "Statement_matches lib (prepare e sys k req) s"
  shows "\<not> d_Allowed (Evaluate lib e sys k req ps) \<and> d_Effect (Evaluate lib e sys k req ps) = Deny
     \<and> d_Code (Evaluate lib e sys k req ps) = CodeNoPermission"
proof -
  have "any_effect lib (prepare e sys k req) ps (\<lambda>f. f = Deny)"
    using assms by (auto simp: any_effect_def matching_def)
  then have "is_deny (evaluate lib e (prepare e sys k req) ps)"
    by (cases rule: evaluate_cases [of lib "prepare e sys k req" ps e]) (auto simp: any_effect_def)
  then show ?thesis by (simp add: Evaluate_def Let_def applyTaint_def is_deny_def)
qed

theorem deny_wins_witness:
  "Some (sample_policy [sample_stmt Allow ''*'', sample_stmt Deny ''doc:*''])
     \<in> set [Some (sample_policy [sample_stmt Allow ''*'', sample_stmt Deny ''doc:*''])]
   \<and> d_Effect (Evaluate sample_lib sample_ev (\<lambda>_. 0) 0 sample_req
        [Some (sample_policy [sample_stmt Allow ''*'', sample_stmt Deny ''doc:*''])]) = Deny"
proof -
  let ?p = "sample_policy [sample_stmt Allow ''*'', sample_stmt Deny ''doc:*'']"
  have 1: "Some ?p \<in> set [Some ?p]" by simp
  have 2: "sample_stmt Deny ''doc:*'' \<in> set (pol_Statements ?p)" by (simp add: sample_policy_def)
  have 3: "st_Effect (sample_stmt Deny ''doc:*'') = Deny" by (simp add: sample_stmt_def)
  have 4: "Statement_matches sample_lib (prepare sample_ev (\<lambda>_. 0) 0 sample_req)
      (sample_stmt Deny ''doc:*'')" by code_simp
  show ?thesis using 1 deny_wins [OF 1 2 3 4] by blast
qed

lemma allowed_spec:
  assumes "rules_ok (ev_Taint e)"
  shows "d_Allowed (Evaluate lib e sys k req ps) \<longleftrightarrow>
    (let r = prepare e sys k req in
     any_effect lib r ps (\<lambda>f. f \<noteq> Deny \<and> f \<noteq> Escalate)
     \<and> \<not> any_effect lib r ps (\<lambda>f. f = Deny) \<and> \<not> any_effect lib r ps (\<lambda>f. f = Escalate)
     \<and> Classify e r = None \<and> \<not> taint_violated e r)"
proof -
  let ?r = "prepare e sys k req"
  have den: "taint_denied e ?r \<Longrightarrow> taint_violated e ?r"
    by (auto simp: taint_denied_def taint_violated_def Let_def)
  have "\<not> any_effect lib ?r ps (\<lambda>f. f = Deny) \<Longrightarrow> \<not> any_effect lib ?r ps (\<lambda>f. f = Escalate) \<Longrightarrow>
      any_effect lib ?r ps (\<lambda>f. True) \<longleftrightarrow> any_effect lib ?r ps (\<lambda>f. f \<noteq> Deny \<and> f \<noteq> Escalate)"
    by (auto simp: any_effect_def)
  then show ?thesis using outcome_Evaluate [OF assms, of lib sys k req ps] den
    by (auto simp: outcome_def Let_def split: if_splits)
qed



text \<open>The statements of the policies that are present, in order.\<close>

definition statements :: "Policy option list \<Rightarrow> Statement list" where
  "statements ps = concat (map (\<lambda>p. case p of None \<Rightarrow> [] | Some p \<Rightarrow> pol_Statements p) ps)"

lemma matching_statements:
  "matching lib req ps = {s \<in> set (statements ps). Statement_matches lib req s}"
  by (auto simp: matching_def statements_def split: option.splits)

text \<open>C26: whether a request is allowed, denied or escalated depends only on the set of statements,
  not on their order, their grouping into policies or repetitions.\<close>

theorem Evaluate_order_irrelevant:
  assumes "rules_ok (ev_Taint e)" and "set (statements ps) = set (statements ps')"
  shows "outcome (Evaluate lib e sys k req ps) = outcome (Evaluate lib e sys k req ps')"
proof -
  have "matching lib r ps = matching lib r ps'" for r
    using assms(2) by (simp add: matching_statements)
  then have "any_effect lib r ps P = any_effect lib r ps' P" for r P
    by (simp add: any_effect_def)
  then show ?thesis by (simp only: outcome_Evaluate [OF assms(1)] Let_def)
qed

theorem Evaluate_order_irrelevant_witness:
  "outcome (Evaluate sample_lib sample_ev (\<lambda>_. 0) 0 sample_req
      [Some (sample_policy [sample_stmt Allow ''*'', sample_stmt Escalate ''doc:*''])])
   = outcome (Evaluate sample_lib sample_ev (\<lambda>_. 0) 0 sample_req
      [None, Some (sample_policy [sample_stmt Escalate ''doc:*'']),
       Some (sample_policy [sample_stmt Allow ''*''])])"
  by (rule Evaluate_order_irrelevant)
    (simp_all add: rules_ok_def sample_ev_def sample_rule_def statements_def sample_policy_def
      insert_commute)

text \<open>A permission boundary only narrows.\<close>

lemma boundary_allowed:
  "d_Allowed (EvaluateWithBoundary lib e sys k req ident boundary) \<longleftrightarrow>
     d_Allowed (Evaluate lib e sys k req ident)
     \<and> (boundary = [] \<or> d_Allowed (evaluate lib e (prepare e sys (Suc k) req) boundary))"
  by (auto simp: EvaluateWithBoundary_def Let_def)

definition consistent :: "Decision \<Rightarrow> bool" where
  "consistent d \<longleftrightarrow> (Permits (d_Code d) \<longleftrightarrow> d_Allowed d)
     \<and> (d_Escalation d \<noteq> None \<longleftrightarrow> d_Effect d = Escalate) \<and> code_Valid (d_Code d)"

lemma consistent_evaluate: "consistent (evaluate lib e req ps)"
proof (cases rule: evaluate_cases [of lib req ps e])
  case (allow d)
  then show ?thesis
    by (cases "Classify e req")
      (auto simp: consistent_def applyRisk_None applyRisk_Some is_allow_def Permits_def
         code_Valid_def AllDecisionCodes_def)
next
  case default
  then show ?thesis using deny_code_range [of lib req ps]
    by (auto simp: consistent_def zero_Decision_def Permits_def code_Valid_def AllDecisionCodes_def)
qed (auto simp: decision_shapes consistent_def Permits_def code_Valid_def AllDecisionCodes_def)

lemma consistent_applyTaint: "consistent d \<Longrightarrow> consistent (applyTaint e req d)"
  by (auto simp: applyTaint_def consistent_def Let_def Permits_def code_Valid_def
      AllDecisionCodes_def split: option.splits)


lemma matchesResource_loop_iff:
  "matchesResource_loop req u pats \<longleftrightarrow>
     (\<exists>pat \<in> set pats. (\<not> snd (expand pat (req_Attributes req) True) \<and> u)
        \<or> (snd (expand pat (req_Attributes req) True)
            \<and> Match (fst (expand pat (req_Attributes req) True)) (req_Resource req)))"
  by (induction pats) (auto simp: Let_def split_def)


definition owner_pattern :: string where
  "owner_pattern = ''doc:'' @ [lbrace] @ ''owner'' @ [rbrace]"


text \<open>A tier that matches, beats every matching tier before it and is not beaten by one after it.\<close>

definition strongest_first :: "Request \<Rightarrow> RiskTier list \<Rightarrow> RiskTier \<Rightarrow> bool" where
  "strongest_first req ts t \<longleftrightarrow> RiskTier_matches t req \<and>
     (\<exists>ys zs. ts = ys @ t # zs
        \<and> (\<forall>y \<in> set ys. RiskTier_matches y req \<longrightarrow> strength (rt_Require y) < strength (rt_Require t))
        \<and> (\<forall>z \<in> set zs. RiskTier_matches z req \<longrightarrow> strength (rt_Require z) \<le> strength (rt_Require t)))"

lemma strongest_first_Cons:
  "strongest_first req ts t \<Longrightarrow>
   (RiskTier_matches u req \<Longrightarrow> strength (rt_Require u) < strength (rt_Require t)) \<Longrightarrow>
   strongest_first req (u # ts) t"
proof -
  assume "strongest_first req ts t"
    and u: "RiskTier_matches u req \<Longrightarrow> strength (rt_Require u) < strength (rt_Require t)"
  then obtain ys zs where split: "ts = ys @ t # zs" and t: "RiskTier_matches t req"
    and before: "\<forall>y \<in> set ys. RiskTier_matches y req \<longrightarrow> strength (rt_Require y) < strength (rt_Require t)"
    and after: "\<forall>z \<in> set zs. RiskTier_matches z req \<longrightarrow> strength (rt_Require z) \<le> strength (rt_Require t)"
    by (auto simp: strongest_first_def)
  have "u # ts = (u # ys) @ t # zs" using split by simp
  moreover have "\<forall>y \<in> set (u # ys). RiskTier_matches y req \<longrightarrow>
      strength (rt_Require y) < strength (rt_Require t)" using before u by simp
  ultimately show ?thesis using t after unfolding strongest_first_def by blast
qed

lemma strongest_first_hd:
  "RiskTier_matches t req \<Longrightarrow>
   \<forall>z \<in> set ts. RiskTier_matches z req \<longrightarrow> strength (rt_Require z) \<le> strength (rt_Require t) \<Longrightarrow>
   strongest_first req (t # ts) t"
  unfolding strongest_first_def by (metis append_Nil empty_iff empty_set)

lemma classify_loop_Some:
  "classify_loop req (Some b) ts = Some t \<Longrightarrow>
     (t = b \<and> (\<forall>z \<in> set ts. RiskTier_matches z req \<longrightarrow> strength (rt_Require z) \<le> strength (rt_Require b)))
     \<or> (strength (rt_Require b) < strength (rt_Require t) \<and> strongest_first req ts t)"
proof (induction ts arbitrary: b)
  case (Cons u ts)
  consider (skip) "\<not> RiskTier_matches u req"
    | (better) "RiskTier_matches u req" "strength (rt_Require u) > strength (rt_Require b)"
    | (worse) "RiskTier_matches u req" "strength (rt_Require u) \<le> strength (rt_Require b)"
    by force
  then show ?case
  proof cases
    case skip
    then show ?thesis using Cons by (auto intro: strongest_first_Cons)
  next
    case better
    then have "classify_loop req (Some u) ts = Some t" using Cons.prems by simp
    from Cons.IH [OF this] better show ?thesis
      by (auto intro: strongest_first_hd strongest_first_Cons)
  next
    case worse
    then have "classify_loop req (Some b) ts = Some t" using Cons.prems by simp
    from Cons.IH [OF this] worse show ?thesis by (auto intro: strongest_first_Cons)
  qed
qed simp

lemma classify_loop_not_None: "classify_loop req (Some b) ts \<noteq> None"
  by (induction ts arbitrary: b) auto

lemma classify_loop_None_iff:
  "classify_loop req None ts = None \<longleftrightarrow> (\<forall>t \<in> set ts. \<not> RiskTier_matches t req)"
  using classify_loop_not_None by (induction ts) auto

lemma classify_loop_first:
  "classify_loop req None ts = Some t \<Longrightarrow> strongest_first req ts t"
proof (induction ts)
  case (Cons u ts)
  show ?case
  proof (cases "RiskTier_matches u req")
    case True
    then have "classify_loop req (Some u) ts = Some t" using Cons.prems by simp
    from classify_loop_Some [OF this] True show ?thesis
      by (auto intro: strongest_first_hd strongest_first_Cons)
  next
    case False
    then show ?thesis using Cons by (auto intro: strongest_first_Cons)
  qed
qed simp

lemma strongest_first_max:
  "strongest_first req ts t \<Longrightarrow> t \<in> set ts \<and> RiskTier_matches t req
     \<and> (\<forall>z \<in> set ts. RiskTier_matches z req \<longrightarrow> strength (rt_Require z) \<le> strength (rt_Require t))"
  by (auto simp: strongest_first_def less_imp_le)

text \<open>C29: \<open>Classify\<close> returns the strongest matching tier, the first one on ties, and reports none
  exactly when no matching tier requires anything.\<close>

theorem Classify_strongest:
  "(Classify e req = None \<longleftrightarrow>
      (\<forall>t \<in> set (ev_Risk e). RiskTier_matches t req \<longrightarrow> strength (rt_Require t) = 0))
   \<and> (\<forall>t. Classify e req = Some t \<longrightarrow>
        strongest_first req (ev_Risk e) t \<and> 0 < strength (rt_Require t))"
proof (cases "classify_loop req None (ev_Risk e)")
  case None
  then show ?thesis using classify_loop_None_iff [of req "ev_Risk e"] by (simp add: Classify_def)
next
  case (Some t)
  from classify_loop_first [OF Some] have f: "strongest_first req (ev_Risk e) t" .
  from strongest_first_max [OF this] show ?thesis using Some f
    by (auto simp: Classify_def)
qed

theorem Classify_strongest_witness:
  "strongest_first sample_req
     [sample_tier ''a'' RequireApproval, sample_tier ''b'' RequireStepUp,
      sample_tier ''c'' RequireStepUp] (sample_tier ''b'' RequireStepUp)"
proof -
  let ?e = "\<lparr>ev_Now = None,
     ev_Risk = [sample_tier ''a'' RequireApproval, sample_tier ''b'' RequireStepUp,
      sample_tier ''c'' RequireStepUp], ev_Taint = []\<rparr>"
  have "Classify ?e sample_req = Some (sample_tier ''b'' RequireStepUp)" by code_simp
  then show ?thesis using Classify_strongest [of ?e sample_req] by simp
qed

lemma Validate_effect:
  assumes "Validate lib p = None" "s \<in> set (pol_Statements p)"
  shows "st_Effect s \<in> {Allow, Deny, Escalate}"
proof -
  have "validate_from lib i ss = None \<Longrightarrow> s \<in> set ss \<Longrightarrow> Statement_validate lib s = None" for i ss
    by (induction ss arbitrary: i) (auto split: option.splits)
  then have "Statement_validate lib s = None"
    using assms by (auto simp: Validate_def split: if_splits)
  then show ?thesis by (auto simp: Statement_validate_def split: if_splits)
qed

lemma scan_statements_allow_effect:
  "scan_statements lib req p i ss allow esc = Inr (allow', esc') \<Longrightarrow>
   \<forall>s \<in> set ss. st_Effect s \<in> {Allow, Deny, Escalate} \<Longrightarrow>
   pred_option (\<lambda>d. d_Effect d = Allow) allow \<Longrightarrow> pred_option (\<lambda>d. d_Effect d = Allow) allow'"
proof (induction ss arbitrary: i allow esc)
  case (Cons s ss)
  have b: "st_Effect s = Allow \<Longrightarrow> d_Effect (allow_decision p i s) = Allow"
    by (simp add: decision_builders)
  show ?case using Cons.prems b by (auto split: if_splits option.splits elim!: Cons.IH)
qed simp

lemma scan_policies_allow_effect:
  "scan_policies lib req ps allow esc = Inr (allow', esc') \<Longrightarrow>
   \<forall>p. Some p \<in> set ps \<longrightarrow> Validate lib p = None \<Longrightarrow>
   pred_option (\<lambda>d. d_Effect d = Allow) allow \<Longrightarrow> pred_option (\<lambda>d. d_Effect d = Allow) allow'"
proof (induction lib req ps allow esc rule: scan_policies.induct)
  case (3 lib req p ps allow esc)
  then obtain a x where st: "scan_statements lib req p 0 (pol_Statements p) allow esc = Inr (a, x)"
    and rest: "scan_policies lib req ps a x = Inr (allow', esc')"
    by (auto split: sum.splits prod.splits)
  have "\<forall>s \<in> set (pol_Statements p). st_Effect s \<in> {Allow, Deny, Escalate}"
    using Validate_effect 3(3) by (metis list.set_intros(1))
  from scan_statements_allow_effect [OF st this 3(4)]
  show ?case using 3(1) [OF st _ rest] 3(3) by simp
qed simp_all

lemma Evaluate_allow_effect:
  assumes v: "\<forall>p. Some p \<in> set ps \<longrightarrow> Validate lib p = None" and a: "d_Allowed (Evaluate lib e sys k req ps)"
  shows "d_Effect (Evaluate lib e sys k req ps) = Allow"
proof -
  let ?r = "prepare e sys k req"
  let ?d = "evaluate lib e ?r ps"
  have taint: "d_Allowed (applyTaint e ?r d) \<Longrightarrow> d_Allowed d \<and> d_Effect (applyTaint e ?r d) = d_Effect d" for d
    by (auto simp: applyTaint_def Let_def split: if_splits option.splits)
  have "d_Effect ?d = Allow" if a: "d_Allowed ?d"
  proof (cases "scan_policies lib ?r ps None None")
    case (Inl d)
    then show ?thesis using a scan_policies_Inl [OF Inl] by (simp add: evaluate_def is_deny_def)
  next
    case (Inr ax)
    obtain al x where ax: "ax = (al, x)" by (cases ax)
    note shapes = scan_policies_Inr [OF Inr [unfolded ax]]
    have eff: "pred_option (\<lambda>d. d_Effect d = Allow) al"
      using scan_policies_allow_effect [OF Inr [unfolded ax] v] by simp
    show ?thesis using a shapes eff Inr ax
      by (cases x; cases al; cases "Classify e ?r")
        (auto simp: evaluate_def is_escalate_def applyRisk_None applyRisk_Some zero_Decision_def)
  qed
  with taint a show ?thesis by (auto simp: Evaluate_def Let_def)
qed

text \<open>Validation is needed: a document whose statement has the zero effect is not rejected by the
  evaluator and is treated as an allow, so callers that branch on the effect and callers that branch
  on the flag would disagree.\<close>

theorem validated_allow_effect:
  "((\<forall>p. Some p \<in> set ps \<longrightarrow> Validate lib p = None) \<longrightarrow>
      d_Allowed (Evaluate lib e sys k req ps) \<longrightarrow> d_Effect (Evaluate lib e sys k req ps) = Allow)
   \<and> (let bad = [Some (sample_policy [sample_stmt [] ''*''])] in
      d_Allowed (Evaluate sample_lib sample_ev (\<lambda>_. 0) 0 sample_req bad)
      \<and> d_Effect (Evaluate sample_lib sample_ev (\<lambda>_. 0) 0 sample_req bad) = [])"
proof
  show "(\<forall>p. Some p \<in> set ps \<longrightarrow> Validate lib p = None) \<longrightarrow>
      d_Allowed (Evaluate lib e sys k req ps) \<longrightarrow> d_Effect (Evaluate lib e sys k req ps) = Allow"
    by (blast intro: Evaluate_allow_effect)
  show "let bad = [Some (sample_policy [sample_stmt [] ''*''])] in
      d_Allowed (Evaluate sample_lib sample_ev (\<lambda>_. 0) 0 sample_req bad)
      \<and> d_Effect (Evaluate sample_lib sample_ev (\<lambda>_. 0) 0 sample_req bad) = []"
    by code_simp
qed

end
