(* ===== verification/PolicyStore.thy ===== *)
theory PolicyStore
  imports PolicyDoc "HOL-Library.Product_Lexorder"
begin

text \<open>
  Policy storage: the contract of \<open>src/policy/storage.go\<close> as a locale over an abstract view of a
  store (the stored records and the attachment relation), and the in-process store of
  \<open>src/policy/memory.go\<close>, which interprets it. The mutex of the source makes each operation
  atomic, so an operation is a function on the store's state; the reading of the clock is an
  argument.
\<close>

section \<open>Subjects and records\<close>

definition SubjectUser :: string where "SubjectUser = ''user''"
definition SubjectGroup :: string where "SubjectGroup = ''group''"
definition SubjectRole :: string where "SubjectRole = ''role''"
definition SubjectToken :: string where "SubjectToken = ''token''"

record Subject =
  sj_Kind :: string
  sj_ID :: string

record Record =
  rec_ID :: string
  rec_Name :: string
  rec_Document :: string
  rec_CreatedAt :: time
  rec_UpdatedAt :: time

record Attached =
  at_Subject :: Subject
  at_Record :: Record

datatype store_error = ErrNotFound | ErrEmptyID | ErrDocument string policy_error

definition zero_Record :: Record where
  "zero_Record = \<lparr>rec_ID = [], rec_Name = [], rec_Document = [],
     rec_CreatedAt = zero_time, rec_UpdatedAt = zero_time\<rparr>"

section \<open>The in-process store\<close>

record Memory =
  mem_policies :: "(string, Record) gomap"
  mem_attached :: "(Subject, (string, unit) gomap) gomap"

definition NewMemory :: Memory where
  "NewMemory = \<lparr>mem_policies = [], mem_attached = []\<rparr>"

text \<open>\<open>cloneRecord\<close> copies the document's bytes; on values it is the identity.\<close>

definition PutPolicy ::
  "(string \<Rightarrow> policy_error + Policy) \<Rightarrow> time \<Rightarrow> Record \<Rightarrow> Memory \<Rightarrow> store_error option \<times> Memory" where
  "PutPolicy parse now r m =
     (if rec_ID r = [] then (Some ErrEmptyID, m)
      else case parse (rec_Document r) of
        Inl e \<Rightarrow> (Some (ErrDocument (rec_ID r) e), m)
      | Inr _ \<Rightarrow>
          (let created = (case gm_get (mem_policies m) (rec_ID r) of
                            Some old \<Rightarrow> rec_CreatedAt old | None \<Rightarrow> now)
           in (None, m\<lparr>mem_policies := gm_put (rec_ID r)
                 (r\<lparr>rec_UpdatedAt := now, rec_CreatedAt := created\<rparr>) (mem_policies m)\<rparr>)))"

definition GetPolicy :: "string \<Rightarrow> Memory \<Rightarrow> store_error + Record" where
  "GetPolicy i m = (case gm_get (mem_policies m) i of None \<Rightarrow> Inl ErrNotFound | Some r \<Rightarrow> Inr r)"

definition ListPolicies :: "Memory \<Rightarrow> Record list" where
  "ListPolicies m = sort_key rec_ID (map snd (mem_policies m))"

definition DeletePolicy :: "string \<Rightarrow> Memory \<Rightarrow> Memory" where
  "DeletePolicy i m =
     m\<lparr>mem_policies := gm_del i (mem_policies m),
       mem_attached := gm_drop (\<lambda>s ids. ids = [])
         (map (\<lambda>(s, ids). (s, gm_del i ids)) (mem_attached m))\<rparr>"

definition attached_ids :: "Memory \<Rightarrow> Subject \<Rightarrow> (string, unit) gomap" where
  "attached_ids m s = (case gm_get (mem_attached m) s of None \<Rightarrow> [] | Some ids \<Rightarrow> ids)"

definition AttachPolicy :: "Subject \<Rightarrow> string \<Rightarrow> Memory \<Rightarrow> store_error option \<times> Memory" where
  "AttachPolicy s i m =
     (case gm_get (mem_policies m) i of
        None \<Rightarrow> (Some ErrNotFound, m)
      | Some _ \<Rightarrow> (None, m\<lparr>mem_attached := gm_put s (gm_put i () (attached_ids m s)) (mem_attached m)\<rparr>))"

definition DetachPolicy :: "Subject \<Rightarrow> string \<Rightarrow> Memory \<Rightarrow> Memory" where
  "DetachPolicy s i m =
     (let ids = gm_del i (attached_ids m s) in
      m\<lparr>mem_attached := (if ids = [] then gm_del s (mem_attached m)
                           else gm_put s ids (mem_attached m))\<rparr>)"

fun policies_loop :: "Memory \<Rightarrow> Subject list \<Rightarrow> Subject list \<Rightarrow> Attached list" where
  "policies_loop m seen [] = []"
| "policies_loop m seen (s # ss) =
     (if s \<in> set seen then policies_loop m seen ss
      else map (\<lambda>i. \<lparr>at_Subject = s,
                at_Record = (case gm_get (mem_policies m) i of Some r \<Rightarrow> r | None \<Rightarrow> zero_Record)\<rparr>)
             (gm_keys (attached_ids m s))
           @ policies_loop m (s # seen) ss)"

text \<open>The comparison of the final sort: policy, then subject kind, then subject.\<close>

definition attached_key :: "Attached \<Rightarrow> string \<times> string \<times> string" where
  "attached_key a = (rec_ID (at_Record a), sj_Kind (at_Subject a), sj_ID (at_Subject a))"

definition PoliciesFor :: "Subject list \<Rightarrow> Memory \<Rightarrow> Attached list" where
  "PoliciesFor subjects m = sort_key attached_key (policies_loop m [] subjects)"

lemma attached_key_inj: "attached_key a = attached_key b \<Longrightarrow> at_Record a = at_Record b \<Longrightarrow> a = b"
  by (cases a, cases b) (auto simp: attached_key_def)

lemma attached_key_ID: "attached_key a = attached_key b \<Longrightarrow> rec_ID (at_Record a) = rec_ID (at_Record b)"
  by (simp add: attached_key_def)

section \<open>The contract\<close>

text \<open>
  The contract of \<open>Storage\<close> over an abstract view: \<open>pols\<close> gives the record stored under an
  identifier and \<open>atts\<close> the attachments. \<open>for_subjects\<close> must return every record attached to one of
  the subjects, once, in order.
\<close>

locale policy_storage =
  fixes ok :: "'s \<Rightarrow> bool"
    and parse :: "string \<Rightarrow> policy_error + Policy"
    and empty_store :: 's
    and put :: "time \<Rightarrow> Record \<Rightarrow> 's \<Rightarrow> store_error option \<times> 's"
    and del :: "string \<Rightarrow> 's \<Rightarrow> 's"
    and attach :: "Subject \<Rightarrow> string \<Rightarrow> 's \<Rightarrow> store_error option \<times> 's"
    and detach :: "Subject \<Rightarrow> string \<Rightarrow> 's \<Rightarrow> 's"
    and for_subjects :: "Subject list \<Rightarrow> 's \<Rightarrow> Attached list"
    and pols :: "'s \<Rightarrow> string \<Rightarrow> Record option"
    and atts :: "'s \<Rightarrow> (Subject \<times> string) set"
  assumes ok_empty: "ok empty_store" "pols empty_store = Map.empty" "atts empty_store = {}"
    and put_fails: "rec_ID r = [] \<or> (\<exists>e. parse (rec_Document r) = Inl e) \<Longrightarrow>
          fst (put now r s) \<noteq> None \<and> snd (put now r s) = s"
    and put_works: "ok s \<Longrightarrow> rec_ID r \<noteq> [] \<Longrightarrow> parse (rec_Document r) = Inr p \<Longrightarrow>
          fst (put now r s) = None \<and> ok (snd (put now r s)) \<and> atts (snd (put now r s)) = atts s
          \<and> pols (snd (put now r s)) = (pols s)(rec_ID r \<mapsto> r\<lparr>rec_UpdatedAt := now,
               rec_CreatedAt := (case pols s (rec_ID r) of Some old \<Rightarrow> rec_CreatedAt old | None \<Rightarrow> now)\<rparr>)"
    and del_works: "ok s \<Longrightarrow> ok (del i s) \<and> pols (del i s) = (pols s)(i := None)
          \<and> atts (del i s) = {(u, j) \<in> atts s. j \<noteq> i}"
    and attach_fails: "pols s i = None \<Longrightarrow> attach u i s = (Some ErrNotFound, s)"
    and attach_works: "ok s \<Longrightarrow> pols s i = Some r \<Longrightarrow>
          fst (attach u i s) = None \<and> ok (snd (attach u i s)) \<and> pols (snd (attach u i s)) = pols s
          \<and> atts (snd (attach u i s)) = insert (u, i) (atts s)"
    and detach_works: "ok s \<Longrightarrow> ok (detach u i s) \<and> pols (detach u i s) = pols s
          \<and> atts (detach u i s) = atts s - {(u, i)}"
    and for_subjects_set: "ok s \<Longrightarrow> set (for_subjects us s)
          = {a. at_Subject a \<in> set us \<and> (\<exists>i. (at_Subject a, i) \<in> atts s \<and> pols s i = Some (at_Record a))}"
    and for_subjects_sorted: "ok s \<Longrightarrow> sorted (map attached_key (for_subjects us s))
          \<and> distinct (for_subjects us s)"
begin

text \<open>What every run of the operations keeps: stored documents parse, and nothing dangles.\<close>

definition sound :: "'s \<Rightarrow> bool" where
  "sound s \<longleftrightarrow> ok s
     \<and> (\<forall>i r. pols s i = Some r \<longrightarrow> i \<noteq> [] \<and> rec_ID r = i \<and> (\<exists>p. parse (rec_Document r) = Inr p))
     \<and> (\<forall>u i. (u, i) \<in> atts s \<longrightarrow> pols s i \<noteq> None)"

lemma sound_put: "sound s \<Longrightarrow> sound (snd (put now r s))"
proof (cases "rec_ID r = [] \<or> (\<exists>e. parse (rec_Document r) = Inl e)")
  case True
  then show "sound s \<Longrightarrow> ?thesis" using put_fails by simp
next
  case False
  then obtain p where "rec_ID r \<noteq> []" "parse (rec_Document r) = Inr p"
    by (metis sum.exhaust)
  then show "sound s \<Longrightarrow> ?thesis" using put_works [of s r p now]
    by (auto simp: sound_def)
qed

lemma sound_attach: "sound s \<Longrightarrow> sound (snd (attach u i s))"
proof (cases "pols s i")
  case None
  then show "sound s \<Longrightarrow> ?thesis" using attach_fails by simp
next
  case (Some r)
  then show "sound s \<Longrightarrow> ?thesis" using attach_works [of s i r u] by (auto simp: sound_def)
qed

lemma sound_del: "sound s \<Longrightarrow> sound (del i s)"
  using del_works [of s i] by (auto simp: sound_def)

lemma sound_detach: "sound s \<Longrightarrow> sound (detach u i s)"
  using detach_works [of s u i] by (auto simp: sound_def)

lemma sound_empty: "sound empty_store"
  by (simp add: sound_def ok_empty)

lemma for_subjects_parse:
  "sound s \<Longrightarrow> a \<in> set (for_subjects us s) \<Longrightarrow>
   (\<exists>p. parse (rec_Document (at_Record a)) = Inr p) \<and> rec_ID (at_Record a) \<noteq> []"
  using for_subjects_set [of s us] unfolding sound_def by blast

lemma deleted_gone:
  "sound s \<Longrightarrow> a \<in> set (for_subjects us (del i s)) \<Longrightarrow> rec_ID (at_Record a) \<noteq> i"
  using del_works [of s i] for_subjects_set [of "del i s" us]
  by (auto simp: sound_def split: if_splits)

text \<open>The result is determined by the abstract view: no two entries share a sort key.\<close>

lemma for_subjects_unique:
  assumes "sound s" "sound t" "pols s = pols t" "atts s = atts t"
  shows "for_subjects us s = for_subjects us t"
proof -
  let ?f = "for_subjects us s" and ?g = "for_subjects us t"
  have ok: "ok s" "ok t" using assms by (simp_all add: sound_def)
  have eq: "set ?g = set ?f"
    unfolding for_subjects_set [OF ok(1)] for_subjects_set [OF ok(2)] assms(3,4) ..
  have "pols s (rec_ID (at_Record a)) = Some (at_Record a)" if "a \<in> set ?f" for a
    using that assms(1) unfolding for_subjects_set [OF ok(1)] sound_def by blast
  then have inj: "inj_on attached_key (set ?f)"
    by (intro inj_onI) (metis attached_key_ID attached_key_inj option.inject)
  have "map attached_key ?f = map attached_key ?g"
    using for_subjects_sorted [OF ok(1)] for_subjects_sorted [OF ok(2)] inj eq
    by (intro sorted_distinct_set_unique) (simp_all add: distinct_map)
  then show ?thesis by (rule map_inj_on) (unfold eq Un_absorb, rule inj)
qed

end

section \<open>The in-process store meets the contract\<close>

definition mem_pols :: "Memory \<Rightarrow> string \<Rightarrow> Record option" where
  "mem_pols m = gm_get (mem_policies m)"

definition ids_of :: "Memory \<Rightarrow> Subject \<Rightarrow> string set" where
  "ids_of m s = set (gm_keys (attached_ids m s))"

definition mem_atts :: "Memory \<Rightarrow> (Subject \<times> string) set" where
  "mem_atts m = {(s, i). i \<in> ids_of m s}"

definition mem_ok :: "Memory \<Rightarrow> bool" where
  "mem_ok m \<longleftrightarrow> gm_ok (mem_policies m) \<and> gm_ok (mem_attached m)
     \<and> (\<forall>s. gm_ok (attached_ids m s))
     \<and> (\<forall>i r. mem_pols m i = Some r \<longrightarrow> rec_ID r = i)
     \<and> (\<forall>s. \<forall>i \<in> ids_of m s. mem_pols m i \<noteq> None)"

lemma map_of_map_snd: "map_of (map (\<lambda>(k, v). (k, f v)) m) k = map_option f (map_of m k)"
  by (induction m) auto

lemma gm_keys_del: "set (gm_keys (gm_del i m)) = set (gm_keys m) - {i}"
  by (simp only: delete_keys set_removeAll)

lemma gm_keys_put: "set (gm_keys (gm_put i v m)) = insert i (set (gm_keys m))"
  by (auto simp: update_keys)

lemma attached_ids_Delete:
  assumes "gm_ok (mem_attached m)"
  shows "attached_ids (DeletePolicy i m) s = gm_del i (attached_ids m s)"
proof -
  have "gm_ok (map (\<lambda>(s, ids). (s, gm_del i ids)) (mem_attached m))"
    using assms by (simp add: gm_ok_def comp_def split_def)
  then show ?thesis
    by (auto simp: attached_ids_def DeletePolicy_def gm_get_drop map_of_map_snd split: option.splits)
qed

lemma attached_ids_Attach:
  "mem_pols m i = Some r \<Longrightarrow> attached_ids (snd (AttachPolicy u i m)) v
     = (if v = u then gm_put i () (attached_ids m u) else attached_ids m v)"
  by (simp add: AttachPolicy_def attached_ids_def mem_pols_def)

lemma attached_ids_Detach:
  "attached_ids (DetachPolicy u i m) v
     = (if v = u then gm_del i (attached_ids m u) else attached_ids m v)"
  by (auto simp: DetachPolicy_def attached_ids_def Let_def)

lemma mem_ok_Delete: "mem_ok m \<Longrightarrow> mem_ok (DeletePolicy i m)
    \<and> mem_pols (DeletePolicy i m) = (mem_pols m)(i := None)
    \<and> ids_of (DeletePolicy i m) s = ids_of m s - {i}"
proof -
  assume ok: "mem_ok m"
  then have a: "attached_ids (DeletePolicy i m) s = gm_del i (attached_ids m s)" for s
    by (simp add: attached_ids_Delete mem_ok_def)
  then have ids: "ids_of (DeletePolicy i m) s = ids_of m s - {i}" for s
    by (simp only: ids_of_def gm_keys_del)
  have pols: "mem_pols (DeletePolicy i m) = (mem_pols m)(i := None)"
    by (auto simp: mem_pols_def DeletePolicy_def)
  have "gm_ok (map (\<lambda>(s, ids). (s, gm_del i ids)) (mem_attached m))"
    using ok by (simp add: mem_ok_def gm_ok_def comp_def split_def)
  then have "gm_ok (mem_policies (DeletePolicy i m))" "gm_ok (mem_attached (DeletePolicy i m))"
    using ok by (simp_all add: mem_ok_def DeletePolicy_def)
  then show ?thesis using ok a ids pols by (auto simp: mem_ok_def)
qed

lemma mem_ok_Attach: "mem_ok m \<Longrightarrow> mem_pols m i = Some r \<Longrightarrow> mem_ok (snd (AttachPolicy u i m))
    \<and> mem_pols (snd (AttachPolicy u i m)) = mem_pols m
    \<and> ids_of (snd (AttachPolicy u i m)) s = (if s = u then insert i (ids_of m u) else ids_of m s)"
proof -
  assume ok: "mem_ok m" and r: "mem_pols m i = Some r"
  have ids: "ids_of (snd (AttachPolicy u i m)) s = (if s = u then insert i (ids_of m u) else ids_of m s)" for s
    by (simp only: ids_of_def attached_ids_Attach [OF r] gm_keys_put split: if_split) simp
  have pols: "mem_pols (snd (AttachPolicy u i m)) = mem_pols m"
    by (auto simp: mem_pols_def AttachPolicy_def split: option.splits)
  have "gm_ok (mem_policies (snd (AttachPolicy u i m)))" "gm_ok (mem_attached (snd (AttachPolicy u i m)))"
    using ok by (auto simp: mem_ok_def AttachPolicy_def split: option.splits)
  then show ?thesis using ok r ids pols by (auto simp: mem_ok_def attached_ids_Attach [OF r])
qed

lemma mem_ok_Detach: "mem_ok m \<Longrightarrow> mem_ok (DetachPolicy u i m)
    \<and> mem_pols (DetachPolicy u i m) = mem_pols m
    \<and> ids_of (DetachPolicy u i m) s = (if s = u then ids_of m u - {i} else ids_of m s)"
proof -
  assume ok: "mem_ok m"
  have ids: "ids_of (DetachPolicy u i m) s = (if s = u then ids_of m u - {i} else ids_of m s)" for s
    by (simp only: ids_of_def attached_ids_Detach gm_keys_del split: if_split) simp
  have pols: "mem_pols (DetachPolicy u i m) = mem_pols m"
    by (auto simp: mem_pols_def DetachPolicy_def Let_def)
  have "gm_ok (mem_policies (DetachPolicy u i m))" "gm_ok (mem_attached (DetachPolicy u i m))"
    using ok by (auto simp: mem_ok_def DetachPolicy_def Let_def)
  then show ?thesis using ok ids pols by (auto simp: mem_ok_def attached_ids_Detach split: if_splits)
qed

definition rec_at :: "Memory \<Rightarrow> string \<Rightarrow> Record" where
  "rec_at m i = (case mem_pols m i of Some r \<Rightarrow> r | None \<Rightarrow> zero_Record)"

lemma policies_loop_Cons:
  "policies_loop m seen (s # ss) =
     (if s \<in> set seen then policies_loop m seen ss
      else map (\<lambda>i. \<lparr>at_Subject = s, at_Record = rec_at m i\<rparr>) (gm_keys (attached_ids m s))
           @ policies_loop m (s # seen) ss)"
  by (simp add: rec_at_def mem_pols_def)

lemma attached_eq_iff: "\<lparr>at_Subject = s, at_Record = r\<rparr> = a \<longleftrightarrow> s = at_Subject a \<and> r = at_Record a"
  by (cases a) auto

lemma attached_image:
  "a \<in> set (map (\<lambda>i. \<lparr>at_Subject = s, at_Record = f i\<rparr>) xs)
     \<longleftrightarrow> at_Subject a = s \<and> (\<exists>i \<in> set xs. at_Record a = f i)"
  by (cases a) auto

lemma policies_loop_mem:
  "a \<in> set (policies_loop m seen ss) \<longleftrightarrow>
     at_Subject a \<in> set ss - set seen
     \<and> (\<exists>i \<in> ids_of m (at_Subject a). at_Record a = rec_at m i)"
proof (induction ss arbitrary: seen)
  case (Cons s ss)
  let ?here = "set (map (\<lambda>i. \<lparr>at_Subject = s, at_Record = rec_at m i\<rparr>) (gm_keys (attached_ids m s)))"
  have here: "a \<in> ?here \<longleftrightarrow> at_Subject a = s \<and> (\<exists>i \<in> ids_of m (at_Subject a). at_Record a = rec_at m i)"
    unfolding attached_image ids_of_def by blast
  have "a \<in> set (policies_loop m seen (s # ss)) \<longleftrightarrow>
      (if s \<in> set seen then a \<in> set (policies_loop m seen ss)
       else a \<in> ?here \<or> a \<in> set (policies_loop m (s # seen) ss))"
    unfolding policies_loop_Cons by (simp only: set_append Un_iff split: if_split) blast
  also have "\<dots> \<longleftrightarrow> at_Subject a \<in> set (s # ss) - set seen
      \<and> (\<exists>i \<in> ids_of m (at_Subject a). at_Record a = rec_at m i)"
    unfolding here Cons.IH by (cases "s \<in> set seen"; cases "at_Subject a = s") simp_all
  finally show ?case .
qed simp

lemma policies_loop_distinct:
  assumes "mem_ok m"
  shows "distinct (policies_loop m seen ss)"
proof (induction ss arbitrary: seen)
  case (Cons s ss)
  let ?f = "\<lambda>i. \<lparr>at_Subject = s, at_Record = rec_at m i\<rparr>"
  have r: "rec_ID (rec_at m i) = i" if "i \<in> ids_of m s" for i
    using that assms by (auto simp: mem_ok_def rec_at_def split: option.splits)
  have "inj_on ?f (ids_of m s)"
  proof (rule inj_onI)
    fix i j assume ij: "i \<in> ids_of m s" "j \<in> ids_of m s" and "?f i = ?f j"
    then have "rec_at m i = rec_at m j" by simp
    then have "rec_ID (rec_at m i) = rec_ID (rec_at m j)" by (rule arg_cong)
    then show "i = j" unfolding r [OF ij(1)] r [OF ij(2)] .
  qed
  moreover have "distinct (gm_keys (attached_ids m s))"
    using assms by (auto simp: mem_ok_def gm_ok_def)
  ultimately have "distinct (map ?f (gm_keys (attached_ids m s)))"
    by (simp only: distinct_map [of ?f] ids_of_def)
  moreover have "a \<notin> set (policies_loop m (s # seen) ss)"
    if "a \<in> set (map ?f (gm_keys (attached_ids m s)))" for a
  proof -
    from that have "at_Subject a = s" by (simp only: attached_image)
    then show ?thesis by (simp add: policies_loop_mem)
  qed
  ultimately have "distinct (map ?f (gm_keys (attached_ids m s)) @ policies_loop m (s # seen) ss)"
    unfolding distinct_append using Cons.IH by blast
  then show ?case unfolding policies_loop_Cons using Cons.IH by (cases "s \<in> set seen") simp_all
qed simp

lemma PoliciesFor_mem:
  assumes "mem_ok m"
  shows "a \<in> set (PoliciesFor us m) \<longleftrightarrow> at_Subject a \<in> set us
     \<and> (\<exists>i. i \<in> ids_of m (at_Subject a) \<and> mem_pols m i = Some (at_Record a))"
proof -
  have "mem_pols m i = Some (rec_at m i)" if "i \<in> ids_of m s" for i s
    using assms that by (auto simp: mem_ok_def rec_at_def split: option.splits)
  then show ?thesis
    unfolding PoliciesFor_def set_sort policies_loop_mem by (auto, metis)
qed

interpretation ms: policy_storage mem_ok parse NewMemory "PutPolicy parse" DeletePolicy AttachPolicy
  DetachPolicy PoliciesFor mem_pols mem_atts for parse
proof (unfold_locales, goal_cases)
  case 1
  then show ?case by (simp add: mem_ok_def mem_pols_def ids_of_def NewMemory_def attached_ids_def)
next
  case 2
  then show ?case by (simp add: mem_pols_def NewMemory_def)
next
  case 3
  then show ?case by (simp add: mem_atts_def ids_of_def NewMemory_def attached_ids_def)
next
  case (4 r now s)
  then show ?case by (auto simp: PutPolicy_def)
next
  case (5 s r p now)
  then show ?case
    by (auto simp: PutPolicy_def mem_ok_def mem_pols_def mem_atts_def ids_of_def attached_ids_def
        Let_def split: option.splits)
next
  case (6 s i)
  then show ?case using mem_ok_Delete [of s i] by (auto simp: mem_atts_def)
next
  case (7 s i u)
  then show ?case by (simp add: AttachPolicy_def mem_pols_def)
next
  case (8 s i r u)
  then have "fst (AttachPolicy u i s) = None" by (simp add: AttachPolicy_def mem_pols_def)
  with 8 show ?case using mem_ok_Attach [of s i r u] by (auto simp: mem_atts_def split: if_splits)
next
  case (9 s u i)
  then show ?case using mem_ok_Detach [of s u i] by (auto simp: mem_atts_def split: if_splits)
next
  case (10 s us)
  then show ?case by (auto simp: PoliciesFor_mem mem_atts_def)
next
  case (11 s us)
  then show ?case by (simp add: PoliciesFor_def policies_loop_distinct)
qed

section \<open>Runs of the in-process store\<close>

inductive mem_reach :: "(string \<Rightarrow> policy_error + Policy) \<Rightarrow> Memory \<Rightarrow> bool" for parse where
  init: "mem_reach parse NewMemory"
| put: "mem_reach parse m \<Longrightarrow> mem_reach parse (snd (PutPolicy parse now r m))"
| del: "mem_reach parse m \<Longrightarrow> mem_reach parse (DeletePolicy i m)"
| attach: "mem_reach parse m \<Longrightarrow> mem_reach parse (snd (AttachPolicy u i m))"
| detach: "mem_reach parse m \<Longrightarrow> mem_reach parse (DetachPolicy u i m)"

lemma mem_reach_sound: "mem_reach parse m \<Longrightarrow> ms.sound parse m"
  by (induction rule: mem_reach.induct)
    (rule ms.sound_empty ms.sound_put ms.sound_del ms.sound_attach ms.sound_detach; assumption?)+

text \<open>C25: after any run of the store, \<open>PoliciesFor\<close> returns exactly the stored records attached to
  one of the subjects, each once and ordered by policy, subject kind and subject.\<close>

theorem PoliciesFor_exact:
  assumes "mem_reach parse m"
  shows "(a \<in> set (PoliciesFor us m) \<longleftrightarrow>
      at_Subject a \<in> set us \<and> GetPolicy (rec_ID (at_Record a)) m = Inr (at_Record a)
      \<and> (at_Subject a, rec_ID (at_Record a)) \<in> mem_atts m)
    \<and> sorted (map attached_key (PoliciesFor us m)) \<and> distinct (PoliciesFor us m)"
proof -
  have s: "ms.sound parse m" and ok: "mem_ok m"
    using mem_reach_sound [OF assms] by (simp_all add: ms.sound_def)
  have get: "GetPolicy i m = Inr r \<longleftrightarrow> mem_pols m i = Some r" for i r
    by (simp add: GetPolicy_def mem_pols_def split: option.splits)
  have "mem_pols m i = Some r \<Longrightarrow> rec_ID r = i" for i r using ok by (simp add: mem_ok_def)
  then show ?thesis unfolding get
    using ms.for_subjects_set [OF ok, of us] ms.for_subjects_sorted [OF ok, of us] by auto
qed

text \<open>A run that stores a policy and attaches it to a user.\<close>

definition any_parse :: "string \<Rightarrow> policy_error + Policy" where
  "any_parse s = Inr \<lparr>pol_Version = ''1'', pol_ID = [], pol_Statements = []\<rparr>"

definition run_user :: Subject where "run_user = \<lparr>sj_Kind = SubjectUser, sj_ID = ''u''\<rparr>"

definition run_record :: Record where
  "run_record = \<lparr>rec_ID = ''p'', rec_Name = [], rec_Document = [], rec_CreatedAt = 5, rec_UpdatedAt = 5\<rparr>"

definition run_store :: Memory where
  "run_store = snd (AttachPolicy run_user ''p'' (snd (PutPolicy any_parse 5 run_record NewMemory)))"

theorem PoliciesFor_exact_witness:
  "set (PoliciesFor [run_user] run_store) = {\<lparr>at_Subject = run_user, at_Record = run_record\<rparr>}
   \<and> (run_user, ''p'') \<in> mem_atts run_store"
proof -
  have reach: "mem_reach any_parse run_store"
    unfolding run_store_def by (intro mem_reach.intros)
  have e: "run_store = \<lparr>mem_policies = [(''p'', run_record)], mem_attached = [(run_user, [(''p'', ())])]\<rparr>"
    by (simp add: run_store_def PutPolicy_def AttachPolicy_def NewMemory_def run_record_def
        any_parse_def attached_ids_def)
  have p: "PoliciesFor [run_user] run_store = [\<lparr>at_Subject = run_user, at_Record = run_record\<rparr>]"
    unfolding e by (simp add: PoliciesFor_def attached_ids_def)
  from PoliciesFor_exact [OF reach, of "\<lparr>at_Subject = run_user, at_Record = run_record\<rparr>" "[run_user]"]
  show ?thesis by (simp add: p run_record_def)
qed

end
