(* ===== verification/PolicyGuard.thy ===== *)
theory PolicyGuard
  imports PolicyEngine PolicyStore
begin

text \<open>
  The request guard of \<open>src/policy/http.go\<close>: it collects the subjects of the caller, loads the
  policies attached to them, splits them into identity policies and the boundary of the token,
  evaluates the request and answers. The store is reached through the function that lists the
  attached policies, so the guard's lemmas are stated over the storage contract and then read off
  for the in-process store. Identifiers (ULIDs) are represented by their text form.
\<close>

section \<open>The guard\<close>

record Principal =
  pr_Kind :: string
  pr_UserID :: string
  pr_TokenID :: "string option"
  pr_AgentName :: string
  pr_DelegatedBy :: "string option"

record Resource =
  rs_Name :: string
  rs_Attributes :: "(string, string) gomap"
  rs_Amount :: float64
  rs_Currency :: string
  rs_DataClass :: string
  rs_Irreversible :: bool

text \<open>\<open>'r\<close> is the type of HTTP requests; optional callbacks are options.\<close>

record 'r Options =
  op_Audit :: bool
  op_AuditDenyOnly :: bool
  op_Subjects :: "(Principal \<Rightarrow> string + Subject list) option"
  op_Attributes :: "('r \<Rightarrow> Principal \<Rightarrow> (string, string) gomap) option"
  op_ClientIP :: "('r \<Rightarrow> string) option"
  op_Evaluator :: Evaluator

datatype decide_error =
    ResolveSubjects string
  | LoadPolicies string
  | StoredPolicy string policy_error

definition AuditActionDecision :: string where "AuditActionDecision = ''policy.decision''"
definition ErrorCodeDenied :: string where "ErrorCodeDenied = ''policy.denied''"
definition ErrorCodeEscalate :: string where "ErrorCodeEscalate = ''policy.escalation_required''"
definition ErrorCodeStepUp :: string where "ErrorCodeStepUp = ''auth.step_up_required''"

definition PrincipalSubjects :: "Principal \<Rightarrow> Subject list" where
  "PrincipalSubjects p =
     (let owner = (case pr_DelegatedBy p of Some d \<Rightarrow> d | None \<Rightarrow> pr_UserID p) in
      \<lparr>sj_Kind = SubjectUser, sj_ID = owner\<rparr>
      # (case pr_TokenID p of None \<Rightarrow> [] | Some t \<Rightarrow> [\<lparr>sj_Kind = SubjectToken, sj_ID = t\<rparr>]))"

text \<open>The loop over the attached policies: identity documents and boundary documents.\<close>

fun split_attached ::
  "(string \<Rightarrow> policy_error + Policy) \<Rightarrow> Attached list \<Rightarrow> Policy option list \<Rightarrow> Policy option list
     \<Rightarrow> decide_error + (Policy option list \<times> Policy option list)" where
  "split_attached parse [] ident boundary = Inr (ident, boundary)"
| "split_attached parse (a # as) ident boundary =
     (case parse (rec_Document (at_Record a)) of
        Inl e \<Rightarrow> Inl (StoredPolicy (rec_ID (at_Record a)) e)
      | Inr doc \<Rightarrow>
          (let doc = doc\<lparr>pol_ID := rec_ID (at_Record a)\<rparr> in
           if sj_Kind (at_Subject a) = SubjectToken
           then split_attached parse as ident (boundary @ [Some doc])
           else split_attached parse as (ident @ [Some doc]) boundary))"

definition guard_subjects :: "'r Options \<Rightarrow> Principal \<Rightarrow> string + Subject list" where
  "guard_subjects o' p =
     (case op_Subjects o' of
        None \<Rightarrow> Inr (PrincipalSubjects p)
      | Some f \<Rightarrow> (case f p of Inl e \<Rightarrow> Inl e | Inr extra \<Rightarrow> Inr (PrincipalSubjects p @ extra)))"

text \<open>\<open>load\<close> is \<open>PoliciesFor\<close> of the store; \<open>sys\<close> and \<open>k\<close> are the clock as in \<open>Evaluate\<close>.\<close>

definition Decide ::
  "('a, 'p) golib \<Rightarrow> (string \<Rightarrow> policy_error + Policy) \<Rightarrow> (Subject list \<Rightarrow> string + Attached list)
     \<Rightarrow> (nat \<Rightarrow> time) \<Rightarrow> nat \<Rightarrow> 'r Options \<Rightarrow> Principal \<Rightarrow> Request \<Rightarrow> decide_error + Decision" where
  "Decide lib parse load sys k o' p req =
     (case guard_subjects o' p of
        Inl e \<Rightarrow> Inl (ResolveSubjects e)
      | Inr subs \<Rightarrow>
          (case load subs of
             Inl e \<Rightarrow> Inl (LoadPolicies e)
           | Inr attached \<Rightarrow>
               (case split_attached parse attached [] [] of
                  Inl e \<Rightarrow> Inl e
                | Inr (ident, boundary) \<Rightarrow>
                    Inr (EvaluateWithBoundary lib (op_Evaluator o') sys k req ident boundary))))"

definition put_all :: "(string, string) gomap \<Rightarrow> (string, string) gomap \<Rightarrow> (string, string) gomap" where
  "put_all kvs m = fold (\<lambda>(k, v). gm_put k v) kvs m"

definition clientIP :: "('r \<Rightarrow> string) \<Rightarrow> (string \<Rightarrow> string option) \<Rightarrow> 'r Options \<Rightarrow> 'r \<Rightarrow> string" where
  "clientIP remoteAddr splitHost o' r =
     (case op_ClientIP o' of
        Some f \<Rightarrow> f r
      | None \<Rightarrow> (case splitHost (remoteAddr r) of None \<Rightarrow> remoteAddr r | Some h \<Rightarrow> h))"

definition guard_request ::
  "('r \<Rightarrow> string) \<Rightarrow> 'r Options \<Rightarrow> 'r \<Rightarrow> Principal \<Rightarrow> string \<Rightarrow> Resource \<Rightarrow> Request" where
  "guard_request ip o' r p action res =
     (let attrs = [(''principal.id'', pr_UserID p), (''principal.kind'', pr_Kind p)];
          attrs = (case pr_TokenID p of None \<Rightarrow> attrs | Some t \<Rightarrow> gm_put ''token.id'' t attrs);
          attrs = (if pr_AgentName p \<noteq> [] then gm_put ''agent.name'' (pr_AgentName p) attrs else attrs);
          attrs = (case op_Attributes o' of None \<Rightarrow> attrs | Some f \<Rightarrow> put_all (f r p) attrs);
          attrs = put_all (rs_Attributes res) attrs
      in \<lparr>req_Action = action, req_Resource = rs_Name res, req_Attributes = attrs, req_IP = ip r,
          req_Now = zero_time, req_Amount = rs_Amount res, req_Currency = rs_Currency res,
          req_DataClass = rs_DataClass res, req_Irreversible = rs_Irreversible res,
          req_Provenance = []\<rparr>)"

text \<open>
  The middleware's answers: the authenticator has already replied, the evaluation failed with
  status 500, the request is refused with a status and a problem code, or the next handler runs
  with the decision in its context.
\<close>

datatype guard_reply =
    Unauthenticated
  | EvaluationFailed decide_error
  | Refused nat string Decision
  | Served Decision

record audit_event =
  au_Action :: string
  au_Target :: string
  au_Decision :: Decision

definition guard_audit :: "'r Options \<Rightarrow> Request \<Rightarrow> Decision \<Rightarrow> audit_event list" where
  "guard_audit o' req d =
     (if \<not> op_Audit o' \<or> (d_Allowed d \<and> op_AuditDenyOnly o') then []
      else [\<lparr>au_Action = AuditActionDecision, au_Target = req_Resource req, au_Decision = d\<rparr>])"

definition guard_reply_of :: "Decision \<Rightarrow> guard_reply" where
  "guard_reply_of d =
     (if d_Effect d = Escalate \<and> d_Escalation d \<noteq> None then
        (if esc_Requirement (the (d_Escalation d)) = RequireStepUp
         then Refused 401 ErrorCodeStepUp d
         else Refused 403 ErrorCodeEscalate d)
      else if \<not> d_Allowed d then Refused 403 ErrorCodeDenied d
      else Served d)"

definition RequirePolicy ::
  "('a, 'p) golib \<Rightarrow> (string \<Rightarrow> policy_error + Policy) \<Rightarrow> (Subject list \<Rightarrow> string + Attached list)
     \<Rightarrow> (nat \<Rightarrow> time) \<Rightarrow> nat \<Rightarrow> ('r \<Rightarrow> string) \<Rightarrow> 'r Options
     \<Rightarrow> ('r \<Rightarrow> ('r \<times> Principal) option) \<Rightarrow> string \<Rightarrow> ('r \<Rightarrow> Resource) \<Rightarrow> 'r
     \<Rightarrow> guard_reply \<times> audit_event list" where
  "RequirePolicy lib parse load sys k ip o' auth action resourceFn r =
     (case auth r of
        None \<Rightarrow> (Unauthenticated, [])
      | Some (r, p) \<Rightarrow>
          (let req = guard_request ip o' r p action (resourceFn r) in
           case Decide lib parse load sys k o' p req of
             Inl e \<Rightarrow> (EvaluationFailed e, [])
           | Inr d \<Rightarrow> (guard_reply_of d, guard_audit o' req d)))"

section \<open>What a decision rests on\<close>

text \<open>The documents among the attached records, as the evaluator sees them.\<close>

definition docs_of :: "(string \<Rightarrow> policy_error + Policy) \<Rightarrow> (string \<Rightarrow> bool) \<Rightarrow> Attached list \<Rightarrow> Policy set" where
  "docs_of parse P as = {doc\<lparr>pol_ID := rec_ID (at_Record a)\<rparr> | doc a.
     a \<in> set as \<and> P (sj_Kind (at_Subject a)) \<and> parse (rec_Document (at_Record a)) = Inr doc}"

lemma docs_of_Cons:
  "parse (rec_Document (at_Record a)) = Inr doc \<Longrightarrow>
   docs_of parse P (a # as) = (if P (sj_Kind (at_Subject a))
      then insert (doc\<lparr>pol_ID := rec_ID (at_Record a)\<rparr>) (docs_of parse P as) else docs_of parse P as)"
  by (auto simp: docs_of_def)

lemma split_attached_docs:
  "split_attached parse as ident boundary = Inr (ident', boundary') \<Longrightarrow>
     set ident' = set ident \<union> Some ` docs_of parse (\<lambda>k. k \<noteq> SubjectToken) as
     \<and> set boundary' = set boundary \<union> Some ` docs_of parse (\<lambda>k. k = SubjectToken) as"
proof (induction as arbitrary: ident boundary)
  case Nil
  then show ?case by (simp add: docs_of_def)
next
  case (Cons a as)
  then obtain doc where doc: "parse (rec_Document (at_Record a)) = Inr doc"
    by (auto split: sum.splits)
  show ?case
  proof (cases "sj_Kind (at_Subject a) = SubjectToken")
    case True
    then have "split_attached parse as ident
        (boundary @ [Some (doc\<lparr>pol_ID := rec_ID (at_Record a)\<rparr>)]) = Inr (ident', boundary')"
      using Cons.prems doc by simp
    from Cons.IH [OF this] True show ?thesis by (simp add: docs_of_Cons [where parse = parse, OF doc])
  next
    case False
    then have "split_attached parse as (ident @ [Some (doc\<lparr>pol_ID := rec_ID (at_Record a)\<rparr>)])
        boundary = Inr (ident', boundary')"
      using Cons.prems doc by simp
    from Cons.IH [OF this] False show ?thesis by (simp add: docs_of_Cons [where parse = parse, OF doc])
  qed
qed

lemma split_attached_total:
  "(\<And>a. a \<in> set as \<Longrightarrow> \<exists>doc. parse (rec_Document (at_Record a)) = Inr doc) \<Longrightarrow>
   \<exists>r. split_attached parse as ident boundary = Inr r"
proof (induction as arbitrary: ident boundary)
  case (Cons a as)
  obtain doc where "parse (rec_Document (at_Record a)) = Inr doc"
    using Cons.prems [of a] by auto
  then show ?case using Cons by (simp add: Let_def)
qed simp

lemma Decide_InrE:
  assumes "Decide lib parse (\<lambda>us. Inr (f us)) sys k o' p req = Inr d"
  obtains subs ident boundary where "guard_subjects o' p = Inr subs"
    "d = EvaluateWithBoundary lib (op_Evaluator o') sys k req ident boundary"
    "set ident = Some ` docs_of parse (\<lambda>k. k \<noteq> SubjectToken) (f subs)"
    "set boundary = Some ` docs_of parse (\<lambda>k. k = SubjectToken) (f subs)"
proof (cases "guard_subjects o' p")
  case (Inl e)
  then show ?thesis using assms by (simp add: Decide_def)
next
  case (Inr subs)
  then obtain r where r: "split_attached parse (f subs) [] [] = Inr r"
    using assms by (cases "split_attached parse (f subs) [] []") (simp_all add: Decide_def)
  obtain ident boundary where ib: "r = (ident, boundary)" by (cases r)
  have "d = EvaluateWithBoundary lib (op_Evaluator o') sys k req ident boundary"
    using assms Inr r ib by (simp add: Decide_def)
  then show ?thesis using that [OF Inr] split_attached_docs [OF r [unfolded ib]] by simp
qed

context policy_storage
begin

text \<open>Every store that meets the contract gives the guard documents it can read.\<close>

lemma decide_total:
  assumes "sound s" "guard_subjects o' p = Inr subs"
  shows "\<exists>d. Decide lib parse (\<lambda>us. Inr (for_subjects us s)) sys k o' p req = Inr d"
proof -
  obtain r where "split_attached parse (for_subjects subs s) [] [] = Inr r"
    using split_attached_total for_subjects_parse [OF assms(1)] by metis
  then show ?thesis using assms(2) by (cases r) (simp add: Decide_def)
qed

lemma docs_of_for_subjects:
  assumes "sound s"
  shows "doc \<in> docs_of parse P (for_subjects us s) \<longleftrightarrow>
    (\<exists>u i r. u \<in> set us \<and> P (sj_Kind u) \<and> (u, i) \<in> atts s \<and> pols s i = Some r
       \<and> (\<exists>d. parse (rec_Document r) = Inr d \<and> doc = d\<lparr>pol_ID := i\<rparr>))"
proof -
  have ok: "ok s" using assms by (simp add: sound_def)
  have key: "pols s i = Some r \<Longrightarrow> rec_ID r = i" for i r using assms by (simp add: sound_def)
  show ?thesis
  proof
    assume "doc \<in> docs_of parse P (for_subjects us s)"
    then obtain d a where "doc = d\<lparr>pol_ID := rec_ID (at_Record a)\<rparr>" "a \<in> set (for_subjects us s)"
      "P (sj_Kind (at_Subject a))" "parse (rec_Document (at_Record a)) = Inr d"
      by (auto simp: docs_of_def)
    then show "\<exists>u i r. u \<in> set us \<and> P (sj_Kind u) \<and> (u, i) \<in> atts s \<and> pols s i = Some r
       \<and> (\<exists>d. parse (rec_Document r) = Inr d \<and> doc = d\<lparr>pol_ID := i\<rparr>)"
      using for_subjects_set [OF ok, of us] key by blast
  next
    assume "\<exists>u i r. u \<in> set us \<and> P (sj_Kind u) \<and> (u, i) \<in> atts s \<and> pols s i = Some r
       \<and> (\<exists>d. parse (rec_Document r) = Inr d \<and> doc = d\<lparr>pol_ID := i\<rparr>)"
    then obtain u i r d where h: "u \<in> set us" "P (sj_Kind u)" "(u, i) \<in> atts s" "pols s i = Some r"
      "parse (rec_Document r) = Inr d" "doc = d\<lparr>pol_ID := i\<rparr>" by blast
    let ?a = "\<lparr>at_Subject = u, at_Record = r\<rparr>"
    have "?a \<in> set (for_subjects us s)" using for_subjects_set [OF ok, of us] h by auto
    moreover have "doc = d\<lparr>pol_ID := rec_ID (at_Record ?a)\<rparr>" "P (sj_Kind (at_Subject ?a))"
      "parse (rec_Document (at_Record ?a)) = Inr d"
      using h key by simp_all
    ultimately show "doc \<in> docs_of parse P (for_subjects us s)" unfolding docs_of_def by blast
  qed
qed

end

section \<open>The guard over the in-process store\<close>

text \<open>C23: over any run of the store the guard reaches a decision: a policy document that got
  stored always parses again, so once the caller's subjects resolve no request fails with an
  evaluation error.\<close>

theorem Decide_total:
  assumes "mem_reach parse m" "guard_subjects o' p = Inr subs"
  shows "\<exists>d. Decide lib parse (\<lambda>us. Inr (PoliciesFor us m)) sys k o' p req = Inr d"
  using ms.decide_total [OF mem_reach_sound] assms by blast

text \<open>A statement of a stored document that is attached to one of the subjects and matches.\<close>

definition in_force ::
  "('a, 'p) golib \<Rightarrow> (string \<Rightarrow> policy_error + Policy) \<Rightarrow> Memory \<Rightarrow> Subject list \<Rightarrow> (string \<Rightarrow> bool)
     \<Rightarrow> Request \<Rightarrow> Statement \<Rightarrow> bool" where
  "in_force lib parse m subs P req st \<longleftrightarrow>
     (\<exists>u i r doc. u \<in> set subs \<and> P (sj_Kind u) \<and> (u, i) \<in> mem_atts m \<and> GetPolicy i m = Inr r
        \<and> parse (rec_Document r) = Inr doc \<and> st \<in> set (pol_Statements doc)
        \<and> Statement_matches lib req st)"

lemma matching_in_force:
  assumes "mem_reach parse m" "set ps = Some ` docs_of parse P (PoliciesFor subs m)"
  shows "st \<in> matching lib req ps \<longleftrightarrow> in_force lib parse m subs P req st"
proof -
  have get: "GetPolicy i m = Inr r \<longleftrightarrow> mem_pols m i = Some r" for i r
    by (simp add: GetPolicy_def mem_pols_def split: option.splits)
  have "st \<in> matching lib req ps \<longleftrightarrow> Statement_matches lib req st
      \<and> (\<exists>doc \<in> docs_of parse P (PoliciesFor subs m). st \<in> set (pol_Statements doc))"
    using assms(2) by (auto simp: matching_def)
  also have "\<dots> \<longleftrightarrow> in_force lib parse m subs P req st"
  proof
    assume "Statement_matches lib req st
      \<and> (\<exists>doc \<in> docs_of parse P (PoliciesFor subs m). st \<in> set (pol_Statements doc))"
    then obtain doc where doc: "doc \<in> docs_of parse P (PoliciesFor subs m)"
      "st \<in> set (pol_Statements doc)" "Statement_matches lib req st" by blast
    from doc(1) obtain u i r d where h: "u \<in> set subs" "P (sj_Kind u)" "(u, i) \<in> mem_atts m"
      "mem_pols m i = Some r" "parse (rec_Document r) = Inr d" "doc = d\<lparr>pol_ID := i\<rparr>"
      unfolding ms.docs_of_for_subjects [OF mem_reach_sound [OF assms(1)]] by blast
    have "st \<in> set (pol_Statements d)" using doc(2) h(6) by simp
    then show "in_force lib parse m subs P req st" unfolding in_force_def get
      using h(1-5) doc(3) by blast
  next
    assume "in_force lib parse m subs P req st"
    then obtain u i r d where h: "u \<in> set subs" "P (sj_Kind u)" "(u, i) \<in> mem_atts m"
      "mem_pols m i = Some r" "parse (rec_Document r) = Inr d" "st \<in> set (pol_Statements d)"
      "Statement_matches lib req st"
      unfolding in_force_def get by blast
    then have "d\<lparr>pol_ID := i\<rparr> \<in> docs_of parse P (PoliciesFor subs m)"
      unfolding ms.docs_of_for_subjects [OF mem_reach_sound [OF assms(1)]] by blast
    moreover have "st \<in> set (pol_Statements (d\<lparr>pol_ID := i\<rparr>))" using h by simp
    ultimately show "Statement_matches lib req st
      \<and> (\<exists>doc \<in> docs_of parse P (PoliciesFor subs m). st \<in> set (pol_Statements doc))"
      using h(7) by blast
  qed
  finally show ?thesis .
qed

lemma docs_validated:
  assumes "set ps = Some ` docs_of (Parse lib dec) P as" "Some q \<in> set ps"
  shows "Validate lib q = None"
proof -
  have "q \<in> docs_of (Parse lib dec) P as" using assms by (simp add: image_iff)
  then obtain doc and a :: Attached where q: "q = doc\<lparr>pol_ID := rec_ID (at_Record a)\<rparr>"
    and doc: "Parse lib dec (rec_Document (at_Record a)) = Inr doc"
    unfolding docs_of_def by blast
  then have "Validate lib doc = None"
    by (auto simp: Parse_def split: if_splits option.splits prod.splits)
  then show ?thesis by (auto simp: q Validate_def split: if_splits)
qed

lemma evaluate_allows:
  assumes "d_Allowed (evaluate lib e req ps)" "\<And>q. Some q \<in> set ps \<Longrightarrow> Validate lib q = None"
  shows "(\<exists>st. st \<in> matching lib req ps) \<and> (\<forall>st \<in> matching lib req ps. st_Effect st = Allow)"
proof -
  have eff: "st_Effect st \<in> {Allow, Deny, Escalate}" if "st \<in> matching lib req ps" for st
    using that assms(2) Validate_effect unfolding matching_def by blast
  show ?thesis using assms(1) eff by (auto simp: evaluate_Allowed_iff any_effect_def)
qed

lemma Evaluate_allowed_evaluate:
  "d_Allowed (Evaluate lib e sys k req ps) \<Longrightarrow> d_Allowed (evaluate lib e (prepare e sys k req) ps)"
  by (auto simp: Evaluate_def applyTaint_def Let_def split: if_splits option.splits)

lemma attached_docs_nonempty:
  assumes "mem_reach parse m" "u \<in> set subs" "P (sj_Kind u)" "(u, i) \<in> mem_atts m"
  shows "docs_of parse P (PoliciesFor subs m) \<noteq> {}"
proof -
  have s: "ms.sound parse m" by (rule mem_reach_sound [OF assms(1)])
  then obtain r doc where "mem_pols m i = Some r" "parse (rec_Document r) = Inr doc"
    using assms(4) unfolding ms.sound_def by blast
  then have "doc\<lparr>pol_ID := i\<rparr> \<in> docs_of parse P (PoliciesFor subs m)"
    unfolding ms.docs_of_for_subjects [OF s] using assms by blast
  then show ?thesis by blast
qed

text \<open>C7: the next handler runs only for an authenticated caller with a stored allow in force for a
  subject other than the token; every statement in force, for the subjects and for the token, is an
  allow; and when policies are attached to the token, one of them allows too.\<close>

theorem RequirePolicy_serves:
  assumes m: "mem_reach (Parse lib dec) m"
    and served: "fst (RequirePolicy lib (Parse lib dec) (\<lambda>us. Inr (PoliciesFor us m)) sys k ip o' auth
             action resourceFn r) = Served d'"
  shows "\<exists>r' p subs. auth r = Some (r', p) \<and> guard_subjects o' p = Inr subs
    \<and> (let req = guard_request ip o' r' p action (resourceFn r');
           q = prepare (op_Evaluator o') sys k req; b = prepare (op_Evaluator o') sys (Suc k) req;
           own = in_force lib (Parse lib dec) m subs (\<lambda>k. k \<noteq> SubjectToken) q;
           bound = in_force lib (Parse lib dec) m subs (\<lambda>k. k = SubjectToken) b
       in (\<exists>st. own st) \<and> (\<forall>st. own st \<longrightarrow> st_Effect st = Allow)
          \<and> ((\<exists>u i. u \<in> set subs \<and> sj_Kind u = SubjectToken \<and> (u, i) \<in> mem_atts m) \<longrightarrow>
               (\<exists>st. bound st) \<and> (\<forall>st. bound st \<longrightarrow> st_Effect st = Allow)))"
proof -
  let ?load = "\<lambda>us. Inr (PoliciesFor us m)" and ?e = "op_Evaluator o'"
  obtain r' p where auth: "auth r = Some (r', p)"
    using served by (auto simp: RequirePolicy_def split: option.splits)
  let ?req = "guard_request ip o' r' p action (resourceFn r')"
  let ?q = "prepare ?e sys k ?req" and ?b = "prepare ?e sys (Suc k) ?req"
  obtain d where dec: "Decide lib (Parse lib dec) ?load sys k o' p ?req = Inr d"
    and "guard_reply_of d = Served d'"
    using served auth by (cases "Decide lib (Parse lib dec) ?load sys k o' p ?req")
      (simp_all add: RequirePolicy_def Let_def)
  then have al: "d_Allowed d" by (simp add: guard_reply_of_def split: if_splits)
  obtain subs ident boundary where subs: "guard_subjects o' p = Inr subs"
    and d: "d = EvaluateWithBoundary lib ?e sys k ?req ident boundary"
    and ident: "set ident = Some ` docs_of (Parse lib dec) (\<lambda>k. k \<noteq> SubjectToken) (PoliciesFor subs m)"
    and bound: "set boundary = Some ` docs_of (Parse lib dec) (\<lambda>k. k = SubjectToken) (PoliciesFor subs m)"
    by (rule Decide_InrE [OF dec])
  have ev: "d_Allowed (evaluate lib ?e ?q ident)" using al d
    by (auto simp: boundary_allowed Evaluate_allowed_evaluate)
  have own: "(\<exists>st. in_force lib (Parse lib dec) m subs (\<lambda>k. k \<noteq> SubjectToken) ?q st)
      \<and> (\<forall>st. in_force lib (Parse lib dec) m subs (\<lambda>k. k \<noteq> SubjectToken) ?q st \<longrightarrow> st_Effect st = Allow)"
    using evaluate_allows [OF ev docs_validated [OF ident]] matching_in_force [OF m ident] by blast
  have "(\<exists>st. in_force lib (Parse lib dec) m subs (\<lambda>k. k = SubjectToken) ?b st)
      \<and> (\<forall>st. in_force lib (Parse lib dec) m subs (\<lambda>k. k = SubjectToken) ?b st \<longrightarrow> st_Effect st = Allow)"
    if "u \<in> set subs" "sj_Kind u = SubjectToken" "(u, i) \<in> mem_atts m" for u i
  proof -
    have "boundary \<noteq> []"
      using attached_docs_nonempty [OF m that(1) _ that(3), of "\<lambda>k. k = SubjectToken"] that(2) bound by auto
    then have "d_Allowed (evaluate lib ?e ?b boundary)" using al d by (simp add: boundary_allowed)
    from evaluate_allows [OF this docs_validated [OF bound]] matching_in_force [OF m bound]
    show ?thesis by blast
  qed
  with own auth subs show ?thesis by (auto simp: Let_def)
qed

section \<open>Removing a policy\<close>

text \<open>A decision names no policy or one of those it was computed from.\<close>

lemma scan_statements_PolicyID:
  "pred_option (\<lambda>d. d_PolicyID d \<in> I) allow \<Longrightarrow> pred_option (\<lambda>d. d_PolicyID d \<in> I) esc \<Longrightarrow>
   pol_ID p \<in> I \<Longrightarrow>
   case scan_statements lib req p i ss allow esc of
     Inl d \<Rightarrow> d_PolicyID d \<in> I
   | Inr (allow', esc') \<Rightarrow> pred_option (\<lambda>d. d_PolicyID d \<in> I) allow' \<and> pred_option (\<lambda>d. d_PolicyID d \<in> I) esc'"
proof (induction ss arbitrary: i allow esc)
  case (Cons s ss)
  have "d_PolicyID (deny_decision p i s) \<in> I" "d_PolicyID (escalate_decision p i s) \<in> I"
    "d_PolicyID (allow_decision p i s) \<in> I"
    using Cons.prems(3) by (simp_all add: decision_builders)
  then show ?case using Cons.prems by (auto intro!: Cons.IH split: option.splits)
qed simp

lemma scan_policies_PolicyID:
  "pred_option (\<lambda>d. d_PolicyID d \<in> I) allow \<Longrightarrow> pred_option (\<lambda>d. d_PolicyID d \<in> I) esc \<Longrightarrow>
   (\<And>p. Some p \<in> set ps \<Longrightarrow> pol_ID p \<in> I) \<Longrightarrow>
   case scan_policies lib req ps allow esc of
     Inl d \<Rightarrow> d_PolicyID d \<in> I
   | Inr (allow', esc') \<Rightarrow> pred_option (\<lambda>d. d_PolicyID d \<in> I) allow' \<and> pred_option (\<lambda>d. d_PolicyID d \<in> I) esc'"
proof (induction ps arbitrary: allow esc)
  case (Cons q ps)
  show ?case
  proof (cases q)
    case None
    then show ?thesis using Cons by simp
  next
    case (Some p)
    then have "pol_ID p \<in> I" using Cons.prems(3) by simp
    note st = scan_statements_PolicyID [OF Cons.prems(1,2) this, where lib = lib and req = req
        and i = 0 and ss = "pol_Statements p"]
    show ?thesis
    proof (cases "scan_statements lib req p 0 (pol_Statements p) allow esc")
      case (Inl d)
      then show ?thesis using st Some by simp
    next
      case (Inr ae)
      then show ?thesis using st Some Cons by (cases ae) simp
    qed
  qed
qed simp

lemma evaluate_PolicyID:
  assumes "\<And>p. Some p \<in> set ps \<Longrightarrow> pol_ID p \<in> I" "[] \<in> I"
  shows "d_PolicyID (evaluate lib e req ps) \<in> I"
proof (cases "scan_policies lib req ps None None")
  case (Inl d)
  then show ?thesis
    using scan_policies_PolicyID [of I None None ps, where lib = lib and req = req] assms
    by (simp add: evaluate_def)
next
  case (Inr ae)
  then show ?thesis
    using scan_policies_PolicyID [of I None None ps, where lib = lib and req = req] assms
    by (cases ae; cases "snd ae"; cases "fst ae")
      (auto simp: evaluate_def applyRisk_def zero_Decision_def Let_def split: option.splits)
qed

lemma EvaluateWithBoundary_PolicyID:
  assumes "\<And>p. Some p \<in> set ident \<union> set boundary \<Longrightarrow> pol_ID p \<in> I" "[] \<in> I"
  shows "d_PolicyID (EvaluateWithBoundary lib e sys k req ident boundary) \<in> I"
proof -
  have taint: "d_PolicyID (applyTaint e q d) = d_PolicyID d" for q d
    by (simp add: applyTaint_def Let_def split: option.splits)
  show ?thesis using evaluate_PolicyID [of ident I] evaluate_PolicyID [of boundary I] assms
    by (auto simp: EvaluateWithBoundary_def Evaluate_def Let_def taint)
qed

text \<open>C24: once a policy is deleted no later decision rests on it: whatever is put, attached or
  detached before, a decision made after the deletion names another policy or none.\<close>

theorem deleted_policy_not_used:
  assumes m: "mem_reach parse m" and i: "i \<noteq> []"
    and d: "Decide lib parse (\<lambda>us. Inr (PoliciesFor us (DeletePolicy i m))) sys k o' p req = Inr d"
  shows "d_PolicyID d \<noteq> i"
proof -
  let ?m = "DeletePolicy i m"
  have s: "ms.sound parse ?m" by (rule mem_reach_sound [OF mem_reach.del [OF m]])
  have gone: "(u, i) \<notin> mem_atts ?m" for u
    using ms.del_works [of m i] mem_reach_sound [OF m] by (simp add: ms.sound_def)
  obtain subs ident boundary where
    dd: "d = EvaluateWithBoundary lib (op_Evaluator o') sys k req ident boundary"
    and ident: "set ident = Some ` docs_of parse (\<lambda>k. k \<noteq> SubjectToken) (PoliciesFor subs ?m)"
    and bound: "set boundary = Some ` docs_of parse (\<lambda>k. k = SubjectToken) (PoliciesFor subs ?m)"
    by (rule Decide_InrE [OF d])
  have ids: "pol_ID q \<in> - {i}" if q: "q \<in> docs_of parse P (PoliciesFor subs ?m)" for q P
    using q gone unfolding ms.docs_of_for_subjects [OF s] by auto
  have "pol_ID q \<in> - {i}" if "Some q \<in> set ident \<union> set boundary" for q
    using that ids unfolding ident bound by blast
  then have "d_PolicyID d \<in> - {i}" unfolding dd
    by (rule EvaluateWithBoundary_PolicyID) (use i in simp_all)
  then show ?thesis by simp
qed

section \<open>A run of the store\<close>

definition doc_text :: string where "doc_text = ''d''"

definition sample_dec :: "string \<Rightarrow> (Policy \<times> bool) option" where
  "sample_dec s = (if s = doc_text then Some (sample_policy [sample_stmt Allow ''doc:*''], False) else None)"

definition sample_record :: "string \<Rightarrow> Record" where
  "sample_record i = \<lparr>rec_ID = i, rec_Name = [], rec_Document = doc_text,
     rec_CreatedAt = 0, rec_UpdatedAt = 0\<rparr>"

definition sample_user :: Subject where
  "sample_user = \<lparr>sj_Kind = SubjectUser, sj_ID = ''u''\<rparr>"

definition sample_principal :: Principal where
  "sample_principal = \<lparr>pr_Kind = ''user'', pr_UserID = ''u'', pr_TokenID = None, pr_AgentName = [],
     pr_DelegatedBy = None\<rparr>"

definition sample_options :: "unit Options" where
  "sample_options = \<lparr>op_Audit = True, op_AuditDenyOnly = False, op_Subjects = None,
     op_Attributes = None, op_ClientIP = None, op_Evaluator = sample_ev\<rparr>"

definition sample_resource :: Resource where
  "sample_resource = \<lparr>rs_Name = ''doc:1'', rs_Attributes = [], rs_Amount = Fin 0, rs_Currency = [],
     rs_DataClass = [], rs_Irreversible = False\<rparr>"

definition sample_store :: Memory where
  "sample_store = snd (AttachPolicy sample_user ''p''
     (snd (PutPolicy (Parse sample_lib sample_dec) 5 (sample_record ''p'') NewMemory)))"

definition stored_record :: Record where
  "stored_record = \<lparr>rec_ID = ''p'', rec_Name = [], rec_Document = doc_text,
     rec_CreatedAt = 5, rec_UpdatedAt = 5\<rparr>"

definition stored_policy :: Policy where
  "stored_policy = (sample_policy [sample_stmt Allow ''doc:*''])\<lparr>pol_ID := ''p''\<rparr>"

lemma sample_parse:
  "Parse sample_lib sample_dec doc_text = Inr (sample_policy [sample_stmt Allow ''doc:*''])"
proof -
  have "Validate sample_lib (sample_policy [sample_stmt Allow ''doc:*'']) = None" by code_simp
  then show ?thesis by (simp add: Parse_def sample_dec_def doc_text_def MaxDocumentBytes_def)
qed

lemma sample_store_eq:
  "sample_store = \<lparr>mem_policies = [(''p'', stored_record)], mem_attached = [(sample_user, [(''p'', ())])]\<rparr>"
  by (simp add: sample_store_def PutPolicy_def AttachPolicy_def NewMemory_def sample_record_def
      sample_parse stored_record_def attached_ids_def Let_def)

lemma sample_subjects: "guard_subjects sample_options sample_principal = Inr [sample_user]"
  by (simp add: guard_subjects_def sample_options_def PrincipalSubjects_def sample_principal_def
      sample_user_def)

lemma sample_for:
  "PoliciesFor [sample_user] sample_store = [\<lparr>at_Subject = sample_user, at_Record = stored_record\<rparr>]"
  by (simp add: PoliciesFor_def sample_store_eq attached_ids_def)

lemma sample_Decide:
  "Decide sample_lib (Parse sample_lib sample_dec) (\<lambda>us. Inr (PoliciesFor us sample_store)) sys k
     sample_options sample_principal req
   = Inr (EvaluateWithBoundary sample_lib sample_ev sys k req [Some stored_policy] [])"
proof -
  have "split_attached (Parse sample_lib sample_dec)
      [\<lparr>at_Subject = sample_user, at_Record = stored_record\<rparr>] [] [] = Inr ([Some stored_policy], [])"
    by (simp add: stored_record_def sample_parse sample_user_def SubjectUser_def SubjectToken_def
        stored_policy_def)
  then show ?thesis
    by (simp add: Decide_def sample_subjects sample_for) (simp add: sample_options_def)
qed

lemma sample_store_reach: "mem_reach (Parse sample_lib sample_dec) sample_store"
  unfolding sample_store_def by (intro mem_reach.intros)

theorem Decide_total_witness:
  "\<exists>d. Decide sample_lib (Parse sample_lib sample_dec) (\<lambda>us. Inr (PoliciesFor us sample_store))
     (\<lambda>_. 0) 0 sample_options sample_principal sample_req = Inr d"
  by (rule Decide_total [OF sample_store_reach sample_subjects])

theorem RequirePolicy_serves_witness:
  "\<exists>subs. guard_subjects sample_options sample_principal = Inr subs
     \<and> (\<exists>st. in_force sample_lib (Parse sample_lib sample_dec) sample_store subs
           (\<lambda>k. k \<noteq> SubjectToken)
           (prepare sample_ev (\<lambda>_. 0) 0
             (guard_request (\<lambda>_. []) sample_options () sample_principal ''read'' sample_resource)) st)"
proof -
  let ?req = "guard_request (\<lambda>_. []) sample_options () sample_principal ''read'' sample_resource"
  let ?d = "EvaluateWithBoundary sample_lib sample_ev (\<lambda>_. 0) 0 ?req [Some stored_policy] []"
  have "guard_reply_of ?d = Served ?d" by code_simp
  then have "fst (RequirePolicy sample_lib (Parse sample_lib sample_dec)
      (\<lambda>us. Inr (PoliciesFor us sample_store)) (\<lambda>_. 0) 0 (\<lambda>_. []) sample_options
      (\<lambda>_. Some ((), sample_principal)) ''read'' (\<lambda>_. sample_resource) ()) = Served ?d"
    by (simp add: RequirePolicy_def sample_Decide Let_def)
  from RequirePolicy_serves [OF sample_store_reach this] show ?thesis
    by (auto simp: Let_def sample_options_def)
qed

theorem deleted_policy_not_used_witness:
  "case Decide sample_lib (Parse sample_lib sample_dec)
      (\<lambda>us. Inr (PoliciesFor us (DeletePolicy ''p'' sample_store)))
      (\<lambda>_. 0) 0 sample_options sample_principal sample_req of
     Inl _ \<Rightarrow> False | Inr d \<Rightarrow> d_PolicyID d \<noteq> ''p''"
proof -
  let ?m = "DeletePolicy ''p'' sample_store"
  have "PoliciesFor [sample_user] ?m = []"
    by (simp add: PoliciesFor_def sample_store_eq DeletePolicy_def attached_ids_def gm_drop_def)
  then have d: "Decide sample_lib (Parse sample_lib sample_dec) (\<lambda>us. Inr (PoliciesFor us ?m))
      (\<lambda>_. 0) 0 sample_options sample_principal sample_req
    = Inr (EvaluateWithBoundary sample_lib (op_Evaluator sample_options) (\<lambda>_. 0) 0 sample_req [] [])"
    by (simp add: Decide_def sample_subjects)
  from deleted_policy_not_used [OF sample_store_reach _ d] show ?thesis using d by simp
qed

end
