(* ===== verification/Throttle.thy ===== *)
theory Throttle
  imports Prelude
begin

text \<open>
  Login and second-factor throttling, \<open>src/internal/throttle\<close>: the limiter of \<open>throttle.go\<close> over any
  store, the in-process store of \<open>memory.go\<close>, and the contract between them as a locale. The
  limiter's mutex makes each of its calls atomic in one process. A store that is shared with other
  processes can change between the read and the compare-and-swap of one attempt: the function
  \<open>env\<close> of the model is that interference, the identity for the in-process store.
\<close>

section \<open>Entries, stores and configuration\<close>

record Entry =
  en_Failures :: int
  en_LastFailure :: time
  en_BlockedUntil :: time
  en_ExpiresAt :: time

definition zero_Entry :: Entry where
  "zero_Entry = \<lparr>en_Failures = 0, en_LastFailure = zero_time, en_BlockedUntil = zero_time,
     en_ExpiresAt = zero_time\<rparr>"

text \<open>A store: reading, writing and deleting may fail; compare-and-swap is an optional capability,
  as is the deletion of an identifier's login entries.\<close>

record 's Store =
  so_Get :: "string \<Rightarrow> 's \<Rightarrow> string + Entry option"
  so_Set :: "string \<Rightarrow> Entry \<Rightarrow> 's \<Rightarrow> string + 's"
  so_Delete :: "string \<Rightarrow> 's \<Rightarrow> string + 's"
  so_CAS :: "(string \<Rightarrow> Entry option \<Rightarrow> Entry \<Rightarrow> 's \<Rightarrow> string + bool \<times> 's) option"
  so_DeleteLogin :: "(string \<Rightarrow> 's \<Rightarrow> string + 's) option"

record Config =
  cf_GraceFailures :: int
  cf_BaseDelay :: duration
  cf_MaxDelay :: duration
  cf_ResetAfter :: duration
  cf_UserMaxFailures :: int
  cf_UserLockout :: duration
  cf_MFAMaxFailures :: int
  cf_MFALockout :: duration

definition dflt :: "int \<Rightarrow> int \<Rightarrow> int" where
  "dflt d v = (if v \<le> 0 then d else v)"

definition WithDefaults :: "Config \<Rightarrow> Config" where
  "WithDefaults c =
     \<lparr>cf_GraceFailures = dflt 3 (cf_GraceFailures c),
      cf_BaseDelay = dflt second (cf_BaseDelay c),
      cf_MaxDelay = dflt (15 * minute) (cf_MaxDelay c),
      cf_ResetAfter = dflt (15 * minute) (cf_ResetAfter c),
      cf_UserMaxFailures = dflt 10 (cf_UserMaxFailures c),
      cf_UserLockout = dflt (15 * minute) (cf_UserLockout c),
      cf_MFAMaxFailures = dflt 5 (cf_MFAMaxFailures c),
      cf_MFALockout = dflt (15 * minute) (cf_MFALockout c)\<rparr>"

datatype throttle_error =
    Blocked duration bool
  | StoreError string
  | TooMuchContention string

section \<open>The limiter\<close>

definition LoginKeyPrefix :: string where "LoginKeyPrefix = ''login:''"

definition casAttempts :: nat where "casAttempts = 64"

definition loginKey :: "string \<Rightarrow> string \<Rightarrow> string" where
  "loginKey ip ident = LoginKeyPrefix @ ip @ ''|'' @ ident"

definition userKey :: "string \<Rightarrow> string" where "userKey ident = ''user:'' @ ident"

definition mfaKey :: "string \<Rightarrow> string" where "mfaKey userID = ''mfa:'' @ userID"

text \<open>The loop of \<open>backoff\<close>, with \<open>k\<close> rounds left: \<open>Inl\<close> is its early return.\<close>

fun backoff_loop :: "duration \<Rightarrow> nat \<Rightarrow> duration \<Rightarrow> duration + duration" where
  "backoff_loop mx 0 d = Inr d"
| "backoff_loop mx (Suc k) d =
     (let d = i64 (d * 2) in if d \<ge> mx then Inl mx else backoff_loop mx k d)"

definition backoff :: "Config \<Rightarrow> int \<Rightarrow> duration" where
  "backoff cfg over =
     (case backoff_loop (cf_MaxDelay cfg) (nat (over - 1)) (cf_BaseDelay cfg) of
        Inl d \<Rightarrow> d
      | Inr d \<Rightarrow> if d > cf_MaxDelay cfg then cf_MaxDelay cfg else d)"

definition lapsed :: "Entry \<Rightarrow> time \<Rightarrow> bool" where
  "lapsed e now \<longleftrightarrow> \<not> en_BlockedUntil e > now \<and> \<not> IsZero (en_BlockedUntil e)"

definition blocked :: "'s Store \<Rightarrow> string \<Rightarrow> time \<Rightarrow> bool \<Rightarrow> 's \<Rightarrow> throttle_error option" where
  "blocked st key now locked s =
     (case so_Get st key s of
        Inl e \<Rightarrow> Some (StoreError e)
      | Inr None \<Rightarrow> None
      | Inr (Some e) \<Rightarrow>
          if en_BlockedUntil e > now
          then Some (Blocked (time_sub (en_BlockedUntil e) now) locked) else None)"

text \<open>The entry that one failure writes, given the entry found.\<close>

definition next_entry ::
  "Config \<Rightarrow> time \<Rightarrow> bool \<Rightarrow> (Entry \<Rightarrow> Entry) \<Rightarrow> Entry option \<Rightarrow> Entry" where
  "next_entry cfg now restartAfterLock apply' prev =
     (let e = (case prev of
                 None \<Rightarrow> zero_Entry
               | Some e \<Rightarrow> if \<not> en_ExpiresAt e > now \<or> (restartAfterLock \<and> lapsed e now)
                           then zero_Entry else e);
          e = e\<lparr>en_Failures := i64 (en_Failures e + 1), en_LastFailure := now\<rparr>;
          e = apply' e;
          e = e\<lparr>en_ExpiresAt := en_LastFailure e + cf_ResetAfter cfg\<rparr>
      in if en_BlockedUntil e > en_ExpiresAt e
         then e\<lparr>en_ExpiresAt := en_BlockedUntil e + cf_ResetAfter cfg\<rparr> else e)"

fun bump_loop ::
  "'s Store \<Rightarrow> Config \<Rightarrow> (nat \<Rightarrow> 's \<Rightarrow> 's) \<Rightarrow> string \<Rightarrow> time \<Rightarrow> bool \<Rightarrow> (Entry \<Rightarrow> Entry) \<Rightarrow> nat \<Rightarrow> nat \<Rightarrow> 's
     \<Rightarrow> throttle_error option \<times> 's" where
  "bump_loop st cfg env key now restart apply' attempt 0 s = (Some (TooMuchContention key), s)"
| "bump_loop st cfg env key now restart apply' attempt (Suc left) s =
     (case so_Get st key s of
        Inl e \<Rightarrow> (Some (StoreError e), s)
      | Inr prev \<Rightarrow>
          (let e = next_entry cfg now restart apply' prev in
           case so_CAS st of
             None \<Rightarrow>
               (case so_Set st key e s of Inl err \<Rightarrow> (Some (StoreError err), s) | Inr s \<Rightarrow> (None, s))
           | Some cas \<Rightarrow>
               (let s = env attempt s in
                case cas key prev e s of
                  Inl err \<Rightarrow> (Some (StoreError err), s)
                | Inr (swapped, s) \<Rightarrow>
                    if swapped then (None, s)
                    else bump_loop st cfg env key now restart apply' (Suc attempt) left s)))"

definition bump ::
  "'s Store \<Rightarrow> Config \<Rightarrow> (nat \<Rightarrow> 's \<Rightarrow> 's) \<Rightarrow> string \<Rightarrow> time \<Rightarrow> bool \<Rightarrow> (Entry \<Rightarrow> Entry) \<Rightarrow> 's
     \<Rightarrow> throttle_error option \<times> 's" where
  "bump st cfg env key now restart apply' s =
     bump_loop st cfg env key now restart apply' 0 casAttempts s"

definition CheckLogin :: "'s Store \<Rightarrow> time \<Rightarrow> string \<Rightarrow> string \<Rightarrow> 's \<Rightarrow> throttle_error option" where
  "CheckLogin st now ip ident s =
     (case blocked st (userKey ident) now True s of
        Some e \<Rightarrow> Some e
      | None \<Rightarrow> blocked st (loginKey ip ident) now False s)"

definition login_apply :: "Config \<Rightarrow> time \<Rightarrow> Entry \<Rightarrow> Entry" where
  "login_apply cfg now e =
     (let over = en_Failures e - cf_GraceFailures cfg in
      if over > 0 then e\<lparr>en_BlockedUntil := now + backoff cfg over\<rparr> else e)"

definition lock_apply :: "int \<Rightarrow> duration \<Rightarrow> time \<Rightarrow> Entry \<Rightarrow> Entry" where
  "lock_apply mx lock now e =
     (if en_Failures e \<ge> mx then e\<lparr>en_BlockedUntil := now + lock\<rparr> else e)"

definition RecordLoginFailure ::
  "'s Store \<Rightarrow> Config \<Rightarrow> (nat \<Rightarrow> 's \<Rightarrow> 's) \<Rightarrow> time \<Rightarrow> string \<Rightarrow> string \<Rightarrow> 's \<Rightarrow> throttle_error option \<times> 's" where
  "RecordLoginFailure st cfg env now ip ident s =
     (case bump st cfg env (loginKey ip ident) now False (login_apply cfg now) s of
        (Some e, s) \<Rightarrow> (Some e, s)
      | (None, s) \<Rightarrow>
          bump st cfg env (userKey ident) now True
            (lock_apply (cf_UserMaxFailures cfg) (cf_UserLockout cfg) now) s)"

definition RecordLoginSuccess :: "'s Store \<Rightarrow> string \<Rightarrow> string \<Rightarrow> 's \<Rightarrow> throttle_error option \<times> 's" where
  "RecordLoginSuccess st ip ident s =
     (case so_Delete st (loginKey ip ident) s of
        Inl e \<Rightarrow> (Some (StoreError e), s)
      | Inr s \<Rightarrow>
          (case so_Delete st (userKey ident) s of
             Inl e \<Rightarrow> (Some (StoreError e), s)
           | Inr s \<Rightarrow> (None, s)))"

definition CheckMFA :: "'s Store \<Rightarrow> time \<Rightarrow> string \<Rightarrow> 's \<Rightarrow> throttle_error option" where
  "CheckMFA st now userID s = blocked st (mfaKey userID) now True s"

definition RecordMFAFailure ::
  "'s Store \<Rightarrow> Config \<Rightarrow> (nat \<Rightarrow> 's \<Rightarrow> 's) \<Rightarrow> time \<Rightarrow> string \<Rightarrow> 's \<Rightarrow> throttle_error option \<times> 's" where
  "RecordMFAFailure st cfg env now userID s =
     bump st cfg env (mfaKey userID) now True
       (lock_apply (cf_MFAMaxFailures cfg) (cf_MFALockout cfg) now) s"

definition RecordMFASuccess :: "'s Store \<Rightarrow> string \<Rightarrow> 's \<Rightarrow> throttle_error option \<times> 's" where
  "RecordMFASuccess st userID s =
     (case so_Delete st (mfaKey userID) s of Inl e \<Rightarrow> (Some (StoreError e), s) | Inr s \<Rightarrow> (None, s))"

definition UnlockIdentifier :: "'s Store \<Rightarrow> string \<Rightarrow> string \<Rightarrow> 's \<Rightarrow> throttle_error option \<times> 's" where
  "UnlockIdentifier st ident userID s =
     (case so_Delete st (userKey ident) s of
        Inl e \<Rightarrow> (Some (StoreError e), s)
      | Inr s \<Rightarrow>
          if userID = [] then (None, s)
          else (case so_Delete st (mfaKey userID) s of
                  Inl e \<Rightarrow> (Some (StoreError e), s)
                | Inr s \<Rightarrow> (None, s)))"

definition ClearLoginBackoff :: "'s Store \<Rightarrow> string \<Rightarrow> 's \<Rightarrow> throttle_error option \<times> 's" where
  "ClearLoginBackoff st ident s =
     (case so_DeleteLogin st of
        None \<Rightarrow> (None, s)
      | Some del \<Rightarrow> (case del ident s of Inl e \<Rightarrow> (Some (StoreError e), s) | Inr s \<Rightarrow> (None, s)))"

section \<open>The in-process store\<close>

record MemoryStore =
  ts_entries :: "(string, Entry) gomap"
  ts_maxEntries :: nat
  ts_sweepEvery :: duration
  ts_lastSweep :: time

definition defaultMaxEntries :: nat where "defaultMaxEntries = 100000"

definition NewMemoryStore :: "int \<Rightarrow> MemoryStore" where
  "NewMemoryStore maxEntries =
     \<lparr>ts_entries = [], ts_maxEntries = (if maxEntries \<le> 0 then defaultMaxEntries else nat maxEntries),
      ts_sweepEvery = minute, ts_lastSweep = zero_time\<rparr>"

definition ts_Get :: "string \<Rightarrow> MemoryStore \<Rightarrow> Entry option" where
  "ts_Get key m = gm_get (ts_entries m) key"

definition sweepLocked :: "time \<Rightarrow> MemoryStore \<Rightarrow> MemoryStore" where
  "sweepLocked now m =
     m\<lparr>ts_entries := gm_drop (\<lambda>k e. \<not> en_ExpiresAt e > now) (ts_entries m), ts_lastSweep := now\<rparr>"

text \<open>\<open>Set\<close> reads the store's own clock; the arbitrary victim is the first key of the map.\<close>

definition ts_Set :: "time \<Rightarrow> string \<Rightarrow> Entry \<Rightarrow> MemoryStore \<Rightarrow> MemoryStore" where
  "ts_Set now key e m =
     (let m = (if time_sub now (ts_lastSweep m) \<ge> ts_sweepEvery m
                  \<or> length (ts_entries m) \<ge> ts_maxEntries m
               then sweepLocked now m else m);
          m = (if gm_get (ts_entries m) key = None \<and> length (ts_entries m) \<ge> ts_maxEntries m
               then m\<lparr>ts_entries := (case ts_entries m of [] \<Rightarrow> [] | (k, _) # _ \<Rightarrow> gm_del k (ts_entries m))\<rparr>
               else m)
      in m\<lparr>ts_entries := gm_put key e (ts_entries m)\<rparr>)"

definition ts_Delete :: "string \<Rightarrow> MemoryStore \<Rightarrow> MemoryStore" where
  "ts_Delete key m = m\<lparr>ts_entries := gm_del key (ts_entries m)\<rparr>"

definition ts_DeleteLoginEntries :: "string \<Rightarrow> MemoryStore \<Rightarrow> MemoryStore" where
  "ts_DeleteLoginEntries ident m =
     m\<lparr>ts_entries := gm_drop (\<lambda>k _.
        prefix LoginKeyPrefix k
        \<and> (let rest = drop (length LoginKeyPrefix) k in
           CHR ''|'' \<in> set rest \<and> tl (dropWhile (\<lambda>c. c \<noteq> CHR ''|'') rest) = ident))
        (ts_entries m)\<rparr>"

definition ts_CompareAndSwap :: "string \<Rightarrow> Entry option \<Rightarrow> Entry \<Rightarrow> MemoryStore \<Rightarrow> bool \<times> MemoryStore" where
  "ts_CompareAndSwap key prev nxt m =
     (if gm_get (ts_entries m) key \<noteq> prev then (False, m)
      else (True, m\<lparr>ts_entries := gm_put key nxt (ts_entries m)\<rparr>))"

text \<open>The store as the limiter sees it; \<open>clock\<close> is the store's reading when \<open>Set\<close> runs.\<close>

definition memory_store :: "time \<Rightarrow> MemoryStore Store" where
  "memory_store clock =
     \<lparr>so_Get = (\<lambda>k m. Inr (ts_Get k m)),
      so_Set = (\<lambda>k e m. Inr (ts_Set clock k e m)),
      so_Delete = (\<lambda>k m. Inr (ts_Delete k m)),
      so_CAS = Some (\<lambda>k prev e m. Inr (ts_CompareAndSwap k prev e m)),
      so_DeleteLogin = Some (\<lambda>ident m. Inr (ts_DeleteLoginEntries ident m))\<rparr>"

section \<open>Backoff\<close>

lemma i64_double:
  "0 < d \<Longrightarrow> d < mx \<Longrightarrow> mx \<le> 2 ^ 62 \<Longrightarrow> i64 (d * 2) = d * 2"
  by (intro i64_id) (simp_all add: min_i64_def max_i64_def)

lemma backoff_loop_closed:
  assumes "0 < d" "d < mx" "mx \<le> 2 ^ 62"
  shows "(case backoff_loop mx k d of Inl r \<Rightarrow> r | Inr r \<Rightarrow> if r > mx then mx else r) = min mx (d * 2 ^ k)"
  using assms
proof (induction k arbitrary: d)
  case (Suc k)
  have dbl: "i64 (d * 2) = d * 2" using i64_double Suc.prems by blast
  show ?case
  proof (cases "d * 2 \<ge> mx")
    case True
    have "d * 2 * 1 \<le> d * 2 * 2 ^ k" using Suc.prems(1) by (intro mult_left_mono) auto
    then have "mx \<le> d * 2 ^ Suc k" using True by (simp add: mult.assoc)
    then show ?thesis using True dbl by simp
  next
    case False
    then show ?thesis using Suc.IH [of "d * 2"] Suc.prems dbl by (simp add: mult.assoc)
  qed
qed (simp add: min_def)

text \<open>The delay after the grace period doubles with every further failure and is capped:
  after \<open>over\<close> failures too many it is the base delay times two to the \<open>over - 1\<close>, at most the
  maximum. The bound on the two delays (146 years) keeps the doubling inside 64 bits.\<close>

theorem backoff_doubles:
  assumes "1 \<le> over" "0 < cf_BaseDelay cfg" "cf_BaseDelay cfg < 2 ^ 62" "0 < cf_MaxDelay cfg"
    and "cf_MaxDelay cfg \<le> 2 ^ 62"
  shows "backoff cfg over = min (cf_MaxDelay cfg) (cf_BaseDelay cfg * 2 ^ nat (over - 1))"
proof (cases "cf_BaseDelay cfg < cf_MaxDelay cfg")
  case True
  then show ?thesis using backoff_loop_closed [of "cf_BaseDelay cfg" "cf_MaxDelay cfg" "nat (over - 1)"] assms
    by (simp add: backoff_def)
next
  case False
  have "i64 (cf_BaseDelay cfg * 2) = cf_BaseDelay cfg * 2"
    using assms(2,3) by (intro i64_id) (simp_all add: min_i64_def max_i64_def)
  moreover have "cf_BaseDelay cfg * 1 \<le> cf_BaseDelay cfg * 2 ^ nat (over - 1)"
    using assms(2) by (intro mult_left_mono) auto
  moreover from this have "cf_MaxDelay cfg \<le> cf_BaseDelay cfg * 2 ^ nat (over - 1)"
    using False by linarith
  ultimately show ?thesis using False assms(2,4)
    by (cases "nat (over - 1)") (simp_all add: backoff_def min_def Let_def)
qed

definition sample_config :: Config where
  "sample_config = WithDefaults \<lparr>cf_GraceFailures = 0, cf_BaseDelay = 0, cf_MaxDelay = 0,
     cf_ResetAfter = 0, cf_UserMaxFailures = 3, cf_UserLockout = 0, cf_MFAMaxFailures = 0,
     cf_MFALockout = 0\<rparr>"

lemma sample_config_simps [simp]:
  "cf_GraceFailures sample_config = 3" "cf_BaseDelay sample_config = second"
  "cf_MaxDelay sample_config = 15 * minute" "cf_ResetAfter sample_config = 15 * minute"
  "cf_UserMaxFailures sample_config = 3" "cf_UserLockout sample_config = 15 * minute"
  "cf_MFAMaxFailures sample_config = 5" "cf_MFALockout sample_config = 15 * minute"
  by (simp_all add: sample_config_def WithDefaults_def dflt_def)

theorem backoff_doubles_witness:
  "backoff sample_config 3 = 4 * second \<and> backoff sample_config 11 = 15 * minute"
  using backoff_doubles [of 3 sample_config] backoff_doubles [of 11 sample_config] by simp

section \<open>The contract between limiter and store\<close>

text \<open>The keys of the three kinds of counters never meet.\<close>

lemma keys_distinct [simp]:
  "loginKey ip i \<noteq> userKey u" "userKey u \<noteq> loginKey ip i" "loginKey ip i \<noteq> mfaKey u"
  "mfaKey u \<noteq> loginKey ip i" "userKey u \<noteq> mfaKey v" "mfaKey v \<noteq> userKey u"
  "userKey u = userKey v \<longleftrightarrow> u = v" "mfaKey u = mfaKey v \<longleftrightarrow> u = v"
  by (auto simp: loginKey_def LoginKeyPrefix_def userKey_def mfaKey_def)

locale throttle_store =
  fixes st :: "'s Store"
    and cas :: "string \<Rightarrow> Entry option \<Rightarrow> Entry \<Rightarrow> 's \<Rightarrow> string + bool \<times> 's"
    and ent :: "'s \<Rightarrow> string \<Rightarrow> Entry option"
  assumes get: "so_Get st k s = Inr (ent s k)"
    and cas: "so_CAS st = Some cas"
    and cas_hit: "ent s k = prev \<Longrightarrow> \<exists>s'. cas k prev e s = Inr (True, s') \<and> ent s' = (ent s)(k \<mapsto> e)"
    and cas_miss: "ent s k \<noteq> prev \<Longrightarrow> cas k prev e s = Inr (False, s)"
    and del: "\<exists>s'. so_Delete st k s = Inr s' \<and> ent s' = (ent s)(k := None)"
begin

text \<open>Without interference one attempt is enough.\<close>

lemma bump_alone:
  "\<exists>s'. bump st cfg (\<lambda>_ s. s) key now restart f s = (None, s')
     \<and> ent s' = (ent s)(key \<mapsto> next_entry cfg now restart f (ent s key))"
  using cas_hit [of s key "ent s key" "next_entry cfg now restart f (ent s key)"]
  by (auto simp: bump_def casAttempts_def numeral_eq_Suc get cas Let_def)

text \<open>With interference a successful call still applies its step to the value it replaces.\<close>

lemma bump_loop_atomic:
  "bump_loop st cfg env key now restart f a n s = (None, s') \<Longrightarrow>
   \<exists>i s0. i < a + n \<and> ent s' = (ent (env i s0))(key \<mapsto> next_entry cfg now restart f (ent (env i s0) key))"
proof (induction n arbitrary: a s)
  case (Suc n)
  let ?e = "next_entry cfg now restart f (ent s key)"
  show ?case
  proof (cases "ent (env a s) key = ent s key")
    case True
    then obtain s1 where "cas key (ent s key) ?e (env a s) = Inr (True, s1)"
      "ent s1 = (ent (env a s))(key \<mapsto> ?e)" using cas_hit by blast
    then have "ent s' = (ent (env a s))(key \<mapsto> next_entry cfg now restart f (ent (env a s) key))"
      using Suc.prems True by (simp add: get cas Let_def)
    then show ?thesis by (intro exI [of _ a] exI [of _ s]) simp
  next
    case False
    then have "bump_loop st cfg env key now restart f (Suc a) n (env a s) = (None, s')"
      using Suc.prems cas_miss [OF False] by (simp add: get cas Let_def)
    from Suc.IH [OF this] show ?thesis by auto
  qed
qed simp

text \<open>It succeeds as soon as the others leave the key alone during one attempt.\<close>

lemma bump_loop_succeeds:
  "j < n \<Longrightarrow> (\<And>s. ent (env (a + j) s) key = ent s key) \<Longrightarrow>
   fst (bump_loop st cfg env key now restart f a n s) = None"
proof (induction n arbitrary: a j s)
  case (Suc n)
  let ?e = "next_entry cfg now restart f (ent s key)"
  show ?case
  proof (cases "ent (env a s) key = ent s key")
    case True
    then obtain s1 where "cas key (ent s key) ?e (env a s) = Inr (True, s1)" using cas_hit by blast
    then show ?thesis by (simp add: get cas Let_def)
  next
    case False
    then obtain j' where j: "j = Suc j'" using Suc.prems(2) [of s] by (cases j) auto
    have "fst (bump_loop st cfg env key now restart f (Suc a) n (env a s)) = None"
      using Suc.prems j by (intro Suc.IH [of j']) auto
    then show ?thesis using cas_miss [OF False] by (simp add: get cas Let_def)
  qed
qed simp

text \<open>The effect of a failed login on the entries.\<close>

lemma RecordLoginFailure_alone:
  "\<exists>s'. RecordLoginFailure st cfg (\<lambda>_ s. s) now ip ident s = (None, s')
     \<and> ent s' = (ent s)
       (loginKey ip ident \<mapsto> next_entry cfg now False (login_apply cfg now) (ent s (loginKey ip ident)),
        userKey ident \<mapsto> next_entry cfg now True
          (lock_apply (cf_UserMaxFailures cfg) (cf_UserLockout cfg) now) (ent s (userKey ident)))"
proof -
  obtain s1 where 1: "bump st cfg (\<lambda>_ s. s) (loginKey ip ident) now False (login_apply cfg now) s = (None, s1)"
    "ent s1 = (ent s)(loginKey ip ident \<mapsto>
       next_entry cfg now False (login_apply cfg now) (ent s (loginKey ip ident)))"
    using bump_alone by blast
  obtain s2 where "bump st cfg (\<lambda>_ s. s) (userKey ident) now True
      (lock_apply (cf_UserMaxFailures cfg) (cf_UserLockout cfg) now) s1 = (None, s2)"
    "ent s2 = (ent s1)(userKey ident \<mapsto> next_entry cfg now True
       (lock_apply (cf_UserMaxFailures cfg) (cf_UserLockout cfg) now) (ent s1 (userKey ident)))"
    using bump_alone by blast
  with 1 show ?thesis by (simp add: RecordLoginFailure_def)
qed

lemma RecordLoginSuccess_clears:
  "\<exists>s'. RecordLoginSuccess st ip ident s = (None, s')
     \<and> ent s' = (ent s)(loginKey ip ident := None, userKey ident := None)"
proof -
  obtain s1 where 1: "so_Delete st (loginKey ip ident) s = Inr s1" "ent s1 = (ent s)(loginKey ip ident := None)"
    using del by blast
  obtain s2 where "so_Delete st (userKey ident) s1 = Inr s2" "ent s2 = (ent s1)(userKey ident := None)"
    using del by blast
  with 1 show ?thesis by (simp add: RecordLoginSuccess_def)
qed

lemma blocked_iff:
  "blocked st key now locked s = (case ent s key of
      None \<Rightarrow> None
    | Some e \<Rightarrow> if en_BlockedUntil e > now
        then Some (Blocked (time_sub (en_BlockedUntil e) now) locked) else None)"
  by (simp add: blocked_def get split: option.split)

end

section \<open>The in-process store meets the contract\<close>

definition ts_ent :: "MemoryStore \<Rightarrow> string \<Rightarrow> Entry option" where
  "ts_ent m = gm_get (ts_entries m)"

interpretation tm: throttle_store "memory_store clock"
  "\<lambda>k prev e m. Inr (ts_CompareAndSwap k prev e m)" ts_ent for clock
  by unfold_locales
    (auto simp: memory_store_def ts_ent_def ts_Get_def ts_CompareAndSwap_def ts_Delete_def)

text \<open>C19: no failure is lost to a race. Whatever other writers do to the store between the read and
  the swap of each attempt, a call that reports success has written the successor of the entry it
  replaced; and it does succeed if during one of its attempts the others leave the key alone.\<close>

theorem bump_no_lost_update:
  "(fst (bump (memory_store clock) cfg env key now restart f m) = None \<longrightarrow>
      (\<exists>i m0. i < casAttempts \<and> ts_ent (snd (bump (memory_store clock) cfg env key now restart f m))
         = (ts_ent (env i m0))(key \<mapsto> next_entry cfg now restart f (ts_ent (env i m0) key))))
   \<and> ((\<exists>j < casAttempts. \<forall>m. ts_ent (env j m) key = ts_ent m key) \<longrightarrow>
      fst (bump (memory_store clock) cfg env key now restart f m) = None)"
proof (intro conjI impI)
  assume "fst (bump (memory_store clock) cfg env key now restart f m) = None"
  then obtain m' where "bump_loop (memory_store clock) cfg env key now restart f 0 casAttempts m = (None, m')"
    by (metis bump_def prod.collapse)
  from tm.bump_loop_atomic [OF this] this
  show "\<exists>i m0. i < casAttempts \<and> ts_ent (snd (bump (memory_store clock) cfg env key now restart f m))
      = (ts_ent (env i m0))(key \<mapsto> next_entry cfg now restart f (ts_ent (env i m0) key))"
    by (simp add: bump_def)
next
  assume "\<exists>j < casAttempts. \<forall>m. ts_ent (env j m) key = ts_ent m key"
  then obtain j where "j < casAttempts" "\<And>m. ts_ent (env j m) key = ts_ent m key" by blast
  then show "fst (bump (memory_store clock) cfg env key now restart f m) = None"
    using tm.bump_loop_succeeds [of j casAttempts env 0 key] by (simp add: bump_def)
qed

theorem bump_no_lost_update_witness:
  "fst (bump (memory_store 0) sample_config (\<lambda>i m. if i = 0 then ts_Delete ''k'' m else m) ''k'' 5 True
      (\<lambda>e. e) (NewMemoryStore 0)) = None"
proof -
  have "\<exists>j < casAttempts. \<forall>m. ts_ent ((\<lambda>i m. if i = 0 then ts_Delete ''k'' m else m) j m) ''k'' = ts_ent m ''k''"
    by (rule exI [of _ 1]) (simp add: casAttempts_def)
  then show ?thesis
    using bump_no_lost_update [of 0 sample_config "\<lambda>i m. if i = 0 then ts_Delete ''k'' m else m" "''k''" 5
        True "\<lambda>e. e" "NewMemoryStore 0"] by blast
qed

section \<open>Lockout\<close>

text \<open>A run of failed logins \<open>(instant, address, identifier)\<close>.\<close>

fun fail_run :: "Config \<Rightarrow> (time \<times> string \<times> string) list \<Rightarrow> MemoryStore \<Rightarrow> MemoryStore" where
  "fail_run cfg [] m = m"
| "fail_run cfg ((t, ip, ident) # evs) m =
     fail_run cfg evs (snd (RecordLoginFailure (memory_store t) cfg (\<lambda>_ s. s) t ip ident m))"

definition lock_step :: "Config \<Rightarrow> time \<Rightarrow> Entry option \<Rightarrow> Entry option" where
  "lock_step cfg t e =
     Some (next_entry cfg t True (lock_apply (cf_UserMaxFailures cfg) (cf_UserLockout cfg) t) e)"

definition times_of :: "string \<Rightarrow> (time \<times> string \<times> string) list \<Rightarrow> time list" where
  "times_of u evs = map fst (filter (\<lambda>(t, ip, ident). ident = u) evs)"

lemma fail_run_ent:
  "ts_ent (fail_run cfg evs m) (userKey u) = fold (lock_step cfg) (times_of u evs) (ts_ent m (userKey u))"
proof (induction evs arbitrary: m)
  case (Cons ev evs)
  obtain t ip ident where ev: "ev = (t, ip, ident)" by (cases ev)
  obtain m' where "RecordLoginFailure (memory_store t) cfg (\<lambda>_ s. s) t ip ident m = (None, m')"
    and "ts_ent m' = (ts_ent m)
       (loginKey ip ident \<mapsto> next_entry cfg t False (login_apply cfg t) (ts_ent m (loginKey ip ident)),
        userKey ident \<mapsto> next_entry cfg t True
          (lock_apply (cf_UserMaxFailures cfg) (cf_UserLockout cfg) t) (ts_ent m (userKey ident)))"
    using tm.RecordLoginFailure_alone [of t cfg t ip ident m] by blast
  then show ?case using Cons.IH [of m'] ev by (simp add: times_of_def lock_step_def)
qed (simp add: times_of_def)

text \<open>Failures close enough to each other that the counter does not restart.\<close>

fun dense :: "duration \<Rightarrow> time list \<Rightarrow> bool" where
  "dense r [] = True"
| "dense r [t] = (0 < t)"
| "dense r (t # u # ts) = (0 < t \<and> t \<le> u \<and> u < t + r \<and> dense r (u # ts))"

definition counting :: "Config \<Rightarrow> int \<Rightarrow> time \<Rightarrow> Entry option \<Rightarrow> bool" where
  "counting cfg n t e \<longleftrightarrow> (if n = 0 then e = None
     else \<exists>x. e = Some x \<and> en_Failures x = n \<and> IsZero (en_BlockedUntil x)
       \<and> en_ExpiresAt x = t + cf_ResetAfter cfg)"

lemma lock_step_counting:
  assumes "counting cfg n t e" "0 \<le> n" "n < cf_UserMaxFailures cfg" "cf_UserMaxFailures cfg \<le> max_i64"
    and "0 < u" "n = 0 \<or> (t \<le> u \<and> u < t + cf_ResetAfter cfg)" "0 < cf_ResetAfter cfg"
  shows "n + 1 < cf_UserMaxFailures cfg \<Longrightarrow> counting cfg (n + 1) u (lock_step cfg u e)"
    and "n + 1 = cf_UserMaxFailures cfg \<Longrightarrow>
      \<exists>x. lock_step cfg u e = Some x \<and> en_BlockedUntil x = u + cf_UserLockout cfg"
proof -
  have n1: "i64 (n + 1) = n + 1" using assms(2-4) by (intro i64_id) (simp_all add: min_i64_def)
  define b where "b = (case e of None \<Rightarrow> zero_Entry
      | Some x \<Rightarrow> if \<not> en_ExpiresAt x > u \<or> (True \<and> lapsed x u) then zero_Entry else x)"
  have b: "en_Failures b = n" "en_BlockedUntil b = 0"
    using assms(1,6) by (auto simp: counting_def b_def zero_Entry_def lapsed_def split: if_splits)
  have step: "lock_step cfg u e = Some (let x = lock_apply (cf_UserMaxFailures cfg) (cf_UserLockout cfg) u
      (b\<lparr>en_Failures := n + 1, en_LastFailure := u\<rparr>);
      x = x\<lparr>en_ExpiresAt := en_LastFailure x + cf_ResetAfter cfg\<rparr>
    in if en_BlockedUntil x > en_ExpiresAt x
       then x\<lparr>en_ExpiresAt := en_BlockedUntil x + cf_ResetAfter cfg\<rparr> else x)"
    using n1 b(1) by (simp add: lock_step_def next_entry_def b_def Let_def)
  show "n + 1 < cf_UserMaxFailures cfg \<Longrightarrow> counting cfg (n + 1) u (lock_step cfg u e)"
    using step b assms(2,5,7) by (simp add: lock_apply_def counting_def Let_def)
  show "n + 1 = cf_UserMaxFailures cfg \<Longrightarrow>
      \<exists>x. lock_step cfg u e = Some x \<and> en_BlockedUntil x = u + cf_UserLockout cfg"
    using step by (simp add: lock_apply_def Let_def)
qed

lemma fold_locks:
  assumes "counting cfg n t e" "0 \<le> n" "cf_UserMaxFailures cfg \<le> max_i64" "0 < cf_ResetAfter cfg"
    and "if n = 0 then dense (cf_ResetAfter cfg) ts else dense (cf_ResetAfter cfg) (t # ts)"
    and "n < cf_UserMaxFailures cfg" "int (length ts) = cf_UserMaxFailures cfg - n"
  shows "\<exists>x. fold (lock_step cfg) ts e = Some x \<and> en_BlockedUntil x = last ts + cf_UserLockout cfg"
  using assms
proof (induction ts arbitrary: n t e)
  case (Cons u ts)
  have u: "0 < u" "n = 0 \<or> (t \<le> u \<and> u < t + cf_ResetAfter cfg)" "dense (cf_ResetAfter cfg) (u # ts)"
    using Cons.prems(5) by (cases ts; auto split: if_splits)+
  note step = lock_step_counting [OF Cons.prems(1,2,6,3) u(1,2) Cons.prems(4)]
  show ?case
  proof (cases "n + 1 = cf_UserMaxFailures cfg")
    case True
    then have "length ts = 0" using Cons.prems(7) by (simp only: list.size)
    then show ?thesis using step(2) [OF True] by simp
  next
    case False
    then have "counting cfg (n + 1) u (lock_step cfg u e)" using step(1) Cons.prems(6) by simp
    from Cons.IH [OF this] show ?thesis using Cons.prems(2-7) u(3) False by auto
  qed
qed simp

text \<open>C18: after as many failures for an identifier as the configuration allows, close enough to each
  other and from any addresses, with any failures for other identifiers in between, a login for the
  identifier is refused from every address until the lockout has passed.\<close>

theorem lockout_after_max:
  assumes "times_of u evs \<noteq> []" "dense (cf_ResetAfter cfg) (times_of u evs)"
    and "int (length (times_of u evs)) = cf_UserMaxFailures cfg" "cf_UserMaxFailures cfg \<le> max_i64"
    and "0 < cf_ResetAfter cfg" "now < last (times_of u evs) + cf_UserLockout cfg"
  shows "CheckLogin (memory_store clock) now ip u (fail_run cfg evs (NewMemoryStore n))
     = Some (Blocked (time_sub (last (times_of u evs) + cf_UserLockout cfg) now) True)"
proof -
  have "counting cfg 0 0 (ts_ent (NewMemoryStore n) (userKey u))"
    by (simp add: counting_def ts_ent_def NewMemoryStore_def)
  moreover have "0 < cf_UserMaxFailures cfg" using assms(1,3) by (cases "times_of u evs") auto
  ultimately have "\<exists>x. fold (lock_step cfg) (times_of u evs) (ts_ent (NewMemoryStore n) (userKey u)) = Some x
      \<and> en_BlockedUntil x = last (times_of u evs) + cf_UserLockout cfg"
    using assms by (intro fold_locks [of cfg 0 0]) simp_all
  then obtain x where "ts_ent (fail_run cfg evs (NewMemoryStore n)) (userKey u) = Some x"
    "en_BlockedUntil x = last (times_of u evs) + cf_UserLockout cfg"
    unfolding fail_run_ent by blast
  then show ?thesis using assms(6) by (simp add: CheckLogin_def tm.blocked_iff)
qed

theorem lockout_after_max_witness:
  "CheckLogin (memory_store 0) (4 * minute) ''9.9.9.9'' ''bob''
     (fail_run sample_config
        [(minute, ''1.1.1.1'', ''bob''), (minute, ''1.1.1.1'', ''eve''), (2 * minute, ''2.2.2.2'', ''bob''),
         (3 * minute, ''1.1.1.1'', ''bob'')] (NewMemoryStore 0))
   = Some (Blocked (14 * minute) True)"
proof -
  let ?evs = "[(minute, ''1.1.1.1'', ''bob''), (minute, ''1.1.1.1'', ''eve''), (2 * minute, ''2.2.2.2'', ''bob''),
         (3 * minute, ''1.1.1.1'', ''bob'')]"
  have ts: "times_of ''bob'' ?evs = [minute, 2 * minute, 3 * minute]"
    by (simp add: times_of_def)
  have "CheckLogin (memory_store 0) (4 * minute) ''9.9.9.9'' ''bob''
     (fail_run sample_config ?evs (NewMemoryStore 0))
     = Some (Blocked (time_sub (last (times_of ''bob'' ?evs) + cf_UserLockout sample_config) (4 * minute)) True)"
    by (rule lockout_after_max) (simp_all only: ts, simp_all add: max_i64_def)
  then show ?thesis unfolding ts by (simp add: time_sub_def max_i64_def min_i64_def)
qed

section \<open>Lockouts end\<close>

text \<open>Runs of the limiter over the in-process store, with the clock.\<close>

inductive throttle_reach :: "Config \<Rightarrow> time \<Rightarrow> MemoryStore \<Rightarrow> bool" for cfg where
  init: "0 \<le> t \<Longrightarrow> throttle_reach cfg t (NewMemoryStore n)"
| tick: "throttle_reach cfg t m \<Longrightarrow> t \<le> t' \<Longrightarrow> throttle_reach cfg t' m"
| login_fail: "throttle_reach cfg t m \<Longrightarrow>
    throttle_reach cfg t (snd (RecordLoginFailure (memory_store t) cfg (\<lambda>_ s. s) t ip ident m))"
| login_ok: "throttle_reach cfg t m \<Longrightarrow>
    throttle_reach cfg t (snd (RecordLoginSuccess (memory_store t) ip ident m))"
| mfa_fail: "throttle_reach cfg t m \<Longrightarrow>
    throttle_reach cfg t (snd (RecordMFAFailure (memory_store t) cfg (\<lambda>_ s. s) t userID m))"
| mfa_ok: "throttle_reach cfg t m \<Longrightarrow>
    throttle_reach cfg t (snd (RecordMFASuccess (memory_store t) userID m))"
| unlock: "throttle_reach cfg t m \<Longrightarrow>
    throttle_reach cfg t (snd (UnlockIdentifier (memory_store t) ident userID m))"
| clear: "throttle_reach cfg t m \<Longrightarrow>
    throttle_reach cfg t (snd (ClearLoginBackoff (memory_store t) ident m))"

definition longest :: "Config \<Rightarrow> duration" where
  "longest cfg = max (cf_MaxDelay cfg) (max (cf_UserLockout cfg) (cf_MFALockout cfg))"

definition blocks_end :: "Config \<Rightarrow> time \<Rightarrow> MemoryStore \<Rightarrow> bool" where
  "blocks_end cfg t m \<longleftrightarrow> gm_ok (ts_entries m) \<and> 0 \<le> t
     \<and> (\<forall>k e. ts_ent m k = Some e \<longrightarrow> en_BlockedUntil e \<le> t + longest cfg)"

lemma backoff_loop_le: "backoff_loop mx k d = Inl r \<Longrightarrow> r = mx"
  by (induction k arbitrary: d) (auto simp: Let_def split: if_splits)

lemma backoff_le: "backoff cfg over \<le> cf_MaxDelay cfg"
  by (auto simp: backoff_def dest: backoff_loop_le split: sum.splits)

lemma next_entry_blocked:
  assumes "\<And>e. prev = Some e \<Longrightarrow> en_BlockedUntil e \<le> b" "0 \<le> b"
    and "\<And>e. en_BlockedUntil e \<le> b \<Longrightarrow> en_BlockedUntil (f e) \<le> b"
  shows "en_BlockedUntil (next_entry cfg now restart f prev) \<le> b"
  using assms by (auto simp: next_entry_def zero_Entry_def Let_def split: option.splits)

lemma bump_blocks_end:
  assumes "blocks_end cfg t m" "\<And>e. en_BlockedUntil e \<le> t + longest cfg \<Longrightarrow> en_BlockedUntil (f e) \<le> t + longest cfg"
    and "0 \<le> longest cfg"
  shows "blocks_end cfg t (snd (bump (memory_store t) cfg (\<lambda>_ s. s) key t restart f m))"
proof -
  let ?e = "next_entry cfg t restart f (gm_get (ts_entries m) key)"
  have b: "snd (bump (memory_store t) cfg (\<lambda>_ s. s) key t restart f m)
      = m\<lparr>ts_entries := gm_put key ?e (ts_entries m)\<rparr>"
    by (simp add: bump_def casAttempts_def numeral_eq_Suc memory_store_def ts_Get_def
        ts_CompareAndSwap_def Let_def)
  have "en_BlockedUntil ?e \<le> t + longest cfg"
    using assms by (intro next_entry_blocked) (auto simp: blocks_end_def ts_ent_def)
  then show ?thesis using assms(1) unfolding b by (auto simp: blocks_end_def ts_ent_def)
qed

lemma login_apply_blocked:
  "en_BlockedUntil e \<le> t + longest cfg \<Longrightarrow> en_BlockedUntil (login_apply cfg t e) \<le> t + longest cfg"
  using backoff_le [of cfg] by (auto simp: login_apply_def longest_def Let_def intro: le_max_iff_disj [THEN iffD2])

lemma lock_apply_blocked:
  "lock \<le> longest cfg \<Longrightarrow> en_BlockedUntil e \<le> t + longest cfg \<Longrightarrow>
   en_BlockedUntil (lock_apply mx lock t e) \<le> t + longest cfg"
  by (auto simp: lock_apply_def)

lemma ts_Delete_blocks_end: "blocks_end cfg t m \<Longrightarrow> blocks_end cfg t (ts_Delete k m)"
  by (auto simp: blocks_end_def ts_ent_def ts_Delete_def split: if_splits)

lemma ts_DeleteLogin_blocks_end: "blocks_end cfg t m \<Longrightarrow> blocks_end cfg t (ts_DeleteLoginEntries i m)"
  by (auto simp: blocks_end_def ts_ent_def ts_DeleteLoginEntries_def gm_get_drop split: option.splits if_splits)

lemma throttle_reach_blocks_end:
  assumes "throttle_reach cfg t m" "0 \<le> longest cfg"
  shows "blocks_end cfg t m"
  using assms
proof (induction rule: throttle_reach.induct)
  case (init t n)
  then show ?case by (simp add: blocks_end_def NewMemoryStore_def ts_ent_def)
next
  case (tick t m t')
  then show ?case by (force simp: blocks_end_def)
next
  case (login_fail t m ip ident)
  let ?m = "snd (bump (memory_store t) cfg (\<lambda>_ s. s) (loginKey ip ident) t False (login_apply cfg t) m)"
  have "blocks_end cfg t ?m"
    using login_fail by (intro bump_blocks_end login_apply_blocked) auto
  moreover obtain m' where "bump (memory_store t) cfg (\<lambda>_ s. s) (loginKey ip ident) t False
      (login_apply cfg t) m = (None, m')"
    using tm.bump_alone by blast
  ultimately show ?case using login_fail.prems
    by (simp add: RecordLoginFailure_def)
      (intro bump_blocks_end lock_apply_blocked, simp_all add: longest_def)
next
  case (login_ok t m ip ident)
  then show ?case
    by (simp add: RecordLoginSuccess_def memory_store_def ts_Delete_blocks_end)
next
  case (mfa_fail t m userID)
  then show ?case unfolding RecordMFAFailure_def
    by (intro bump_blocks_end lock_apply_blocked) (simp_all add: longest_def)
next
  case (mfa_ok t m userID)
  then show ?case by (simp add: RecordMFASuccess_def memory_store_def ts_Delete_blocks_end)
next
  case (unlock t m ident userID)
  then show ?case by (simp add: UnlockIdentifier_def memory_store_def ts_Delete_blocks_end)
next
  case (clear t m ident)
  then show ?case by (simp add: ClearLoginBackoff_def memory_store_def ts_DeleteLogin_blocks_end)
qed



section \<open>The bound of the in-process store\<close>

lemma fail_one_entries:
  "ts_ent m (loginKey ip u) = None \<Longrightarrow> ts_ent m (userKey u) = None \<Longrightarrow>
   length (ts_entries (snd (RecordLoginFailure (memory_store t) cfg (\<lambda>_ s. s) t ip u m)))
     = length (ts_entries m) + 2"
  by (simp add: RecordLoginFailure_def bump_def casAttempts_def numeral_eq_Suc memory_store_def ts_Get_def
      ts_CompareAndSwap_def ts_ent_def length_put_new Let_def)

text \<open>The cap of the in-process store does not hold for the limiter. The limiter writes through
  compare-and-swap, which neither sweeps nor evicts: failures for \<open>n\<close> identifiers leave \<open>2 * n\<close>
  entries, whatever the configured maximum.\<close>

theorem throttle_store_unbounded:
  assumes "distinct us"
  shows "length (ts_entries (fail_run cfg (map (\<lambda>u. (t, ip, u)) us) (NewMemoryStore n))) = 2 * length us"
proof -
  have "length (ts_entries (fail_run cfg (map (\<lambda>u. (t, ip, u)) us) m)) = length (ts_entries m) + 2 * length us"
    if "\<forall>u \<in> set us. ts_ent m (loginKey ip u) = None \<and> ts_ent m (userKey u) = None" for m
    using that assms
  proof (induction us arbitrary: m)
    case (Cons u us)
    let ?m = "snd (RecordLoginFailure (memory_store t) cfg (\<lambda>_ s. s) t ip u m)"
    have other: "ts_ent ?m (loginKey ip v) = None \<and> ts_ent ?m (userKey v) = None" if "v \<in> set us" for v
    proof -
      have "loginKey ip v \<noteq> loginKey ip u" "v \<noteq> u" using that Cons.prems(2) by (auto simp: loginKey_def)
      then show ?thesis using tm.RecordLoginFailure_alone [of t cfg t ip u m] Cons.prems(1) that by auto
    qed
    then show ?case using Cons fail_one_entries [of m ip u t cfg] by simp
  qed simp
  then show ?thesis by (simp add: ts_ent_def NewMemoryStore_def)
qed

theorem throttle_store_unbounded_witness:
  "length (ts_entries (fail_run sample_config (map (\<lambda>u. (minute, ''ip'', u)) [''a'', ''b'', ''c''])
      (NewMemoryStore 1))) = 6"
  using throttle_store_unbounded [of "[''a'', ''b'', ''c'']" sample_config minute "''ip''" 1] by simp

end
