(* ===== verification/AsModels.thy ===== *)
theory AsModels
  imports Prelude
begin

text \<open>
  The rows the authorization server persists (\<open>src/internal/models/models_v20.go\<close>), as records with
  the source's fields. A \<open>ULID\<close> is its text form, a byte slice a \<^typ>\<open>string\<close> (nil and empty are the
  same value to every reader modelled here), a pointer an option.
\<close>

type_synonym ULID = string

record ClientOwner =
  co_UserID :: "ULID option"
  co_OrganizationID :: "ULID option"
  co_AgentID :: "ULID option"

record OAuthClient =
  oc_ID :: ULID
  oc_ClientID :: string
  oc_ClientSecretHash :: string
  oc_ClientName :: string
  oc_RedirectURIs :: "string list"
  oc_GrantTypes :: "string list"
  oc_ResponseTypes :: "string list"
  oc_Scope :: string
  oc_TokenEndpointAuthMethod :: string
  oc_ApplicationType :: string
  oc_Contacts :: "string list"
  oc_LogoURI :: string
  oc_ClientURI :: string
  oc_PolicyURI :: string
  oc_TosURI :: string
  oc_JwksURI :: string
  oc_Jwks :: string
  oc_SoftwareID :: string
  oc_SoftwareVersion :: string
  oc_AccessTokenFormat :: string
  oc_AccessTokenSignedResponseAlg :: string
  oc_AuthorizationDetailsTypes :: "string list"
  oc_SubjectType :: string
  oc_PostLogoutRedirectURIs :: "string list"
  oc_BackchannelLogoutURI :: string
  oc_BackchannelLogoutSessionRequired :: bool
  oc_Owner :: ClientOwner
  oc_AnonymousRegistered :: bool
  oc_RegistrationAccessHash :: string
  oc_CreatedAt :: time
  oc_UpdatedAt :: time

definition zero_OAuthClient :: OAuthClient where
  "zero_OAuthClient = \<lparr>oc_ID = [], oc_ClientID = [], oc_ClientSecretHash = [], oc_ClientName = [],
     oc_RedirectURIs = [], oc_GrantTypes = [], oc_ResponseTypes = [], oc_Scope = [],
     oc_TokenEndpointAuthMethod = [], oc_ApplicationType = [], oc_Contacts = [], oc_LogoURI = [],
     oc_ClientURI = [], oc_PolicyURI = [], oc_TosURI = [], oc_JwksURI = [], oc_Jwks = [],
     oc_SoftwareID = [], oc_SoftwareVersion = [], oc_AccessTokenFormat = [],
     oc_AccessTokenSignedResponseAlg = [], oc_AuthorizationDetailsTypes = [], oc_SubjectType = [],
     oc_PostLogoutRedirectURIs = [], oc_BackchannelLogoutURI = [],
     oc_BackchannelLogoutSessionRequired = False,
     oc_Owner = \<lparr>co_UserID = None, co_OrganizationID = None, co_AgentID = None\<rparr>,
     oc_AnonymousRegistered = False, oc_RegistrationAccessHash = [],
     oc_CreatedAt = zero_time, oc_UpdatedAt = zero_time\<rparr>"

record AuthorizationCode =
  ac_Code :: string
  ac_ClientID :: string
  ac_UserID :: ULID
  ac_OrganizationID :: "ULID option"
  ac_RedirectURI :: string
  ac_Scope :: "string list"
  ac_Resource :: string
  ac_CodeChallenge :: string
  ac_CodeChallengeMethod :: string
  ac_Nonce :: string
  ac_AuthorizationDetails :: string
  ac_AuthTime :: time
  ac_ACR :: string
  ac_AMR :: "string list"
  ac_ExpiresAt :: time
  ac_CreatedAt :: time

record RefreshToken =
  rt_ID :: ULID
  rt_Hash :: string
  rt_FamilyID :: ULID
  rt_ClientID :: string
  rt_UserID :: "ULID option"
  rt_AgentID :: "ULID option"
  rt_Scope :: "string list"
  rt_Resource :: string
  rt_ParentJTI :: string
  rt_IssuedAt :: time
  rt_ExpiresAt :: time
  rt_RevokedAt :: "time option"
  rt_RevocationNote :: string
  rt_DPoPJKT :: string
  rt_AuthCodeHash :: string
  rt_AuthorizationDetails :: string
  rt_AuthTime :: time
  rt_ACR :: string
  rt_AMR :: "string list"

text \<open>The zero value of the struct, which reading an absent map key yields.\<close>

definition zero_RefreshToken :: RefreshToken where
  "zero_RefreshToken = \<lparr>rt_ID = [], rt_Hash = [], rt_FamilyID = [], rt_ClientID = [],
     rt_UserID = None, rt_AgentID = None, rt_Scope = [], rt_Resource = [], rt_ParentJTI = [],
     rt_IssuedAt = zero_time, rt_ExpiresAt = zero_time, rt_RevokedAt = None,
     rt_RevocationNote = [], rt_DPoPJKT = [], rt_AuthCodeHash = [],
     rt_AuthorizationDetails = [], rt_AuthTime = zero_time, rt_ACR = [], rt_AMR = []\<rparr>"

record JWKSKey =
  jk_KID :: string
  jk_Alg :: string
  jk_Use :: string
  jk_PublicJWK :: string
  jk_PrivateEnc :: string
  jk_State :: string
  jk_CreatedAt :: time
  jk_PromotedAt :: "time option"
  jk_RetiredAt :: "time option"

definition JWKSStateNext :: string where "JWKSStateNext = ''next''"
definition JWKSStateCurrent :: string where "JWKSStateCurrent = ''current''"
definition JWKSStatePrevious :: string where "JWKSStatePrevious = ''previous''"
definition JWKSStateRetired :: string where "JWKSStateRetired = ''retired''"

record OpaqueAccessToken =
  oa_Hash :: string
  oa_JTI :: string
  oa_ClientID :: string
  oa_Claims :: string
  oa_IssuedAt :: time
  oa_ExpiresAt :: time
  oa_RevokedAt :: "time option"

record AgentOwner =
  ao_UserID :: "ULID option"
  ao_OrganizationID :: "ULID option"

definition AgentStatusActive :: string where "AgentStatusActive = ''active''"
definition AgentStatusSuspended :: string where "AgentStatusSuspended = ''suspended''"
definition AgentStatusRevoked :: string where "AgentStatusRevoked = ''revoked''"

record Agent =
  ag_ID :: ULID
  ag_OwnerUserID :: "ULID option"
  ag_OrganizationID :: "ULID option"
  ag_Name :: string
  ag_Description :: string
  ag_Status :: string
  ag_ClientID :: string
  ag_Scope :: "string list"
  ag_CreatedAt :: time
  ag_LastActiveAt :: "time option"
  ag_ExpiresAt :: "time option"

definition zero_Agent :: Agent where
  "zero_Agent = \<lparr>ag_ID = [], ag_OwnerUserID = None, ag_OrganizationID = None, ag_Name = [],
     ag_Description = [], ag_Status = [], ag_ClientID = [], ag_Scope = [],
     ag_CreatedAt = zero_time, ag_LastActiveAt = None, ag_ExpiresAt = None\<rparr>"

definition AgentExpired :: "Agent \<Rightarrow> time \<Rightarrow> bool" where
  "AgentExpired a now = (case ag_ExpiresAt a of None \<Rightarrow> False | Some e \<Rightarrow> \<not> now < e)"

record AgentCredential =
  cr_ID :: ULID
  cr_AgentID :: ULID
  cr_Kind :: string
  cr_ValueEnc :: string
  cr_CreatedAt :: time
  cr_ExpiresAt :: "time option"
  cr_LastUsedAt :: "time option"
  cr_RevokedAt :: "time option"

definition zero_AgentCredential :: AgentCredential where
  "zero_AgentCredential = \<lparr>cr_ID = [], cr_AgentID = [], cr_Kind = [], cr_ValueEnc = [],
     cr_CreatedAt = zero_time, cr_ExpiresAt = None, cr_LastUsedAt = None, cr_RevokedAt = None\<rparr>"

record DelegationGrant =
  dg_ID :: ULID
  dg_UserID :: ULID
  dg_AgentID :: ULID
  dg_OrganizationID :: "ULID option"
  dg_Scope :: "string list"
  dg_Resource :: string
  dg_MaxDurationSeconds :: int
  dg_CreatedAt :: time
  dg_ExpiresAt :: "time option"
  dg_RevokedAt :: "time option"
  dg_RevocationNote :: string

definition zero_DelegationGrant :: DelegationGrant where
  "zero_DelegationGrant = \<lparr>dg_ID = [], dg_UserID = [], dg_AgentID = [], dg_OrganizationID = None,
     dg_Scope = [], dg_Resource = [], dg_MaxDurationSeconds = 0, dg_CreatedAt = zero_time,
     dg_ExpiresAt = None, dg_RevokedAt = None, dg_RevocationNote = []\<rparr>"

record ProtectedResource =
  pr_Identifier :: string
  pr_DisplayName :: string
  pr_Scopes :: "string list"

end
