(* ===== verification/AsStore.thy ===== *)
theory AsStore
  imports AsModels
begin

text \<open>
  The in-process storage of the authorization server (\<open>src/storage/memory/memory_v20.go\<close> and
  \<open>memory_opaque.go\<close>): clients, authorization codes, refresh tokens and their rotation families,
  signing keys, agents and their credentials, delegation grants and the access-token denylist. Every
  operation holds the lock of the maps it touches, so it is one atomic function on the state; a
  reading of the clock is an argument. The lemmas show that the index by family agrees
  with the refresh tokens and that the store keeps the contract of the token endpoint.
\<close>

section \<open>The state\<close>

datatype storage_error = ErrStorageNotFound

record v20State =
  v_clients :: "(string, OAuthClient) gomap"
  v_clientsByID :: "(ULID, string) gomap"
  v_authzCodes :: "(string, AuthorizationCode) gomap"
  v_refreshTokens :: "(string, RefreshToken) gomap"
  v_refreshTokensByF :: "(ULID, string list) gomap"
  v_jwksKeys :: "(string, JWKSKey) gomap"
  v_deniedJTIs :: "(string, time) gomap"
  v_agents :: "(ULID, Agent) gomap"
  v_agentsByClientID :: "(string, ULID) gomap"
  v_agentCredentials :: "(ULID, AgentCredential) gomap"
  v_credsByAgent :: "(ULID, ULID list) gomap"
  v_delegations :: "(ULID, DelegationGrant) gomap"
  v_delegByUser :: "(ULID, ULID list) gomap"
  v_delegByAgent :: "(ULID, ULID list) gomap"
  v_delegByTuple :: "(string, ULID) gomap"
  v_opaque :: "(string, OpaqueAccessToken) gomap"

definition ensureV20 :: v20State where
  "ensureV20 = \<lparr>v_clients = [], v_clientsByID = [], v_authzCodes = [], v_refreshTokens = [],
     v_refreshTokensByF = [], v_jwksKeys = [], v_deniedJTIs = [], v_agents = [],
     v_agentsByClientID = [], v_agentCredentials = [], v_credsByAgent = [], v_delegations = [],
     v_delegByUser = [], v_delegByAgent = [], v_delegByTuple = [], v_opaque = []\<rparr>"

text \<open>Reading an absent key gives the zero value.\<close>

definition gm_read :: "'v \<Rightarrow> ('k, 'v) gomap \<Rightarrow> 'k \<Rightarrow> 'v" where
  "gm_read z m k = (case gm_get m k of None \<Rightarrow> z | Some v \<Rightarrow> v)"

definition hexAlphabet :: string where "hexAlphabet = ''0123456789abcdef''"

definition bytesHexKey :: "string \<Rightarrow> string" where
  "bytesHexKey b =
     concat (map (\<lambda>c. [hexAlphabet ! (of_char c div 16), hexAlphabet ! (of_char c mod 16)]) b)"

definition delegationTupleKey :: "ULID \<Rightarrow> ULID \<Rightarrow> string \<Rightarrow> string" where
  "delegationTupleKey userID agentID resource = userID @ ''|'' @ agentID @ ''|'' @ resource"

section \<open>Clients\<close>

definition InsertOAuthClient ::
  "time \<Rightarrow> OAuthClient \<Rightarrow> v20State \<Rightarrow> (storage_error + OAuthClient) \<times> v20State" where
  "InsertOAuthClient now c v =
     (if gm_get (v_clients v) (oc_ClientID c) \<noteq> None then (Inl ErrStorageNotFound, v)
      else
        (let c = (if IsZero (oc_CreatedAt c) then c\<lparr>oc_CreatedAt := now\<rparr> else c);
             c = (if IsZero (oc_UpdatedAt c) then c\<lparr>oc_UpdatedAt := oc_CreatedAt c\<rparr> else c)
         in (Inr c, v\<lparr>v_clients := gm_put (oc_ClientID c) c (v_clients v),
                      v_clientsByID := gm_put (oc_ID c) (oc_ClientID c) (v_clientsByID v)\<rparr>)))"

definition OAuthClientByClientID :: "string \<Rightarrow> v20State \<Rightarrow> storage_error + OAuthClient" where
  "OAuthClientByClientID clientID v =
     (case gm_get (v_clients v) clientID of None \<Rightarrow> Inl ErrStorageNotFound | Some c \<Rightarrow> Inr c)"

definition UpdateOAuthClient ::
  "time \<Rightarrow> OAuthClient \<Rightarrow> v20State \<Rightarrow> (storage_error + OAuthClient) \<times> v20State" where
  "UpdateOAuthClient now c v =
     (case gm_get (v_clients v) (oc_ClientID c) of
        None \<Rightarrow> (Inl ErrStorageNotFound, v)
      | Some existing \<Rightarrow>
          (let c = c\<lparr>oc_CreatedAt := oc_CreatedAt existing, oc_UpdatedAt := now\<rparr>
           in (Inr c, v\<lparr>v_clients := gm_put (oc_ClientID c) c (v_clients v)\<rparr>)))"

definition DeleteOAuthClient :: "string \<Rightarrow> v20State \<Rightarrow> storage_error option \<times> v20State" where
  "DeleteOAuthClient clientID v =
     (case gm_get (v_clients v) clientID of
        None \<Rightarrow> (Some ErrStorageNotFound, v)
      | Some c \<Rightarrow> (None, v\<lparr>v_clients := gm_del clientID (v_clients v),
                         v_clientsByID := gm_del (oc_ID c) (v_clientsByID v)\<rparr>))"

section \<open>Authorization codes\<close>

definition InsertAuthorizationCode :: "time \<Rightarrow> AuthorizationCode \<Rightarrow> v20State \<Rightarrow> v20State" where
  "InsertAuthorizationCode now c v =
     (let c = (if IsZero (ac_CreatedAt c) then c\<lparr>ac_CreatedAt := now\<rparr> else c)
      in v\<lparr>v_authzCodes := gm_put (ac_Code c) c (v_authzCodes v)\<rparr>)"

definition ConsumeAuthorizationCode ::
  "string \<Rightarrow> v20State \<Rightarrow> (storage_error + AuthorizationCode) \<times> v20State" where
  "ConsumeAuthorizationCode code v =
     (case gm_get (v_authzCodes v) code of
        None \<Rightarrow> (Inl ErrStorageNotFound, v)
      | Some c \<Rightarrow> (Inr c, v\<lparr>v_authzCodes := gm_del code (v_authzCodes v)\<rparr>))"

section \<open>Refresh tokens\<close>

definition InsertRefreshToken :: "RefreshToken \<Rightarrow> v20State \<Rightarrow> v20State" where
  "InsertRefreshToken t v =
     (let key = bytesHexKey (rt_Hash t) in
      v\<lparr>v_refreshTokens := gm_put key t (v_refreshTokens v),
        v_refreshTokensByF := gm_put (rt_FamilyID t)
          (gm_read [] (v_refreshTokensByF v) (rt_FamilyID t) @ [key]) (v_refreshTokensByF v)\<rparr>)"

definition RefreshTokenByHash :: "string \<Rightarrow> v20State \<Rightarrow> storage_error + RefreshToken" where
  "RefreshTokenByHash hash v =
     (case gm_get (v_refreshTokens v) (bytesHexKey hash) of
        Some t \<Rightarrow> Inr t
      | None \<Rightarrow> (case find (\<lambda>candidate. rt_Hash candidate = hash) (map snd (v_refreshTokens v)) of
                   Some candidate \<Rightarrow> Inr candidate
                 | None \<Rightarrow> Inl ErrStorageNotFound))"

definition RevokeRefreshToken ::
  "time \<Rightarrow> string \<Rightarrow> string \<Rightarrow> v20State \<Rightarrow> storage_error option \<times> v20State" where
  "RevokeRefreshToken now hash reason v =
     (let key = bytesHexKey hash in
      case gm_get (v_refreshTokens v) key of
        None \<Rightarrow> (Some ErrStorageNotFound, v)
      | Some t \<Rightarrow>
          if rt_RevokedAt t \<noteq> None then (Some ErrStorageNotFound, v)
          else (None, v\<lparr>v_refreshTokens := gm_put key
                 (t\<lparr>rt_RevokedAt := Some now, rt_RevocationNote := reason\<rparr>) (v_refreshTokens v)\<rparr>))"

text \<open>
  The loop over one family's keys, shared by the two bulk revocations: the access-token identifiers
  of the tokens it revoked, and the new token map.
\<close>

fun revoke_keys :: "time \<Rightarrow> string \<Rightarrow> string list \<Rightarrow> (string, RefreshToken) gomap
    \<Rightarrow> string list \<times> (string, RefreshToken) gomap" where
  "revoke_keys now reason [] m = ([], m)"
| "revoke_keys now reason (k # ks) m =
     (let t = gm_read zero_RefreshToken m k in
      if rt_RevokedAt t = None then
        (let (js, m) = revoke_keys now reason ks
               (gm_put k (t\<lparr>rt_RevokedAt := Some now, rt_RevocationNote := reason\<rparr>) m)
         in (rt_ParentJTI t # js, m))
      else revoke_keys now reason ks m)"

fun revoke_families :: "time \<Rightarrow> string \<Rightarrow> ULID list \<Rightarrow> (ULID, string list) gomap
    \<Rightarrow> (string, RefreshToken) gomap \<Rightarrow> string list \<times> (string, RefreshToken) gomap" where
  "revoke_families now reason [] byF m = ([], m)"
| "revoke_families now reason (f # fs) byF m =
     (let (js, m) = revoke_keys now reason (gm_read [] byF f) m;
          (js', m) = revoke_families now reason fs byF m
      in (js @ js', m))"

definition RevokeRefreshTokensByAuthCode ::
  "time \<Rightarrow> string \<Rightarrow> string \<Rightarrow> v20State \<Rightarrow> string list \<times> v20State" where
  "RevokeRefreshTokensByAuthCode now codeHash reason v =
     (if codeHash = [] then ([], v)
      else
        (let families = add_new [] (map rt_FamilyID
               (filter (\<lambda>t. rt_AuthCodeHash t = codeHash) (map snd (v_refreshTokens v))));
             (jtis, m) = revoke_families now reason families (v_refreshTokensByF v) (v_refreshTokens v)
         in (jtis, v\<lparr>v_refreshTokens := m\<rparr>)))"

definition RevokeRefreshTokenFamily :: "time \<Rightarrow> ULID \<Rightarrow> string \<Rightarrow> v20State \<Rightarrow> v20State" where
  "RevokeRefreshTokenFamily now familyID reason v =
     (case gm_get (v_refreshTokensByF v) familyID of
        None \<Rightarrow> v
      | Some keys \<Rightarrow> v\<lparr>v_refreshTokens := snd (revoke_keys now reason keys (v_refreshTokens v))\<rparr>)"

section \<open>Signing keys\<close>

definition InsertJWKSKey :: "time \<Rightarrow> JWKSKey \<Rightarrow> v20State \<Rightarrow> storage_error option \<times> v20State" where
  "InsertJWKSKey now k v =
     (if gm_get (v_jwksKeys v) (jk_KID k) \<noteq> None then (Some ErrStorageNotFound, v)
      else
        (let k = (if IsZero (jk_CreatedAt k) then k\<lparr>jk_CreatedAt := now\<rparr> else k)
         in (None, v\<lparr>v_jwksKeys := gm_put (jk_KID k) k (v_jwksKeys v)\<rparr>)))"

definition JWKSKeyByKID :: "string \<Rightarrow> v20State \<Rightarrow> storage_error + JWKSKey" where
  "JWKSKeyByKID kid v =
     (case gm_get (v_jwksKeys v) kid of None \<Rightarrow> Inl ErrStorageNotFound | Some k \<Rightarrow> Inr k)"

definition JWKSKeysAll :: "v20State \<Rightarrow> JWKSKey list" where
  "JWKSKeysAll v = sort_key jk_KID (map snd (v_jwksKeys v))"

definition UpdateJWKSKeyState ::
  "string \<Rightarrow> string \<Rightarrow> time \<Rightarrow> v20State \<Rightarrow> storage_error option \<times> v20State" where
  "UpdateJWKSKeyState kid state at v =
     (case gm_get (v_jwksKeys v) kid of
        None \<Rightarrow> (Some ErrStorageNotFound, v)
      | Some k \<Rightarrow>
          (let k = k\<lparr>jk_State := state\<rparr>;
               k = (if state = JWKSStateCurrent then k\<lparr>jk_PromotedAt := Some at\<rparr>
                    else if state = JWKSStateRetired then k\<lparr>jk_RetiredAt := Some at\<rparr> else k)
           in (None, v\<lparr>v_jwksKeys := gm_put kid k (v_jwksKeys v)\<rparr>)))"

section \<open>Agents and their credentials\<close>

definition InsertAgent :: "time \<Rightarrow> Agent \<Rightarrow> v20State \<Rightarrow> (storage_error + Agent) \<times> v20State" where
  "InsertAgent now a v =
     (if gm_get (v_agents v) (ag_ID a) \<noteq> None then (Inl ErrStorageNotFound, v)
      else if gm_get (v_agentsByClientID v) (ag_ClientID a) \<noteq> None then (Inl ErrStorageNotFound, v)
      else
        (let a = (if IsZero (ag_CreatedAt a) then a\<lparr>ag_CreatedAt := now\<rparr> else a);
             a = (if ag_Status a = [] then a\<lparr>ag_Status := AgentStatusActive\<rparr> else a)
         in (Inr a, v\<lparr>v_agents := gm_put (ag_ID a) a (v_agents v),
                      v_agentsByClientID := gm_put (ag_ClientID a) (ag_ID a) (v_agentsByClientID v)\<rparr>)))"

definition AgentByID :: "ULID \<Rightarrow> v20State \<Rightarrow> storage_error + Agent" where
  "AgentByID i v = (case gm_get (v_agents v) i of None \<Rightarrow> Inl ErrStorageNotFound | Some a \<Rightarrow> Inr a)"

definition AgentByClientID :: "string \<Rightarrow> v20State \<Rightarrow> storage_error + Agent" where
  "AgentByClientID clientID v =
     (case gm_get (v_agentsByClientID v) clientID of
        None \<Rightarrow> Inl ErrStorageNotFound
      | Some i \<Rightarrow> Inr (gm_read zero_Agent (v_agents v) i))"

definition owned_by :: "AgentOwner \<Rightarrow> Agent \<Rightarrow> bool" where
  "owned_by owner a \<longleftrightarrow>
     (ao_UserID owner \<noteq> None \<and> ag_OwnerUserID a \<noteq> None \<and> ag_OwnerUserID a = ao_UserID owner)
     \<or> (ao_OrganizationID owner \<noteq> None \<and> ag_OrganizationID a \<noteq> None
        \<and> ag_OrganizationID a = ao_OrganizationID owner)"

definition AgentsByOwner :: "AgentOwner \<Rightarrow> v20State \<Rightarrow> Agent list" where
  "AgentsByOwner owner v = sort_key ag_CreatedAt (filter (owned_by owner) (map snd (v_agents v)))"

definition UpdateAgentStatus :: "ULID \<Rightarrow> string \<Rightarrow> v20State \<Rightarrow> storage_error option \<times> v20State" where
  "UpdateAgentStatus i status v =
     (case gm_get (v_agents v) i of
        None \<Rightarrow> (Some ErrStorageNotFound, v)
      | Some a \<Rightarrow> (None, v\<lparr>v_agents := gm_put i (a\<lparr>ag_Status := status\<rparr>) (v_agents v)\<rparr>))"

definition UpdateAgentExpiry :: "ULID \<Rightarrow> time option \<Rightarrow> v20State \<Rightarrow> storage_error option \<times> v20State" where
  "UpdateAgentExpiry i expiresAt v =
     (case gm_get (v_agents v) i of
        None \<Rightarrow> (Some ErrStorageNotFound, v)
      | Some a \<Rightarrow> (None, v\<lparr>v_agents := gm_put i
                    (case expiresAt of None \<Rightarrow> a\<lparr>ag_ExpiresAt := None\<rparr>
                                     | Some t \<Rightarrow> a\<lparr>ag_ExpiresAt := Some t\<rparr>) (v_agents v)\<rparr>))"

definition UpdateAgentLastActive :: "ULID \<Rightarrow> time \<Rightarrow> v20State \<Rightarrow> storage_error option \<times> v20State" where
  "UpdateAgentLastActive i at v =
     (case gm_get (v_agents v) i of
        None \<Rightarrow> (Some ErrStorageNotFound, v)
      | Some a \<Rightarrow> (None, v\<lparr>v_agents := gm_put i (a\<lparr>ag_LastActiveAt := Some at\<rparr>) (v_agents v)\<rparr>))"

definition InsertAgentCredential ::
  "time \<Rightarrow> AgentCredential \<Rightarrow> v20State \<Rightarrow> storage_error option \<times> v20State" where
  "InsertAgentCredential now c v =
     (if gm_get (v_agentCredentials v) (cr_ID c) \<noteq> None then (Some ErrStorageNotFound, v)
      else
        (let c = (if IsZero (cr_CreatedAt c) then c\<lparr>cr_CreatedAt := now\<rparr> else c)
         in (None, v\<lparr>v_agentCredentials := gm_put (cr_ID c) c (v_agentCredentials v),
                     v_credsByAgent := gm_put (cr_AgentID c)
                       (gm_read [] (v_credsByAgent v) (cr_AgentID c) @ [cr_ID c]) (v_credsByAgent v)\<rparr>)))"

definition AgentCredentialsByAgentID :: "ULID \<Rightarrow> v20State \<Rightarrow> AgentCredential list" where
  "AgentCredentialsByAgentID agentID v =
     sort_key cr_CreatedAt (map (gm_read zero_AgentCredential (v_agentCredentials v))
       (gm_read [] (v_credsByAgent v) agentID))"

definition RevokeAgentCredential :: "ULID \<Rightarrow> time \<Rightarrow> v20State \<Rightarrow> storage_error option \<times> v20State" where
  "RevokeAgentCredential i at v =
     (case gm_get (v_agentCredentials v) i of
        None \<Rightarrow> (Some ErrStorageNotFound, v)
      | Some c \<Rightarrow> (None, v\<lparr>v_agentCredentials :=
                    gm_put i (c\<lparr>cr_RevokedAt := Some at\<rparr>) (v_agentCredentials v)\<rparr>))"

definition UpdateAgentCredentialLastUsed ::
  "ULID \<Rightarrow> time \<Rightarrow> v20State \<Rightarrow> storage_error option \<times> v20State" where
  "UpdateAgentCredentialLastUsed i at v =
     (case gm_get (v_agentCredentials v) i of
        None \<Rightarrow> (Some ErrStorageNotFound, v)
      | Some c \<Rightarrow> (None, v\<lparr>v_agentCredentials :=
                    gm_put i (c\<lparr>cr_LastUsedAt := Some at\<rparr>) (v_agentCredentials v)\<rparr>))"

section \<open>Delegation grants\<close>

definition InsertDelegationGrant ::
  "time \<Rightarrow> DelegationGrant \<Rightarrow> v20State \<Rightarrow> (storage_error + DelegationGrant) \<times> v20State" where
  "InsertDelegationGrant now g v =
     (let key = delegationTupleKey (dg_UserID g) (dg_AgentID g) (dg_Resource g);
          dup = gm_get (v_delegByTuple v) key
      in if (case dup of None \<Rightarrow> False
             | Some i \<Rightarrow> dg_RevokedAt (gm_read zero_DelegationGrant (v_delegations v) i) = None)
         then (Inl ErrStorageNotFound, v)
         else
           (let tuples = (if dup = None then v_delegByTuple v else gm_del key (v_delegByTuple v));
                g = (if IsZero (dg_CreatedAt g) then g\<lparr>dg_CreatedAt := now\<rparr> else g)
            in (Inr g, v\<lparr>v_delegations := gm_put (dg_ID g) g (v_delegations v),
                 v_delegByTuple := gm_put key (dg_ID g) tuples,
                 v_delegByUser := gm_put (dg_UserID g)
                   (gm_read [] (v_delegByUser v) (dg_UserID g) @ [dg_ID g]) (v_delegByUser v),
                 v_delegByAgent := gm_put (dg_AgentID g)
                   (gm_read [] (v_delegByAgent v) (dg_AgentID g) @ [dg_ID g]) (v_delegByAgent v)\<rparr>)))"

definition DelegationGrantByID :: "ULID \<Rightarrow> v20State \<Rightarrow> storage_error + DelegationGrant" where
  "DelegationGrantByID i v =
     (case gm_get (v_delegations v) i of None \<Rightarrow> Inl ErrStorageNotFound | Some g \<Rightarrow> Inr g)"

definition DelegationGrantByUserAgentResource ::
  "ULID \<Rightarrow> ULID \<Rightarrow> string \<Rightarrow> v20State \<Rightarrow> storage_error + DelegationGrant" where
  "DelegationGrantByUserAgentResource userID agentID resource v =
     (case gm_get (v_delegByTuple v) (delegationTupleKey userID agentID resource) of
        None \<Rightarrow> Inl ErrStorageNotFound
      | Some i \<Rightarrow> Inr (gm_read zero_DelegationGrant (v_delegations v) i))"

definition DelegationGrantsByUserID :: "ULID \<Rightarrow> v20State \<Rightarrow> DelegationGrant list" where
  "DelegationGrantsByUserID userID v =
     sort_key dg_CreatedAt (map (gm_read zero_DelegationGrant (v_delegations v))
       (gm_read [] (v_delegByUser v) userID))"

definition DelegationGrantsByAgentID :: "ULID \<Rightarrow> v20State \<Rightarrow> DelegationGrant list" where
  "DelegationGrantsByAgentID agentID v =
     sort_key dg_CreatedAt (map (gm_read zero_DelegationGrant (v_delegations v))
       (gm_read [] (v_delegByAgent v) agentID))"

definition RevokeDelegationGrant ::
  "ULID \<Rightarrow> time \<Rightarrow> string \<Rightarrow> v20State \<Rightarrow> storage_error option \<times> v20State" where
  "RevokeDelegationGrant i at reason v =
     (case gm_get (v_delegations v) i of
        None \<Rightarrow> (Some ErrStorageNotFound, v)
      | Some g \<Rightarrow>
          if dg_RevokedAt g \<noteq> None then (Some ErrStorageNotFound, v)
          else (None, v\<lparr>v_delegations := gm_put i
                 (g\<lparr>dg_RevokedAt := Some at, dg_RevocationNote := reason\<rparr>) (v_delegations v)\<rparr>))"

section \<open>The denylist and the reference tokens\<close>

definition DenyAccessToken :: "time \<Rightarrow> string \<Rightarrow> time \<Rightarrow> v20State \<Rightarrow> v20State" where
  "DenyAccessToken now jti expiresAt v =
     v\<lparr>v_deniedJTIs := gm_put jti expiresAt (gm_drop (\<lambda>k exp. \<not> exp > now) (v_deniedJTIs v))\<rparr>"

definition IsAccessTokenDenied :: "time \<Rightarrow> string \<Rightarrow> v20State \<Rightarrow> bool" where
  "IsAccessTokenDenied now jti v =
     (case gm_get (v_deniedJTIs v) jti of None \<Rightarrow> False | Some exp \<Rightarrow> exp > now)"

definition InsertOpaqueAccessToken :: "time \<Rightarrow> OpaqueAccessToken \<Rightarrow> v20State \<Rightarrow> v20State" where
  "InsertOpaqueAccessToken now t v =
     v\<lparr>v_opaque := gm_put (bytesHexKey (oa_Hash t)) t
         (gm_drop (\<lambda>k ot. oa_ExpiresAt ot < now - 60 * minute) (v_opaque v))\<rparr>"

definition OpaqueAccessTokenByHash :: "string \<Rightarrow> v20State \<Rightarrow> storage_error + OpaqueAccessToken" where
  "OpaqueAccessTokenByHash hash v =
     (case gm_get (v_opaque v) (bytesHexKey hash) of
        None \<Rightarrow> Inl ErrStorageNotFound | Some t \<Rightarrow> Inr t)"

definition RevokeOpaqueAccessToken :: "time \<Rightarrow> string \<Rightarrow> v20State \<Rightarrow> v20State" where
  "RevokeOpaqueAccessToken now hash v =
     (let key = bytesHexKey hash in
      case gm_get (v_opaque v) key of
        None \<Rightarrow> v
      | Some t \<Rightarrow> if oa_RevokedAt t \<noteq> None then v
                  else v\<lparr>v_opaque := gm_put key (t\<lparr>oa_RevokedAt := Some now\<rparr>) (v_opaque v)\<rparr>)"

section \<open>Keys\<close>

lemma of_char_lt_256: "(of_char c :: nat) < 256"
  using range_nat_of_char by (metis atLeastLessThan_iff rangeI)

lemma hexAlphabet_distinct: "distinct hexAlphabet" and hexAlphabet_length: "length hexAlphabet = 16"
  by (simp_all add: hexAlphabet_def)

lemma hex_pair_inj:
  assumes "hexAlphabet ! (of_char c div 16) = hexAlphabet ! (of_char d div 16)"
    and "hexAlphabet ! (of_char c mod 16) = hexAlphabet ! (of_char d mod 16)"
  shows "c = d"
proof -
  have lt: "(of_char x :: nat) div 16 < 16" "(of_char x :: nat) mod 16 < 16" for x
    using of_char_lt_256 [of x] by (auto simp: less_mult_imp_div_less)
  have "(of_char c :: nat) div 16 = of_char d div 16" "(of_char c :: nat) mod 16 = of_char d mod 16"
    using assms lt hexAlphabet_distinct by (simp_all add: hexAlphabet_length nth_eq_iff_index_eq)
  then have "(of_char c :: nat) = of_char d"
    by (metis div_mult_mod_eq)
  then show ?thesis by simp
qed

lemma bytesHexKey_Cons:
  "bytesHexKey (c # cs)
     = [hexAlphabet ! (of_char c div 16), hexAlphabet ! (of_char c mod 16)] @ bytesHexKey cs"
  by (simp add: bytesHexKey_def)

lemma bytesHexKey_inj: "bytesHexKey a = bytesHexKey b \<longleftrightarrow> a = b"
proof
  show "bytesHexKey a = bytesHexKey b \<Longrightarrow> a = b"
  proof (induction a arbitrary: b)
    case Nil
    then show ?case by (cases b) (simp_all add: bytesHexKey_def)
  next
    case (Cons c cs)
    then show ?case
      by (cases b) (auto simp: bytesHexKey_Cons bytesHexKey_def [of "[]"] dest: hex_pair_inj)
  qed
qed simp

lemma delegationTupleKey_inj:
  assumes "length u = length u'" and "length a = length a'"
  shows "delegationTupleKey u a r = delegationTupleKey u' a' r' \<longleftrightarrow> u = u' \<and> a = a' \<and> r = r'"
  using assms by (auto simp: delegationTupleKey_def)

lemma gm_read_put [simp]: "gm_read z (gm_put k v m) k' = (if k' = k then v else gm_read z m k')"
  by (simp add: gm_read_def)

lemma gm_read_Some: "gm_get m k = Some v \<Longrightarrow> gm_read z m k = v"
  by (simp add: gm_read_def)

section \<open>Refresh token families\<close>

text \<open>What revoking a row does to it: a revoked row keeps its first revocation.\<close>

definition revoke_row :: "time \<Rightarrow> string \<Rightarrow> RefreshToken \<Rightarrow> RefreshToken" where
  "revoke_row now reason t =
     (if rt_RevokedAt t = None then t\<lparr>rt_RevokedAt := Some now, rt_RevocationNote := reason\<rparr> else t)"

lemma revoke_row_sel [simp]:
  "rt_Hash (revoke_row now reason t) = rt_Hash t"
  "rt_FamilyID (revoke_row now reason t) = rt_FamilyID t"
  "rt_ClientID (revoke_row now reason t) = rt_ClientID t"
  "rt_AuthCodeHash (revoke_row now reason t) = rt_AuthCodeHash t"
  "rt_RevokedAt (revoke_row now reason t) \<noteq> None"
  "\<exists>y. rt_RevokedAt (revoke_row now reason t) = Some y"
  "revoke_row now' reason' (revoke_row now reason t) = revoke_row now reason t"
  by (auto simp: revoke_row_def)

lemma gm_get_revoke_keys:
  "gm_get (snd (revoke_keys now reason ks m)) k
     = (if k \<in> set ks then Some (revoke_row now reason (gm_read zero_RefreshToken m k))
        else gm_get m k)"
proof (induction ks arbitrary: m k)
  case Nil
  then show ?case by simp
next
  case (Cons k0 ks)
  show ?case
  proof (cases "rt_RevokedAt (gm_read zero_RefreshToken m k0) = None")
    case True
    then have "snd (revoke_keys now reason (k0 # ks) m) = snd (revoke_keys now reason ks
        (gm_put k0 (revoke_row now reason (gm_read zero_RefreshToken m k0)) m))"
      by (simp add: revoke_row_def Let_def split: prod.splits)
    then show ?thesis by (simp add: Cons.IH)
  next
    case False
    then have "gm_get m k0 = Some (gm_read zero_RefreshToken m k0)"
      by (auto simp: gm_read_def zero_RefreshToken_def split: option.splits)
    moreover from False have "snd (revoke_keys now reason (k0 # ks) m) = snd (revoke_keys now reason ks m)"
      by (auto simp: Let_def)
    ultimately show ?thesis using False by (auto simp: Cons.IH revoke_row_def)
  qed
qed

lemma gm_read_revoke_keys:
  "k \<notin> set ks \<Longrightarrow> gm_read z (snd (revoke_keys now reason ks m)) k = gm_read z m k"
  by (simp only: gm_read_def gm_get_revoke_keys if_False)

lemma revoke_keys_jtis:
  "j \<in> set (fst (revoke_keys now reason ks m)) \<longleftrightarrow>
     (\<exists>k\<in>set ks. rt_RevokedAt (gm_read zero_RefreshToken m k) = None
        \<and> rt_ParentJTI (gm_read zero_RefreshToken m k) = j)"
proof (induction ks arbitrary: m)
  case Nil
  then show ?case by simp
next
  case (Cons k0 ks)
  show ?case
  proof (cases "rt_RevokedAt (gm_read zero_RefreshToken m k0) = None")
    case True
    then have "fst (revoke_keys now reason (k0 # ks) m)
      = rt_ParentJTI (gm_read zero_RefreshToken m k0) # fst (revoke_keys now reason ks
          (gm_put k0 (revoke_row now reason (gm_read zero_RefreshToken m k0)) m))"
      by (simp add: revoke_row_def Let_def split: prod.splits)
    then show ?thesis using True by (auto simp: Cons.IH)
  next
    case False
    then show ?thesis by (auto simp: Cons.IH Let_def)
  qed
qed

lemma gm_get_revoke_families:
  "gm_get (snd (revoke_families now reason fs byF m)) k
     = (if \<exists>f\<in>set fs. k \<in> set (gm_read [] byF f)
        then Some (revoke_row now reason (gm_read zero_RefreshToken m k)) else gm_get m k)"
proof (induction fs arbitrary: m)
  case Nil
  then show ?case by simp
next
  case (Cons f fs)
  have "snd (revoke_families now reason (f # fs) byF m)
    = snd (revoke_families now reason fs byF (snd (revoke_keys now reason (gm_read [] byF f) m)))"
    by (simp split: prod.splits)
  then show ?case by (auto simp: Cons.IH gm_get_revoke_keys gm_read_def)
qed

lemma gm_ok_revoke_keys: "gm_ok m \<Longrightarrow> gm_ok (snd (revoke_keys now reason ks m))"
proof (induction ks arbitrary: m)
  case Nil
  then show ?case by simp
next
  case (Cons k0 ks)
  then show ?case by (auto simp: Let_def split: prod.splits) (metis gm_ok_put snd_conv)
qed

lemma gm_ok_revoke_families: "gm_ok m \<Longrightarrow> gm_ok (snd (revoke_families now reason fs byF m))"
proof (induction fs arbitrary: m)
  case Nil
  then show ?case by simp
next
  case (Cons f fs)
  have "snd (revoke_families now reason (f # fs) byF m)
    = snd (revoke_families now reason fs byF (snd (revoke_keys now reason (gm_read [] byF f) m)))"
    by (simp split: prod.splits)
  with Cons show ?case by (simp add: gm_ok_revoke_keys)
qed

text \<open>
  The index by family agrees with the tokens: a token is stored under the key of its hash and listed
  in its family, and a listed key names a token of that family.
\<close>

definition tokens_ok :: "v20State \<Rightarrow> bool" where
  "tokens_ok v \<longleftrightarrow> gm_ok (v_refreshTokens v)
     \<and> (\<forall>k t. gm_get (v_refreshTokens v) k = Some t \<longrightarrow>
            k = bytesHexKey (rt_Hash t) \<and> k \<in> set (gm_read [] (v_refreshTokensByF v) (rt_FamilyID t)))
     \<and> (\<forall>f k. k \<in> set (gm_read [] (v_refreshTokensByF v) f) \<longrightarrow>
            (\<exists>t. gm_get (v_refreshTokens v) k = Some t \<and> rt_FamilyID t = f))"

definition token_row :: "v20State \<Rightarrow> string \<Rightarrow> RefreshToken option" where
  "token_row v h = gm_get (v_refreshTokens v) (bytesHexKey h)"

text \<open>The hashes of a family's tokens that are not revoked.\<close>

definition live_of :: "(string \<Rightarrow> RefreshToken option) \<Rightarrow> ULID \<Rightarrow> string set" where
  "live_of rows f = {h. \<exists>t. rows h = Some t \<and> rt_FamilyID t = f \<and> rt_RevokedAt t = None}"

lemma tokens_okD:
  assumes "tokens_ok v"
  shows "token_row v h = Some t \<Longrightarrow> rt_Hash t = h"
    and "token_row v h = Some t \<Longrightarrow>
          bytesHexKey h \<in> set (gm_read [] (v_refreshTokensByF v) (rt_FamilyID t))"
    and "k \<in> set (gm_read [] (v_refreshTokensByF v) f) \<Longrightarrow>
          \<exists>h t. k = bytesHexKey h \<and> token_row v h = Some t \<and> rt_FamilyID t = f"
proof -
  show "token_row v h = Some t \<Longrightarrow> rt_Hash t = h"
    using assms unfolding tokens_ok_def token_row_def by (metis bytesHexKey_inj)
  show "token_row v h = Some t \<Longrightarrow>
      bytesHexKey h \<in> set (gm_read [] (v_refreshTokensByF v) (rt_FamilyID t))"
    using assms unfolding tokens_ok_def token_row_def by blast
  show "k \<in> set (gm_read [] (v_refreshTokensByF v) f) \<Longrightarrow>
      \<exists>h t. k = bytesHexKey h \<and> token_row v h = Some t \<and> rt_FamilyID t = f"
    using assms unfolding tokens_ok_def token_row_def by metis
qed

text \<open>The scan after a failed keyed lookup never finds anything.\<close>

lemma RefreshTokenByHash_row:
  assumes "tokens_ok v"
  shows "RefreshTokenByHash h v
           = (case token_row v h of None \<Rightarrow> Inl ErrStorageNotFound | Some t \<Rightarrow> Inr t)"
proof (cases "token_row v h")
  case None
  have "find (\<lambda>c. rt_Hash c = h) (map snd (v_refreshTokens v)) = None"
  proof (rule ccontr)
    assume "find (\<lambda>c. rt_Hash c = h) (map snd (v_refreshTokens v)) \<noteq> None"
    then obtain c k where c: "(k, c) \<in> set (v_refreshTokens v)" "rt_Hash c = h"
      by (auto simp: find_None_iff)
    then have "gm_get (v_refreshTokens v) k = Some c"
      using assms by (simp add: tokens_ok_def gm_get_Some_iff)
    moreover from this have "k = bytesHexKey h"
      using assms c unfolding tokens_ok_def by metis
    ultimately show False using None by (simp add: token_row_def)
  qed
  with None show ?thesis by (simp add: RefreshTokenByHash_def token_row_def)
next
  case (Some t)
  then show ?thesis by (simp add: RefreshTokenByHash_def token_row_def)
qed

lemma token_row_InsertRefreshToken:
  "token_row (InsertRefreshToken t v) h = (if h = rt_Hash t then Some t else token_row v h)"
  by (simp add: token_row_def InsertRefreshToken_def Let_def bytesHexKey_inj)

lemma tokens_ok_InsertRefreshToken:
  assumes ok: "tokens_ok v" and new: "token_row v (rt_Hash t) = None"
  shows "tokens_ok (InsertRefreshToken t v)"
proof -
  let ?k = "bytesHexKey (rt_Hash t)"
  have notin: "?k \<notin> set (gm_read [] (v_refreshTokensByF v) f)" for f
    using ok new unfolding tokens_ok_def token_row_def by force
  show ?thesis
    using ok notin unfolding tokens_ok_def InsertRefreshToken_def
    by (auto simp: Let_def) metis
qed

lemma RevokeRefreshToken_row:
  "fst (RevokeRefreshToken now hash reason v) = None \<longleftrightarrow>
     (\<exists>t. token_row v hash = Some t \<and> rt_RevokedAt t = None)"
  "token_row (snd (RevokeRefreshToken now hash reason v)) h
     = (if h = hash then map_option (revoke_row now reason) (token_row v h) else token_row v h)"
  by (auto simp: RevokeRefreshToken_def token_row_def revoke_row_def Let_def bytesHexKey_inj
      split: option.splits)

lemma tokens_ok_RevokeRefreshToken:
  "tokens_ok v \<Longrightarrow> tokens_ok (snd (RevokeRefreshToken now hash reason v))"
  unfolding tokens_ok_def RevokeRefreshToken_def
  by (auto simp: Let_def split: option.splits if_splits) (metis option.inject)

lemma token_row_RevokeRefreshTokenFamily:
  assumes "tokens_ok v"
  shows "token_row (RevokeRefreshTokenFamily now f reason v) h
    = (case token_row v h of None \<Rightarrow> None
       | Some t \<Rightarrow> Some (if rt_FamilyID t = f then revoke_row now reason t else t))"
proof -
  have "token_row (RevokeRefreshTokenFamily now f reason v) h
      = (if bytesHexKey h \<in> set (gm_read [] (v_refreshTokensByF v) f)
         then Some (revoke_row now reason (gm_read zero_RefreshToken (v_refreshTokens v) (bytesHexKey h)))
         else token_row v h)"
    by (simp add: RevokeRefreshTokenFamily_def token_row_def gm_get_revoke_keys gm_read_def
        split: option.splits)
  moreover have "bytesHexKey h \<in> set (gm_read [] (v_refreshTokensByF v) f) \<longleftrightarrow>
      (\<exists>t. token_row v h = Some t \<and> rt_FamilyID t = f)"
    using assms unfolding tokens_ok_def token_row_def by blast
  ultimately show ?thesis
    by (auto simp: token_row_def gm_read_def split: option.splits)
qed

lemma tokens_ok_rows:
  assumes ok: "tokens_ok v" and okm: "gm_ok m"
    and byF: "v_refreshTokensByF v' = v_refreshTokensByF v" and m: "v_refreshTokens v' = m"
    and row: "\<And>k. gm_get m k = None \<longleftrightarrow> gm_get (v_refreshTokens v) k = None"
    and same: "\<And>k t t'. gm_get (v_refreshTokens v) k = Some t \<Longrightarrow> gm_get m k = Some t' \<Longrightarrow>
         rt_Hash t' = rt_Hash t \<and> rt_FamilyID t' = rt_FamilyID t"
  shows "tokens_ok v'"
proof -
  have "k = bytesHexKey (rt_Hash t) \<and> k \<in> set (gm_read [] (v_refreshTokensByF v) (rt_FamilyID t))"
    if t: "gm_get m k = Some t" for k t
  proof -
    from row [of k] t obtain t0 where "gm_get (v_refreshTokens v) k = Some t0" by fastforce
    with same [OF this t] ok show ?thesis unfolding tokens_ok_def by metis
  qed
  moreover have "\<exists>t. gm_get m k = Some t \<and> rt_FamilyID t = f"
    if "k \<in> set (gm_read [] (v_refreshTokensByF v) f)" for f k
  proof -
    from that ok obtain t0 where t0: "gm_get (v_refreshTokens v) k = Some t0" "rt_FamilyID t0 = f"
      unfolding tokens_ok_def by blast
    with row [of k] obtain t where "gm_get m k = Some t" by fastforce
    with same [OF t0(1) this] t0 show ?thesis by auto
  qed
  ultimately show ?thesis using okm by (simp add: tokens_ok_def byF m)
qed

lemma tokens_ok_RevokeRefreshTokenFamily:
  assumes "tokens_ok v"
  shows "tokens_ok (RevokeRefreshTokenFamily now f reason v)"
proof (cases "gm_get (v_refreshTokensByF v) f")
  case None
  with assms show ?thesis by (simp add: RevokeRefreshTokenFamily_def)
next
  case (Some keys)
  let ?m = "snd (revoke_keys now reason keys (v_refreshTokens v))"
  have keys: "gm_get (v_refreshTokens v) k \<noteq> None" if "k \<in> set keys" for k
    using assms that Some unfolding tokens_ok_def by (metis gm_read_Some option.distinct(1))
  have "tokens_ok (v\<lparr>v_refreshTokens := ?m\<rparr>)"
  proof (rule tokens_ok_rows [OF assms, where m = ?m])
    show "gm_ok ?m" using assms by (simp add: tokens_ok_def gm_ok_revoke_keys)
    show "gm_get ?m k = None \<longleftrightarrow> gm_get (v_refreshTokens v) k = None" for k
      using keys by (auto simp: gm_get_revoke_keys)
    show "rt_Hash t' = rt_Hash t \<and> rt_FamilyID t' = rt_FamilyID t"
      if "gm_get (v_refreshTokens v) k = Some t" "gm_get ?m k = Some t'" for k t t'
      using that by (auto simp: gm_get_revoke_keys gm_read_def split: if_splits)
  qed simp_all
  with Some show ?thesis by (simp add: RevokeRefreshTokenFamily_def)
qed

text \<open>The families a code was redeemed into.\<close>

definition families_in :: "(string \<Rightarrow> RefreshToken option) \<Rightarrow> string \<Rightarrow> ULID set" where
  "families_in rows c = {f. \<exists>h t. rows h = Some t \<and> rt_AuthCodeHash t = c \<and> rt_FamilyID t = f}"

lemma families_of_code:
  assumes "tokens_ok v"
  shows "set (add_new [] (map rt_FamilyID
      (filter (\<lambda>t. rt_AuthCodeHash t = c) (map snd (v_refreshTokens v))))) = families_in (token_row v) c"
proof -
  have "(\<exists>k t. (k, t) \<in> set (v_refreshTokens v) \<and> rt_AuthCodeHash t = c \<and> rt_FamilyID t = f)
      \<longleftrightarrow> f \<in> families_in (token_row v) c" for f
  proof -
    have "(k, t) \<in> set (v_refreshTokens v) \<longleftrightarrow> (\<exists>h. k = bytesHexKey h \<and> token_row v h = Some t)" for k t
      using assms unfolding tokens_ok_def token_row_def by (metis gm_get_Some_iff)
    then show ?thesis by (auto simp: families_in_def)
  qed
  then show ?thesis by (force simp: image_iff)
qed

lemma RevokeRefreshTokensByAuthCode_rows:
  assumes "tokens_ok v" and "c \<noteq> []"
  shows "token_row (snd (RevokeRefreshTokensByAuthCode now c reason v)) h
    = (case token_row v h of None \<Rightarrow> None
       | Some t \<Rightarrow> Some (if rt_FamilyID t \<in> families_in (token_row v) c then revoke_row now reason t else t))"
proof -
  let ?fs = "add_new [] (map rt_FamilyID
      (filter (\<lambda>t. rt_AuthCodeHash t = c) (map snd (v_refreshTokens v))))"
  have "token_row (snd (RevokeRefreshTokensByAuthCode now c reason v)) h
      = gm_get (snd (revoke_families now reason ?fs (v_refreshTokensByF v) (v_refreshTokens v))) (bytesHexKey h)"
    using assms(2) by (simp add: RevokeRefreshTokensByAuthCode_def token_row_def Let_def split: prod.splits)
  also have "\<dots> = (if \<exists>f\<in>families_in (token_row v) c. bytesHexKey h \<in> set (gm_read [] (v_refreshTokensByF v) f)
         then Some (revoke_row now reason (gm_read zero_RefreshToken (v_refreshTokens v) (bytesHexKey h)))
         else token_row v h)"
    by (simp only: gm_get_revoke_families families_of_code [OF assms(1)] token_row_def)
  also have "(\<exists>f\<in>families_in (token_row v) c. bytesHexKey h \<in> set (gm_read [] (v_refreshTokensByF v) f)) \<longleftrightarrow>
      (\<exists>t. token_row v h = Some t \<and> rt_FamilyID t \<in> families_in (token_row v) c)"
    using assms(1) unfolding tokens_ok_def token_row_def by blast
  finally show ?thesis
    by (auto simp: token_row_def gm_read_def split: option.splits)
qed

lemma RevokeRefreshTokensByAuthCode_byF:
  "v_refreshTokensByF (snd (RevokeRefreshTokensByAuthCode now c reason v)) = v_refreshTokensByF v"
  by (simp add: RevokeRefreshTokensByAuthCode_def Let_def split: prod.splits)

lemma tokens_ok_RevokeRefreshTokensByAuthCode:
  assumes "tokens_ok v"
  shows "tokens_ok (snd (RevokeRefreshTokensByAuthCode now c reason v))"
proof (cases "c = []")
  case True
  with assms show ?thesis by (simp add: RevokeRefreshTokensByAuthCode_def)
next
  case False
  let ?fs = "add_new [] (map rt_FamilyID
      (filter (\<lambda>t. rt_AuthCodeHash t = c) (map snd (v_refreshTokens v))))"
  let ?m = "snd (revoke_families now reason ?fs (v_refreshTokensByF v) (v_refreshTokens v))"
  have keys: "gm_get (v_refreshTokens v) k \<noteq> None" if "k \<in> set (gm_read [] (v_refreshTokensByF v) f)" for f k
    using assms that unfolding tokens_ok_def by fastforce
  have "tokens_ok (v\<lparr>v_refreshTokens := ?m\<rparr>)"
  proof (rule tokens_ok_rows [OF assms, where m = ?m])
    show "gm_ok ?m" using assms by (simp add: tokens_ok_def gm_ok_revoke_families)
    show "gm_get ?m k = None \<longleftrightarrow> gm_get (v_refreshTokens v) k = None" for k
      using keys by (auto simp: gm_get_revoke_families)
    show "rt_Hash t' = rt_Hash t \<and> rt_FamilyID t' = rt_FamilyID t"
      if "gm_get (v_refreshTokens v) k = Some t" "gm_get ?m k = Some t'" for k t t'
      using that by (auto simp: gm_get_revoke_families gm_read_def split: if_splits)
  qed simp_all
  with False show ?thesis
    by (auto simp: RevokeRefreshTokensByAuthCode_def Let_def split: prod.splits)
qed

text \<open>Revoking by a code reports the access tokens of exactly the refresh tokens it revoked.\<close>

lemma revoke_families_jtis:
  assumes "distinct fs" and "\<And>f g. f \<in> set fs \<Longrightarrow> g \<in> set fs \<Longrightarrow> f \<noteq> g \<Longrightarrow>
     set (gm_read [] byF f) \<inter> set (gm_read [] byF g) = {}"
  shows "j \<in> set (fst (revoke_families now reason fs byF m)) \<longleftrightarrow>
     (\<exists>f\<in>set fs. \<exists>k\<in>set (gm_read [] byF f). rt_RevokedAt (gm_read zero_RefreshToken m k) = None
        \<and> rt_ParentJTI (gm_read zero_RefreshToken m k) = j)"
  using assms
proof (induction fs arbitrary: m)
  case Nil
  then show ?case by simp
next
  case (Cons f fs)
  let ?m = "snd (revoke_keys now reason (gm_read [] byF f) m)"
  have same: "gm_read zero_RefreshToken ?m k = gm_read zero_RefreshToken m k"
    if "g \<in> set fs" "k \<in> set (gm_read [] byF g)" for g k
  proof -
    from that Cons.prems have "k \<notin> set (gm_read [] byF f)" by force
    then show ?thesis by (simp add: gm_read_revoke_keys)
  qed
  have "j \<in> set (fst (revoke_families now reason fs byF ?m)) \<longleftrightarrow>
     (\<exists>g\<in>set fs. \<exists>k\<in>set (gm_read [] byF g). rt_RevokedAt (gm_read zero_RefreshToken ?m k) = None
        \<and> rt_ParentJTI (gm_read zero_RefreshToken ?m k) = j)"
    by (rule Cons.IH) (use Cons.prems in auto)
  also have "\<dots> \<longleftrightarrow> (\<exists>g\<in>set fs. \<exists>k\<in>set (gm_read [] byF g).
        rt_RevokedAt (gm_read zero_RefreshToken m k) = None
        \<and> rt_ParentJTI (gm_read zero_RefreshToken m k) = j)"
    using same by (intro bex_cong refl) simp
  finally have tail: "j \<in> set (fst (revoke_families now reason fs byF ?m)) \<longleftrightarrow>
     (\<exists>g\<in>set fs. \<exists>k\<in>set (gm_read [] byF g). rt_RevokedAt (gm_read zero_RefreshToken m k) = None
        \<and> rt_ParentJTI (gm_read zero_RefreshToken m k) = j)" .
  have "fst (revoke_families now reason (f # fs) byF m)
      = fst (revoke_keys now reason (gm_read [] byF f) m) @ fst (revoke_families now reason fs byF ?m)"
    by (simp split: prod.splits)
  then show ?case by (simp only: set_append Un_iff revoke_keys_jtis tail) simp
qed

text \<open>Stored rows are never dropped, never change owner or family, and stay revoked.\<close>

definition rows_grow :: "(string \<Rightarrow> RefreshToken option) \<Rightarrow> (string \<Rightarrow> RefreshToken option) \<Rightarrow> bool" where
  "rows_grow rows rows' \<longleftrightarrow> (\<forall>h t. rows h = Some t \<longrightarrow>
     (\<exists>t'. rows' h = Some t' \<and> rt_FamilyID t' = rt_FamilyID t \<and> rt_ClientID t' = rt_ClientID t
       \<and> (rt_RevokedAt t \<noteq> None \<longrightarrow> t' = t)))"

section \<open>The contract of refresh token storage\<close>

text \<open>
  What the token endpoint relies on (\<open>src/internal/as/storage.go\<close>), over the stored row of a hash:
  a conditional revocation that succeeds exactly on a live row, two bulk revocations, and an insert.
  \<open>live_of\<close> then moves as the rotation protocol needs it.
\<close>

locale refresh_storage =
  fixes ok :: "'s \<Rightarrow> bool"
    and row :: "'s \<Rightarrow> string \<Rightarrow> RefreshToken option"
    and by_hash :: "string \<Rightarrow> 's \<Rightarrow> storage_error + RefreshToken"
    and ins :: "RefreshToken \<Rightarrow> 's \<Rightarrow> 's"
    and rev1 :: "time \<Rightarrow> string \<Rightarrow> string \<Rightarrow> 's \<Rightarrow> storage_error option \<times> 's"
    and rev_family :: "time \<Rightarrow> ULID \<Rightarrow> string \<Rightarrow> 's \<Rightarrow> 's"
    and rev_code :: "time \<Rightarrow> string \<Rightarrow> string \<Rightarrow> 's \<Rightarrow> string list \<times> 's"
  assumes by_hash_row: "ok s \<Longrightarrow>
        by_hash h s = (case row s h of None \<Rightarrow> Inl ErrStorageNotFound | Some t \<Rightarrow> Inr t)"
    and hash_row: "ok s \<Longrightarrow> row s h = Some t \<Longrightarrow> rt_Hash t = h"
    and ins_ok: "ok s \<Longrightarrow> row s (rt_Hash t) = None \<Longrightarrow> ok (ins t s)"
    and ins_row: "row (ins t s) h = (if h = rt_Hash t then Some t else row s h)"
    and rev1_ok: "ok s \<Longrightarrow> ok (snd (rev1 now hash reason s))"
    and rev1_wins: "fst (rev1 now hash reason s) = None \<longleftrightarrow>
        (\<exists>t. row s hash = Some t \<and> rt_RevokedAt t = None)"
    and rev1_row: "row (snd (rev1 now hash reason s)) h
        = (if h = hash then map_option (revoke_row now reason) (row s h) else row s h)"
    and rev_family_ok: "ok s \<Longrightarrow> ok (rev_family now f reason s)"
    and rev_family_row: "ok s \<Longrightarrow> row (rev_family now f reason s) h
        = (case row s h of None \<Rightarrow> None
           | Some t \<Rightarrow> Some (if rt_FamilyID t = f then revoke_row now reason t else t))"
    and rev_code_ok: "ok s \<Longrightarrow> ok (snd (rev_code now c reason s))"
    and rev_code_row: "ok s \<Longrightarrow> c \<noteq> [] \<Longrightarrow> row (snd (rev_code now c reason s)) h
        = (case row s h of None \<Rightarrow> None
           | Some t \<Rightarrow> Some (if rt_FamilyID t \<in> families_in (row s) c then revoke_row now reason t else t))"
begin

lemma live_ins:
  "row s (rt_Hash t) = None \<Longrightarrow> live_of (row (ins t s)) f
     = live_of (row s) f \<union> (if f = rt_FamilyID t \<and> rt_RevokedAt t = None then {rt_Hash t} else {})"
  by (auto simp: live_of_def ins_row split: if_splits)

lemma live_rev1: "live_of (row (snd (rev1 now hash reason s))) f = live_of (row s) f - {hash}"
  by (auto simp: live_of_def rev1_row split: if_splits)

lemma live_rev_family:
  "ok s \<Longrightarrow> live_of (row (rev_family now f reason s)) f' = (if f' = f then {} else live_of (row s) f')"
  by (auto simp: live_of_def rev_family_row split: option.splits if_splits)

lemma live_rev_code:
  "ok s \<Longrightarrow> c \<noteq> [] \<Longrightarrow> live_of (row (snd (rev_code now c reason s))) f
     = (if f \<in> families_in (row s) c then {} else live_of (row s) f)"
  by (auto simp: live_of_def rev_code_row split: option.splits if_splits)

text \<open>The row that wins a conditional revocation was live, and no second attempt on it wins.\<close>

lemma rev1_live:
  "fst (rev1 now hash reason s) = None \<longleftrightarrow> (\<exists>f. hash \<in> live_of (row s) f)"
  by (auto simp: rev1_wins live_of_def)

lemma rev1_once:
  assumes "\<And>t. row s hash = Some t \<Longrightarrow> row s' hash = Some t \<or> rt_RevokedAt (the (row s' hash)) \<noteq> None"
    and "row s hash \<noteq> None" and "row s' hash \<noteq> None"
    and "fst (rev1 now hash reason s) \<noteq> None"
  shows "fst (rev1 now' hash reason' s') \<noteq> None"
  using assms by (auto simp: rev1_wins)

lemma rows_grow_ops:
  "row s (rt_Hash t) = None \<Longrightarrow> rows_grow (row s) (row (ins t s))"
  "rows_grow (row s) (row (snd (rev1 now hash reason s)))"
  "ok s \<Longrightarrow> rows_grow (row s) (row (rev_family now f reason s))"
  "ok s \<Longrightarrow> c \<noteq> [] \<Longrightarrow> rows_grow (row s) (row (snd (rev_code now c reason s)))"
  by (auto simp: rows_grow_def ins_row rev1_row rev_family_row rev_code_row revoke_row_def)

end

interpretation rs: refresh_storage tokens_ok token_row RefreshTokenByHash InsertRefreshToken
  RevokeRefreshToken RevokeRefreshTokenFamily RevokeRefreshTokensByAuthCode
  by unfold_locales
    (auto simp: RefreshTokenByHash_row token_row_InsertRefreshToken RevokeRefreshToken_row
      token_row_RevokeRefreshTokenFamily RevokeRefreshTokensByAuthCode_rows
      intro: tokens_ok_InsertRefreshToken tokens_ok_RevokeRefreshToken
        tokens_ok_RevokeRefreshTokenFamily tokens_ok_RevokeRefreshTokensByAuthCode tokens_okD(1))

end
