(* ===== verification/AsCompat.thy ===== *)
theory AsCompat
  imports AsModels
begin

text \<open>
  The request vocabulary of the authorization server: resource identifiers, scopes and redirect URIs
  with the opt-in client compatibility switches (\<open>src/internal/as/compat.go\<close>, the helpers of
  \<open>service.go\<close> and \<open>authz.go\<close>), and the grant expiry that rides in a code or a refresh token
  (\<open>consent.go\<close>). \<open>url.Parse\<close> is a parameter, a function to an optional record of the parts the code
  reads. \<open>strings.ToLower\<close> and \<open>strings.Fields\<close> are modelled on ASCII.
\<close>

section \<open>Errors, configuration and library functions\<close>

datatype as_error =
    ErrOAuthInvalidRequest | ErrOAuthInvalidClient | ErrOAuthInvalidGrant | ErrOAuthInvalidScope
  | ErrOAuthUnsupportedResponseType | ErrOAuthInvalidAuthorizationDetails | ErrOAuthInvalidResource
  | ErrOAuthRedirectURIMismatch | ErrOAuthPKCEMismatch | ErrOAuthServerBusy | ErrScopeRequired
  | ErrDPoPRequired | ErrDPoPNonceRequired | ErrDPoPInvalid
  | ErrAuthorizeLoginRequired | ErrAuthorizeReauthRequired
  | ErrConsentTicketInvalid | ErrConsentDecisionInvalid
  | ErrOther string

record ClientCompat =
  cc_OptionalResource :: bool
  cc_DropUnknownScopes :: bool
  cc_LoopbackAnyPort :: bool
  cc_LoopbackAllowLocalhost :: bool
  cc_PathAudience :: bool

record TokenPolicyConfig =
  tp_SigningAlgs :: "string list"
  tp_DefaultAccessTokenFormat :: string

text \<open>The fields of \<open>Config\<close> the modelled operations read. \<open>cf_OIDC\<close> says whether OIDC is set;
  \<open>cf_MaxActorChainDepth\<close> is that of the JWT bearer settings, 0 without them.\<close>

record Config =
  cf_Issuer :: string
  cf_Resources :: "ProtectedResource list"
  cf_SigningAlg :: string
  cf_TokenPolicy :: "TokenPolicyConfig option"
  cf_AccessTokenTTL :: duration
  cf_RefreshTokenTTL :: duration
  cf_AuthorizationCodeTTL :: duration
  cf_ConsentMaxGrantTTL :: duration
  cf_RequireState :: bool
  cf_AccessTokenRevocation :: bool
  cf_ClientCompat :: ClientCompat
  cf_OIDC :: bool
  cf_ACRValues :: "(string, string) gomap"
  cf_ConsentTicketTTL :: duration
  cf_ClockSkew :: duration
  cf_IntrospectionCacheTTL :: duration
  cf_SubjectActiveCacheTTL :: duration
  cf_MaxActorChainDepth :: int

record url =
  u_Scheme :: string
  u_Opaque :: string
  u_User :: bool
  u_Host :: string
  u_Hostname :: string
  u_Port :: string
  u_Path :: string
  u_EscapedPath :: string
  u_RawQuery :: string
  u_Fragment :: string

type_synonym url_parse = "string \<Rightarrow> url option"

definition lower_char :: "char \<Rightarrow> char" where
  "lower_char c = (if CHR ''A'' \<le> c \<and> c \<le> CHR ''Z'' then char_of ((of_char c :: nat) + 32) else c)"

definition ToLower :: "string \<Rightarrow> string" where
  "ToLower s = map lower_char s"

definition TrimRight :: "string \<Rightarrow> char \<Rightarrow> string" where
  "TrimRight s c = rev (dropWhile (\<lambda>x. x = c) (rev s))"

fun Split :: "char \<Rightarrow> string \<Rightarrow> string list" where
  "Split c [] = [[]]"
| "Split c (x # xs) = (if x = c then [] # Split c xs
     else case Split c xs of [] \<Rightarrow> [[x]] | w # ws \<Rightarrow> (x # w) # ws)"

definition is_space :: "char \<Rightarrow> bool" where
  "is_space c \<longleftrightarrow> c \<in> {CHR 0x09, CHR 0x0A, CHR 0x0B, CHR 0x0C, CHR 0x0D, CHR 0x20}"

fun fields_acc :: "string \<Rightarrow> string \<Rightarrow> string list" where
  "fields_acc w [] = (if w = [] then [] else [rev w])"
| "fields_acc w (c # cs) =
     (if is_space c then (if w = [] then fields_acc [] cs else rev w # fields_acc [] cs)
      else fields_acc (c # w) cs)"

definition Fields :: "string \<Rightarrow> string list" where
  "Fields s = fields_acc [] s"

text \<open>\<open>strconv.ParseInt(s, 10, 64)\<close>, which \<open>strconv.Atoi\<close> is on a 64-bit platform.\<close>

fun digits_val :: "nat \<Rightarrow> string \<Rightarrow> nat option" where
  "digits_val n [] = Some n"
| "digits_val n (c # cs) = (let d = of_char c in
     if 48 \<le> d \<and> d \<le> 57 then digits_val (n * 10 + (d - 48)) cs else None)"

definition ParseInt :: "string \<Rightarrow> int option" where
  "ParseInt s =
     (let (neg, ds) = (case s of [] \<Rightarrow> (False, [])
                       | c # cs \<Rightarrow> if c = CHR ''-'' then (True, cs)
                                   else if c = CHR ''+'' then (False, cs) else (False, s))
      in if ds = [] then None
         else case digits_val 0 ds of
           None \<Rightarrow> None
         | Some n \<Rightarrow> let i = (if neg then - int n else int n) in
             if min_i64 \<le> i \<and> i \<le> max_i64 then Some i else None)"

text \<open>\<open>time.Unix\<close> and \<open>Time.Unix\<close>: seconds since 1970 to and from an instant.\<close>

definition unix_offset :: int where "unix_offset = 62135596800"

definition time_Unix :: "int \<Rightarrow> time" where
  "time_Unix n = i64 (n + unix_offset) * second"

definition to_Unix :: "time \<Rightarrow> int" where
  "to_Unix t = t div second - unix_offset"

section \<open>Resources\<close>

definition ResourceByIdentifier :: "Config \<Rightarrow> string \<Rightarrow> ProtectedResource option" where
  "ResourceByIdentifier cfg i =
     find (\<lambda>r. TrimRight (pr_Identifier r) (CHR ''/'') = TrimRight i (CHR ''/'')) (cf_Resources cfg)"

definition isPathChild :: "url_parse \<Rightarrow> string \<Rightarrow> string \<Rightarrow> bool" where
  "isPathChild parse configured requested =
     (let base = TrimRight configured (CHR ''/'') in
      if base = [] \<or> \<not> HasPrefix requested (base @ ''/'') then False
      else if \<exists>c\<in>set requested. c \<in> {CHR ''?'', CHR ''#'', CHR 0x5C} then False
      else let lower = ToLower requested in
        if sublist ''%2e'' lower \<or> sublist ''%2f'' lower \<or> sublist ''%5c'' lower then False
        else case parse requested of
          None \<Rightarrow> False
        | Some u \<Rightarrow> \<not> u_User u \<and> (\<forall>seg\<in>set (Split (CHR ''/'') (u_Path u)). seg \<noteq> ''.'' \<and> seg \<noteq> ''..''))"

fun best_child :: "url_parse \<Rightarrow> string \<Rightarrow> ProtectedResource option \<Rightarrow> ProtectedResource list
    \<Rightarrow> ProtectedResource option" where
  "best_child parse raw best [] = best"
| "best_child parse raw best (r # rs) =
     (if \<not> isPathChild parse (pr_Identifier r) raw then best_child parse raw best rs
      else case best of
        None \<Rightarrow> best_child parse raw (Some r) rs
      | Some b \<Rightarrow> if length (pr_Identifier r) > length (pr_Identifier b)
                  then best_child parse raw (Some r) rs else best_child parse raw best rs)"

definition resolveResource ::
  "url_parse \<Rightarrow> Config \<Rightarrow> string \<Rightarrow> as_error + ProtectedResource \<times> string" where
  "resolveResource parse cfg raw =
     (if raw = [] then
        (if cc_OptionalResource (cf_ClientCompat cfg) \<and> length (cf_Resources cfg) = 1
         then Inr (cf_Resources cfg ! 0, pr_Identifier (cf_Resources cfg ! 0))
         else Inl ErrOAuthInvalidResource)
      else case ResourceByIdentifier cfg raw of
        Some r \<Rightarrow> Inr (r, raw)
      | None \<Rightarrow>
          if cc_PathAudience (cf_ClientCompat cfg) then
            (case best_child parse raw None (cf_Resources cfg) of
               Some best \<Rightarrow> Inr (best, pr_Identifier best)
             | None \<Rightarrow> Inl ErrOAuthInvalidResource)
          else Inl ErrOAuthInvalidResource)"

definition resourceMatchesGrant :: "url_parse \<Rightarrow> Config \<Rightarrow> string \<Rightarrow> string \<Rightarrow> bool" where
  "resourceMatchesGrant parse cfg requested granted =
     (if requested = granted then True
      else if \<not> cc_PathAudience (cf_ClientCompat cfg) then False
      else case resolveResource parse cfg requested of
        Inl e \<Rightarrow> False
      | Inr (r, _) \<Rightarrow> TrimRight (pr_Identifier r) (CHR ''/'') = TrimRight granted (CHR ''/''))"

section \<open>Scopes\<close>

definition ScopeOpenID :: string where "ScopeOpenID = ''openid''"
definition ScopeProfile :: string where "ScopeProfile = ''profile''"
definition ScopeEmail :: string where "ScopeEmail = ''email''"

definition splitOIDCScopes :: "string list \<Rightarrow> string list \<times> string list" where
  "splitOIDCScopes requested =
     (let std = (\<lambda>sc. sc = ScopeOpenID \<or> sc = ScopeProfile \<or> sc = ScopeEmail)
      in (filter std requested, filter (\<lambda>sc. \<not> std sc) requested))"

text \<open>A nil set, for an empty list, is no restriction.\<close>

definition scopeSet :: "string list \<Rightarrow> string set option" where
  "scopeSet scopes = (if scopes = [] then None else Some (set scopes))"

abbreviation in_scopes :: "string \<Rightarrow> string set option \<Rightarrow> bool" where
  "in_scopes sc m \<equiv> (case m of None \<Rightarrow> True | Some s \<Rightarrow> sc \<in> s)"

definition validateScopeAgainstResource ::
  "string list \<Rightarrow> ProtectedResource \<Rightarrow> as_error + string list" where
  "validateScopeAgainstResource requested resource =
     (if requested = [] then Inl ErrScopeRequired
      else if pr_Scopes resource = [] then Inr requested
      else if \<forall>s\<in>set requested. s \<in> set (pr_Scopes resource) then Inr requested
      else Inl ErrOAuthInvalidScope)"

definition narrowResourceScopes ::
  "Config \<Rightarrow> string list \<Rightarrow> ProtectedResource \<Rightarrow> OAuthClient option \<Rightarrow> as_error + string list" where
  "narrowResourceScopes cfg requested resource client =
     (if \<not> cc_DropUnknownScopes (cf_ClientCompat cfg) \<or> requested = []
      then validateScopeAgainstResource requested resource
      else
        (let catalog = scopeSet (pr_Scopes resource);
             allowed = (case client of None \<Rightarrow> None | Some c \<Rightarrow> scopeSet (Fields (oc_Scope c)));
             out = filter (\<lambda>sc. in_scopes sc catalog \<and> in_scopes sc allowed) requested
         in if out = [] then Inl ErrOAuthInvalidScope else Inr out))"

definition narrowScopes ::
  "Config \<Rightarrow> string list \<Rightarrow> ProtectedResource \<Rightarrow> OAuthClient option \<Rightarrow> as_error + string list" where
  "narrowScopes cfg requested resource client =
     (let (std, rest) = splitOIDCScopes requested in
      if cf_OIDC cfg \<and> std \<noteq> [] then
        (if rest = [] then Inr std
         else case narrowResourceScopes cfg rest resource client of
           Inl e \<Rightarrow> Inl e
         | Inr out \<Rightarrow> Inr (std @ out))
      else narrowResourceScopes cfg requested resource client)"

definition scopeSubset :: "string list \<Rightarrow> string list \<Rightarrow> bool" where
  "scopeSubset subs sups \<longleftrightarrow> (\<forall>s\<in>set subs. s \<in> set sups)"

definition narrowRefreshScopes :: "Config \<Rightarrow> string list \<Rightarrow> string list \<Rightarrow> as_error + string list" where
  "narrowRefreshScopes cfg requested granted =
     (if requested = [] then Inr granted
      else if scopeSubset requested granted then Inr requested
      else if \<not> cc_DropUnknownScopes (cf_ClientCompat cfg) then Inl ErrOAuthInvalidScope
      else
        (let have_set = scopeSet granted;
             out = filter (\<lambda>sc. case have_set of None \<Rightarrow> False | Some s \<Rightarrow> sc \<in> s) requested
         in if out = [] then Inl ErrOAuthInvalidScope else Inr out))"

definition scopeJoin :: "string list \<Rightarrow> string" where
  "scopeJoin scope = Join scope '' ''"

definition scopeSplit :: "string \<Rightarrow> string list" where
  "scopeSplit s = add_new [] (Fields s)"

section \<open>Redirect URIs\<close>

definition redirectURIRegistered :: "string list \<Rightarrow> string \<Rightarrow> bool" where
  "redirectURIRegistered registered uri = (if uri = [] then False else uri \<in> set registered)"

definition parseLoopback :: "url_parse \<Rightarrow> string \<Rightarrow> bool \<Rightarrow> url option" where
  "parseLoopback parse raw allowLocalhost =
     (case parse raw of
        None \<Rightarrow> None
      | Some u \<Rightarrow>
          if u_Scheme u \<noteq> ''http'' \<or> u_User u \<or> u_Fragment u \<noteq> [] \<or> u_Opaque u \<noteq> [] then None
          else
            (let h = ToLower (u_Hostname u) in
             if h = ''127.0.0.1'' \<or> h = ''::1'' \<or> (h = ''localhost'' \<and> allowLocalhost) then
               (if u_Port u = [] then Some u
                else case ParseInt (u_Port u) of
                  None \<Rightarrow> None
                | Some n \<Rightarrow> if n < 1 \<or> n > 65535 then None else Some u)
             else None))"

definition loopbackEquivalent :: "url_parse \<Rightarrow> Config \<Rightarrow> string \<Rightarrow> string \<Rightarrow> bool" where
  "loopbackEquivalent parse cfg a b =
     (let local = cc_LoopbackAllowLocalhost (cf_ClientCompat cfg) in
      case parseLoopback parse a local of
        None \<Rightarrow> False
      | Some ua \<Rightarrow> (case parseLoopback parse b local of
          None \<Rightarrow> False
        | Some ub \<Rightarrow> u_Hostname ua = u_Hostname ub \<and> u_EscapedPath ua = u_EscapedPath ub
                     \<and> u_RawQuery ua = u_RawQuery ub))"

text \<open>The method of the service, which adds the loopback rule to the exact match.\<close>

definition svc_redirectURIRegistered :: "url_parse \<Rightarrow> Config \<Rightarrow> string list \<Rightarrow> string \<Rightarrow> bool" where
  "svc_redirectURIRegistered parse cfg registered uri =
     (if redirectURIRegistered registered uri then True
      else if \<not> cc_LoopbackAnyPort (cf_ClientCompat cfg) \<or> uri = [] then False
      else \<exists>r\<in>set registered. loopbackEquivalent parse cfg r uri)"

section \<open>Grant expiry\<close>

definition grantExpirySep :: char where "grantExpirySep = CHR ''~''"

text \<open>The text after the last separator, if there is one.\<close>

definition after_last :: "char \<Rightarrow> string \<Rightarrow> string option" where
  "after_last c s = (if c \<in> set s then Some (rev (takeWhile (\<lambda>x. x \<noteq> c) (rev s))) else None)"

definition splitGrantExpiry :: "string \<Rightarrow> time" where
  "splitGrantExpiry tok =
     (case after_last grantExpirySep tok of
        None \<Rightarrow> zero_time
      | Some suf \<Rightarrow> (case ParseInt suf of
          None \<Rightarrow> zero_time
        | Some n \<Rightarrow> if n \<le> 0 then zero_time else time_Unix n))"

text \<open>\<open>strconv.FormatInt\<close> in base ten.\<close>

definition FormatInt :: "int \<Rightarrow> string" where
  "FormatInt i = (if i < 0 then CHR ''-'' # show_nat (nat (- i)) else show_nat (nat i))"

definition withGrantExpiry :: "string \<Rightarrow> time \<Rightarrow> string" where
  "withGrantExpiry tok exp =
     (if IsZero exp then tok else tok @ [grantExpirySep] @ FormatInt (to_Unix exp))"

section \<open>Round trips\<close>

lemma digits_val_append:
  "digits_val a (xs @ ys) = (case digits_val a xs of None \<Rightarrow> None | Some m \<Rightarrow> digits_val m ys)"
  by (induction xs arbitrary: a) (simp_all add: Let_def)

lemma digits_val_digit: "d < 10 \<Longrightarrow> digits_val a [digit_char d] = Some (a * 10 + d)"
  by (simp add: digit_char_def Let_def)

lemma digits_val_show_nat: "digits_val 0 (show_nat n) = Some n"
proof (induction n rule: show_nat.induct)
  case (1 n)
  show ?case
  proof (cases "n < 10")
    case True
    then show ?thesis using digits_val_digit [of n 0] by (simp add: show_nat.simps [of n])
  next
    case False
    with 1 have "digits_val 0 (show_nat (n div 10)) = Some (n div 10)" by simp
    with False show ?thesis
      by (subst show_nat.simps) (simp only: digits_val_append digits_val_digit option.case if_False
          mod_less_divisor zero_less_numeral div_mult_mod_eq)
  qed
qed

lemma digit_char_neq: "d < 10 \<Longrightarrow> (of_char c :: nat) \<notin> {48..57} \<Longrightarrow> digit_char d \<noteq> c"
  by (auto simp: digit_char_def)

lemma show_nat_chars: "(of_char c :: nat) \<notin> {48..57} \<Longrightarrow> c \<notin> set (show_nat n)"
proof (induction n rule: show_nat.induct)
  case (1 n)
  then show ?case
    using digit_char_neq [of n c] digit_char_neq [of "n mod 10" c]
    by (subst show_nat.simps) auto
qed

lemma ParseInt_show_nat: "int n \<le> max_i64 \<Longrightarrow> ParseInt (show_nat n) = Some (int n)"
proof -
  assume le: "int n \<le> max_i64"
  obtain c cs where c: "show_nat n = c # cs" using show_nat_nonempty [of n] by (cases "show_nat n") auto
  have "c \<noteq> CHR ''-''" "c \<noteq> CHR ''+''"
    using show_nat_chars [of "CHR ''-''" n] show_nat_chars [of "CHR ''+''" n] c by auto
  with le c digits_val_show_nat [of n] show ?thesis
    by (simp add: ParseInt_def min_i64_def)
qed

lemma after_last_append: "c \<notin> set suf \<Longrightarrow> after_last c (tok @ [c] @ suf) = Some suf"
  by (simp add: after_last_def takeWhile_append)

text \<open>The expiries a grant can carry: none, or a whole second after 1970 in the range of the clock.\<close>

definition carried_expiry :: "time \<Rightarrow> bool" where
  "carried_expiry e \<longleftrightarrow>
     IsZero e \<or> (e mod second = 0 \<and> 0 < to_Unix e \<and> to_Unix e + unix_offset \<le> max_i64)"

lemma splitGrantExpiry_plain: "grantExpirySep \<notin> set tok \<Longrightarrow> splitGrantExpiry tok = zero_time"
  by (simp add: splitGrantExpiry_def after_last_def)

lemma split_with_expiry:
  assumes tok: "grantExpirySep \<notin> set tok" and e: "carried_expiry e"
  shows "splitGrantExpiry (withGrantExpiry tok e) = e"
proof (cases "IsZero e")
  case True
  with tok show ?thesis by (simp add: withGrantExpiry_def splitGrantExpiry_plain)
next
  case False
  with e have m: "e mod second = 0" and p: "0 < to_Unix e" and b: "to_Unix e + unix_offset \<le> max_i64"
    by (auto simp: carried_expiry_def)
  have "grantExpirySep \<notin> set (show_nat (nat (to_Unix e)))"
    by (rule show_nat_chars) (simp add: grantExpirySep_def)
  moreover have "ParseInt (show_nat (nat (to_Unix e))) = Some (to_Unix e)"
    using ParseInt_show_nat [of "nat (to_Unix e)"] p b by (simp add: unix_offset_def)
  moreover have "time_Unix (to_Unix e) = e"
    using m p b by (auto simp: time_Unix_def to_Unix_def i64_id min_i64_def unix_offset_def)
  ultimately show ?thesis using False p
    using after_last_append [of grantExpirySep "show_nat (nat (to_Unix e))" tok]
    by (simp add: withGrantExpiry_def splitGrantExpiry_def FormatInt_def)
qed

section \<open>Narrowing\<close>

lemma validateScopeAgainstResource_Inr:
  "validateScopeAgainstResource req r = Inr out \<Longrightarrow>
     out = req \<and> req \<noteq> [] \<and> (pr_Scopes r \<noteq> [] \<longrightarrow> set req \<subseteq> set (pr_Scopes r))"
  by (auto simp: validateScopeAgainstResource_def split: if_splits)

lemma narrowResourceScopes_Inr:
  "narrowResourceScopes cfg req r c = Inr out \<Longrightarrow>
     set out \<subseteq> set req \<and> out \<noteq> [] \<and> (pr_Scopes r \<noteq> [] \<longrightarrow> set out \<subseteq> set (pr_Scopes r))"
  by (auto simp: narrowResourceScopes_def scopeSet_def Let_def
      dest!: validateScopeAgainstResource_Inr split: if_splits option.splits)

lemma narrowRefreshScopes_Inr:
  "narrowRefreshScopes cfg req granted = Inr out \<Longrightarrow>
     set out \<subseteq> set granted \<and> (req \<noteq> [] \<longrightarrow> out \<noteq> [] \<and> set out \<subseteq> set req) \<and> (req = [] \<longrightarrow> out = granted)"
  by (auto simp: narrowRefreshScopes_def scopeSubset_def scopeSet_def Let_def split: if_splits)

lemma narrowScopes_Inr:
  "narrowScopes cfg req r c = Inr out \<Longrightarrow>
     set out \<subseteq> set req \<and> out \<noteq> []
     \<and> (pr_Scopes r \<noteq> [] \<longrightarrow> set out \<subseteq> set (pr_Scopes r)
          \<union> (if cf_OIDC cfg then {ScopeOpenID, ScopeProfile, ScopeEmail} else {}))"
  by (auto simp: narrowScopes_def splitOIDCScopes_def Let_def
      dest!: narrowResourceScopes_Inr split: if_splits sum.splits)

lemma best_child_Some:
  "best_child parse raw best rs = Some r \<Longrightarrow>
     (best = Some r \<or> r \<in> set rs \<and> isPathChild parse (pr_Identifier r) raw)
     \<and> (\<forall>r'\<in>set rs. isPathChild parse (pr_Identifier r') raw \<longrightarrow>
            length (pr_Identifier r') \<le> length (pr_Identifier r))
     \<and> (\<forall>b. best = Some b \<longrightarrow> length (pr_Identifier b) \<le> length (pr_Identifier r))"
proof (induction rs arbitrary: best)
  case Nil
  then show ?case by simp
next
  case (Cons r0 rs)
  then show ?case by (fastforce split: if_splits option.splits)
qed

lemma loopbackEquivalent_sym: "loopbackEquivalent parse cfg a b = loopbackEquivalent parse cfg b a"
  by (auto simp: loopbackEquivalent_def Let_def split: option.splits)

lemma loopbackEquivalent_trans:
  "loopbackEquivalent parse cfg a b \<Longrightarrow> loopbackEquivalent parse cfg b c \<Longrightarrow> loopbackEquivalent parse cfg a c"
  by (auto simp: loopbackEquivalent_def Let_def split: option.splits)

end
