(* ===== verification/AsClientAuth.thy ===== *)
theory AsClientAuth
  imports AsStore AsCompat
begin

text \<open>
  Client authentication at the token endpoint: the bounded cache of verified secrets
  (\<open>src/internal/clientauthcache/cache.go\<close>), the client lookup of \<open>src/internal/as/service.go\<close> and
  \<open>AuthenticateClient\<close> of \<open>token.go\<close>. SHA-256 is a parameter \<open>digest\<close>; the Argon2id verification
  behind its semaphore (\<open>verifyClientSecret\<close>), the resolution of client metadata documents and the
  JWT client assertions are parameters too.

  The cache of the source is a map and a recency list that always hold the same entries; the model
  keeps the list, most recently used first, keyed by client.
\<close>

section \<open>The cache of verified secrets\<close>

record 'v cache_entry =
  ce_clientID :: string
  ce_secretDigest :: string
  ce_value :: 'v
  ce_expiresAt :: time

record 'v Cache =
  ca_maxEntries :: nat
  ca_ttl :: duration
  ca_order :: "'v cache_entry list"

definition CacheDefaultMaxEntries :: nat where "CacheDefaultMaxEntries = 1024"
definition CacheDefaultTTL :: duration where "CacheDefaultTTL = 5 * minute"

definition NewCache :: "int \<Rightarrow> duration \<Rightarrow> 'v Cache" where
  "NewCache maxEntries ttl =
     \<lparr>ca_maxEntries = (if maxEntries \<le> 0 then CacheDefaultMaxEntries else nat maxEntries),
      ca_ttl = (if ttl \<le> 0 then CacheDefaultTTL else ttl), ca_order = []\<rparr>"

definition removeLocked :: "string \<Rightarrow> 'v cache_entry list \<Rightarrow> 'v cache_entry list" where
  "removeLocked clientID es = filter (\<lambda>e. ce_clientID e \<noteq> clientID) es"

definition cache_lookup :: "'v Cache \<Rightarrow> string \<Rightarrow> 'v cache_entry option" where
  "cache_lookup c clientID = find (\<lambda>e. ce_clientID e = clientID) (ca_order c)"

definition Cache_Get ::
  "(string \<Rightarrow> string) \<Rightarrow> time \<Rightarrow> string \<Rightarrow> string \<Rightarrow> 'v Cache \<Rightarrow> 'v option \<times> 'v Cache" where
  "Cache_Get digest now clientID secret c =
     (if clientID = [] then (None, c)
      else case cache_lookup c clientID of
        None \<Rightarrow> (None, c)
      | Some e \<Rightarrow>
          if \<not> now < ce_expiresAt e then (None, c\<lparr>ca_order := removeLocked clientID (ca_order c)\<rparr>)
          else if ce_secretDigest e \<noteq> digest secret then (None, c)
          else (Some (ce_value e), c\<lparr>ca_order := e # removeLocked clientID (ca_order c)\<rparr>))"

definition Cache_Put ::
  "(string \<Rightarrow> string) \<Rightarrow> time \<Rightarrow> string \<Rightarrow> string \<Rightarrow> 'v \<Rightarrow> 'v Cache \<Rightarrow> 'v Cache" where
  "Cache_Put digest now clientID secret value c =
     (if clientID = [] then c
      else
        (let e = \<lparr>ce_clientID = clientID, ce_secretDigest = digest secret, ce_value = value,
                   ce_expiresAt = now + ca_ttl c\<rparr> in
         case cache_lookup c clientID of
           Some existing \<Rightarrow> c\<lparr>ca_order := e # removeLocked clientID (ca_order c)\<rparr>
         | None \<Rightarrow> c\<lparr>ca_order := take (ca_maxEntries c) (e # ca_order c)\<rparr>))"

definition Cache_Invalidate :: "string \<Rightarrow> 'v Cache \<Rightarrow> 'v Cache" where
  "Cache_Invalidate clientID c =
     (if clientID = [] then c else c\<lparr>ca_order := removeLocked clientID (ca_order c)\<rparr>)"

definition Cache_Len :: "'v Cache \<Rightarrow> nat" where
  "Cache_Len c = length (ca_order c)"

text \<open>What the cache holds after any sequence of operations: one entry per client, within bound.\<close>

definition cache_ok :: "'v Cache \<Rightarrow> bool" where
  "cache_ok c \<longleftrightarrow> 0 < ca_maxEntries c \<and> distinct (map ce_clientID (ca_order c))
     \<and> length (ca_order c) \<le> ca_maxEntries c"

lemma cache_ok_New: "cache_ok (NewCache n ttl)"
  by (simp add: cache_ok_def NewCache_def CacheDefaultMaxEntries_def)

lemma removeLocked_props:
  "distinct (map ce_clientID es) \<Longrightarrow> distinct (map ce_clientID (removeLocked k es))"
  "k \<notin> ce_clientID ` set (removeLocked k es)"
  "length (removeLocked k es) \<le> length es"
  by (auto simp: removeLocked_def distinct_map_filter)

lemma removeLocked_shrinks:
  "cache_lookup c k = Some e \<Longrightarrow> length (removeLocked k (ca_order c)) < length (ca_order c)"
  by (auto simp: cache_lookup_def removeLocked_def find_Some_iff in_set_conv_nth
      intro!: length_filter_less)

lemma cache_lookup_ID: "cache_lookup c k = Some e \<Longrightarrow> ce_clientID e = k"
  by (auto simp: cache_lookup_def dest: find_Some_iff_hd)

lemma cache_ok_Put: "cache_ok c \<Longrightarrow> cache_ok (Cache_Put digest now k s v c)"
proof -
  assume ok: "cache_ok c"
  show ?thesis
  proof (cases "k = []")
    case True
    with ok show ?thesis by (simp add: Cache_Put_def)
  next
    case False
    show ?thesis
    proof (cases "cache_lookup c k")
      case None
      then have "k \<notin> ce_clientID ` set (ca_order c)"
        by (auto simp: cache_lookup_def find_None_iff)
      with ok False None have "distinct (map ce_clientID
          (\<lparr>ce_clientID = k, ce_secretDigest = digest s, ce_value = v, ce_expiresAt = now + ca_ttl c\<rparr> # ca_order c))"
        by (simp add: cache_ok_def)
      with ok False None show ?thesis
        by (simp only: cache_ok_def Cache_Put_def Let_def) (simp add: take_map [symmetric] distinct_take del: take_Cons')
    next
      case (Some e)
      with ok False removeLocked_shrinks [OF Some] removeLocked_props [where es = "ca_order c" and k = k] show ?thesis
        by (simp add: cache_ok_def Cache_Put_def Let_def)
    qed
  qed
qed

lemma cache_ok_Get: "cache_ok c \<Longrightarrow> cache_ok (snd (Cache_Get digest now k s c))"
  using removeLocked_props [where es = "ca_order c" and k = k] removeLocked_shrinks [of c k]
  by (auto simp: cache_ok_def Cache_Get_def image_iff split: option.splits dest: le_trans cache_lookup_ID)

lemma cache_ok_Invalidate: "cache_ok c \<Longrightarrow> cache_ok (Cache_Invalidate k c)"
  using removeLocked_props [where es = "ca_order c" and k = k]
  by (auto simp: cache_ok_def Cache_Invalidate_def dest: le_trans)

lemma find_removeLocked:
  "find (\<lambda>e. ce_clientID e = k') (removeLocked k es)
     = (if k' = k then None else find (\<lambda>e. ce_clientID e = k') es)"
  by (induction es) (auto simp: removeLocked_def)

lemma cache_lookup_Invalidate:
  "cache_lookup (Cache_Invalidate k c) k'
     = (if k' = k \<and> k \<noteq> [] then None else cache_lookup c k')"
  by (simp add: cache_lookup_def Cache_Invalidate_def find_removeLocked)

lemma cache_lookup_Get:
  "cache_lookup (snd (Cache_Get digest now k s c)) k'
     = (if k' = k \<and> k \<noteq> [] \<and> (\<exists>e. cache_lookup c k = Some e \<and> \<not> now < ce_expiresAt e) then None
        else cache_lookup c k')"
  by (auto simp: cache_lookup_def Cache_Get_def find_removeLocked dest: find_Some_iff_hd split: option.splits)

text \<open>An insertion may push another entry out, and adds one for its own client only.\<close>

lemma find_take: "find p (take n xs) = Some x \<Longrightarrow> find p xs = Some x"
  by (induction xs arbitrary: n) (auto simp: take_Cons split: nat.splits if_splits)

lemma cache_lookup_Put:
  assumes "cache_lookup (Cache_Put digest now k s v c) k' = Some e"
  shows "cache_lookup c k' = Some e \<and> k' \<noteq> k
    \<or> k \<noteq> [] \<and> k' = k \<and> e = \<lparr>ce_clientID = k, ce_secretDigest = digest s, ce_value = v,
                              ce_expiresAt = now + ca_ttl c\<rparr>
    \<or> k = [] \<and> cache_lookup c k' = Some e"
proof (cases "cache_lookup c k")
  case None
  with assms show ?thesis
    by (auto simp: cache_lookup_def Cache_Put_def Let_def dest!: find_take split: if_splits)
next
  case (Some e')
  with assms show ?thesis
    by (auto simp: cache_lookup_def Cache_Put_def Let_def find_removeLocked split: if_splits)
qed

lemma Cache_Get_hit:
  "fst (Cache_Get digest now k s c) = Some v \<longleftrightarrow>
     k \<noteq> [] \<and> (\<exists>e. cache_lookup c k = Some e \<and> now < ce_expiresAt e
        \<and> ce_secretDigest e = digest s \<and> ce_value e = v)"
  by (auto simp: Cache_Get_def split: option.splits)

lemma Cache_ttl [simp]:
  "ca_ttl (Cache_Put digest now k s v c) = ca_ttl c"
  "ca_ttl (snd (Cache_Get digest now k s c)) = ca_ttl c"
  "ca_ttl (Cache_Invalidate k c) = ca_ttl c"
  by (auto simp: Cache_Put_def Cache_Get_def Cache_Invalidate_def Let_def split: option.splits)

section \<open>Looking a client up\<close>

definition LooksLikeCIMD :: "url_parse \<Rightarrow> string \<Rightarrow> bool" where
  "LooksLikeCIMD parse clientID =
     (if clientID = [] then False
      else if \<not> HasPrefix clientID ''https://'' then False
      else case parse clientID of
        None \<Rightarrow> False
      | Some u \<Rightarrow>
          u_Scheme u = ''https''
          \<and> \<not> (u_Host u = [] \<or> u_User u \<or> u_Fragment u \<noteq> [])
          \<and> \<not> (u_Path u = [] \<or> u_Path u = ''/'')
          \<and> (\<forall>seg\<in>set (Split (CHR ''/'') (u_Path u)). seg \<noteq> ''.'' \<and> seg \<noteq> ''..''))"

text \<open>The code the authentication calls out to.\<close>

record auth_params =
  ap_parse :: url_parse
  ap_digest :: "string \<Rightarrow> string"
  ap_cimd :: "(string \<Rightarrow> as_error + OAuthClient) option"
  ap_verify :: "string \<Rightarrow> string \<Rightarrow> as_error + bool"
  ap_jwt :: "string \<Rightarrow> string \<Rightarrow> as_error + OAuthClient"

definition ResolveClient :: "auth_params \<Rightarrow> string \<Rightarrow> v20State \<Rightarrow> as_error + OAuthClient" where
  "ResolveClient p clientID v =
     (if clientID = [] then Inl ErrOAuthInvalidClient
      else if LooksLikeCIMD (ap_parse p) clientID then
        (case ap_cimd p of
           None \<Rightarrow> Inl ErrOAuthInvalidClient
         | Some resolve \<Rightarrow> (case resolve clientID of
             Inl e \<Rightarrow> Inl ErrOAuthInvalidClient
           | Inr client \<Rightarrow> Inr client))
      else case OAuthClientByClientID clientID v of
        Inl e \<Rightarrow> Inl (ErrOther ''not found'')
      | Inr client \<Rightarrow> Inr client)"

section \<open>Authenticating a client\<close>

definition ClientAuthSecretBasic :: string where "ClientAuthSecretBasic = ''client_secret_basic''"
definition ClientAuthSecretPost :: string where "ClientAuthSecretPost = ''client_secret_post''"
definition ClientAuthNone :: string where "ClientAuthNone = ''none''"

definition ClientAssertionTypeJWTBearer :: string where
  "ClientAssertionTypeJWTBearer = ''urn:ietf:params:oauth:client-assertion-type:jwt-bearer''"

record AuthState =
  au_v20 :: v20State
  au_cache :: "OAuthClient Cache"

definition cached_client ::
  "auth_params \<Rightarrow> time \<Rightarrow> string \<Rightarrow> string \<Rightarrow> AuthState \<Rightarrow> OAuthClient option \<times> AuthState" where
  "cached_client p now clientID clientSecret s =
     (if clientSecret \<noteq> [] then
        (case Cache_Get (ap_digest p) now clientID clientSecret (au_cache s) of
           (hit, c) \<Rightarrow> (hit, s\<lparr>au_cache := c\<rparr>))
      else (None, s))"

text \<open>
  \<open>AuthenticateClient\<close>. The verification takes long and holds no lock: \<open>env\<close> is what other
  requests do to the state between the lookup of the client and the insertion into the cache. The
  clock is read for the cache lookup and for the insertion.
\<close>

definition AuthenticateClient ::
  "auth_params \<Rightarrow> (AuthState \<Rightarrow> AuthState) \<Rightarrow> time \<Rightarrow> time \<Rightarrow> string \<Rightarrow> string \<Rightarrow> AuthState
     \<Rightarrow> (as_error + OAuthClient) \<times> AuthState" where
  "AuthenticateClient p env now now' clientID clientSecret s =
     (if clientID = [] then (Inl ErrOAuthInvalidClient, s)
      else
        (case cached_client p now clientID clientSecret s of
           (Some c, s) \<Rightarrow> (Inr c, s)
         | (None, s) \<Rightarrow>
             (case ResolveClient p clientID (au_v20 s) of
                Inl e \<Rightarrow> (Inl ErrOAuthInvalidClient, s)
              | Inr client \<Rightarrow>
                  (let m = oc_TokenEndpointAuthMethod client in
                   if m = ClientAuthNone then
                     (if clientSecret \<noteq> [] then (Inl ErrOAuthInvalidClient, s) else (Inr client, s))
                   else if m = ClientAuthSecretBasic \<or> m = ClientAuthSecretPost \<or> m = [] then
                     (if clientSecret = [] \<or> oc_ClientSecretHash client = []
                      then (Inl ErrOAuthInvalidClient, s)
                      else
                        (let s = env s in
                         case ap_verify p clientSecret (oc_ClientSecretHash client) of
                           Inl e \<Rightarrow> (Inl (if e = ErrOAuthServerBusy then e else ErrOAuthInvalidClient), s)
                         | Inr False \<Rightarrow> (Inl ErrOAuthInvalidClient, s)
                         | Inr True \<Rightarrow>
                             (Inr client, s\<lparr>au_cache := Cache_Put (ap_digest p) now' clientID clientSecret
                                              client (au_cache s)\<rparr>)))
                   else (Inl ErrOAuthInvalidClient, s)))))"

text \<open>Authentication with an assertion goes to \<open>AuthenticateClientJWT\<close>, a parameter.\<close>

definition AuthenticateClientFromRequest ::
  "auth_params \<Rightarrow> (AuthState \<Rightarrow> AuthState) \<Rightarrow> time \<Rightarrow> time \<Rightarrow> string \<Rightarrow> string \<Rightarrow> string \<Rightarrow> string
     \<Rightarrow> AuthState \<Rightarrow> (as_error + OAuthClient) \<times> AuthState" where
  "AuthenticateClientFromRequest p env now now' assertionType assertion clientID clientSecret s =
     (if assertionType = ClientAssertionTypeJWTBearer \<and> assertion \<noteq> []
      then (ap_jwt p clientID assertion, s)
      else AuthenticateClient p env now now' clientID clientSecret s)"

definition InvalidateClientAuthCache :: "string \<Rightarrow> AuthState \<Rightarrow> AuthState" where
  "InvalidateClientAuthCache clientID s = s\<lparr>au_cache := Cache_Invalidate clientID (au_cache s)\<rparr>"

section \<open>What a successful authentication means\<close>

text \<open>
  The secret authenticates the row: a confidential client of one of the secret methods whose hash
  verifies it. Every cached entry stands for the row the store holds now and for such a secret.
\<close>

definition secret_ok :: "auth_params \<Rightarrow> string \<Rightarrow> OAuthClient \<Rightarrow> bool" where
  "secret_ok p secret c \<longleftrightarrow> secret \<noteq> [] \<and> oc_ClientSecretHash c \<noteq> []
     \<and> oc_TokenEndpointAuthMethod c \<in> {ClientAuthSecretBasic, ClientAuthSecretPost, []}
     \<and> ap_verify p secret (oc_ClientSecretHash c) = Inr True"

definition cache_current :: "auth_params \<Rightarrow> AuthState \<Rightarrow> bool" where
  "cache_current p s \<longleftrightarrow> (\<forall>k e. cache_lookup (au_cache s) k = Some e \<longrightarrow>
     ResolveClient p k (au_v20 s) = Inr (ce_value e)
     \<and> (\<exists>secret. ce_secretDigest e = ap_digest p secret \<and> secret_ok p secret (ce_value e)))"

text \<open>The row authenticates the request: a public client without a secret, or a verified secret.\<close>

definition authentic :: "auth_params \<Rightarrow> string \<Rightarrow> string \<Rightarrow> v20State \<Rightarrow> OAuthClient \<Rightarrow> bool" where
  "authentic p clientID clientSecret v client \<longleftrightarrow>
     ResolveClient p clientID v = Inr client
     \<and> (clientSecret = [] \<and> oc_TokenEndpointAuthMethod client = ClientAuthNone
        \<or> secret_ok p clientSecret client)"

lemma AuthenticateClient_cases:
  assumes "AuthenticateClient p env now now' clientID clientSecret s = (r, s')"
  obtains
    (hit) c where "r = Inr c" "clientSecret \<noteq> []"
      "fst (Cache_Get (ap_digest p) now clientID clientSecret (au_cache s)) = Some c"
      "s' = s\<lparr>au_cache := snd (Cache_Get (ap_digest p) now clientID clientSecret (au_cache s))\<rparr>"
  | (public) c where "r = Inr c" "clientSecret = []" "s' = s" "ResolveClient p clientID (au_v20 s) = Inr c"
      "oc_TokenEndpointAuthMethod c = ClientAuthNone"
  | (verified) c s1 where "r = Inr c" "clientSecret \<noteq> []" "clientID \<noteq> []"
      "ResolveClient p clientID (au_v20 s) = Inr c"
      "secret_ok p clientSecret c"
      "s1 = env (s\<lparr>au_cache := snd (Cache_Get (ap_digest p) now clientID clientSecret (au_cache s))\<rparr>)"
      "s' = s1\<lparr>au_cache := Cache_Put (ap_digest p) now' clientID clientSecret c (au_cache s1)\<rparr>"
  | (refused) e where "r = Inl e"
      "s' = s \<or> s' = s\<lparr>au_cache := snd (Cache_Get (ap_digest p) now clientID clientSecret (au_cache s))\<rparr>
       \<or> s' = env (s\<lparr>au_cache := snd (Cache_Get (ap_digest p) now clientID clientSecret (au_cache s))\<rparr>)"
proof -
  let ?g = "Cache_Get (ap_digest p) now clientID clientSecret (au_cache s)"
  obtain cached s0 where cc: "cached_client p now clientID clientSecret s = (cached, s0)"
    by (cases "cached_client p now clientID clientSecret s")
  then have s0_def: "s0 = (if clientSecret \<noteq> [] then s\<lparr>au_cache := snd ?g\<rparr> else s)"
    and cached_def: "cached = (if clientSecret \<noteq> [] then fst ?g else None)"
    by (auto simp: cached_client_def split: prod.splits if_splits)
  have v: "au_v20 s0 = au_v20 s" by (simp add: s0_def)
  have s0: "s0 = s \<or> s0 = s\<lparr>au_cache := snd ?g\<rparr>" by (simp add: s0_def)
  show thesis
  proof (cases "clientID = []")
    case True
    with assms have "r = Inl ErrOAuthInvalidClient" "s' = s" by (simp_all add: AuthenticateClient_def)
    then show thesis by (intro refused) simp_all
  next
    case False
    show thesis
    proof (cases cached)
      case (Some c)
      then have "(r, s') = (Inr c, s0)"
        using False assms by (simp add: AuthenticateClient_def cc)
      with Some show thesis by (intro hit) (auto simp: s0_def cached_def split: if_splits)
    next
      case None
      show thesis
      proof (cases "ResolveClient p clientID (au_v20 s)")
        case (Inl e)
        then have "(r, s') = (Inl ErrOAuthInvalidClient, s0)"
          using False None assms
          by (simp add: AuthenticateClient_def cc v)
        with s0 show thesis by (intro refused) auto
      next
        case (Inr c)
        let ?m = "oc_TokenEndpointAuthMethod c"
        have step: "(r, s') =
            (if ?m = ClientAuthNone then
               (if clientSecret \<noteq> [] then (Inl ErrOAuthInvalidClient, s0) else (Inr c, s0))
             else if ?m = ClientAuthSecretBasic \<or> ?m = ClientAuthSecretPost \<or> ?m = [] then
               (if clientSecret = [] \<or> oc_ClientSecretHash c = [] then (Inl ErrOAuthInvalidClient, s0)
                else case ap_verify p clientSecret (oc_ClientSecretHash c) of
                   Inl e \<Rightarrow> (Inl (if e = ErrOAuthServerBusy then e else ErrOAuthInvalidClient), env s0)
                 | Inr False \<Rightarrow> (Inl ErrOAuthInvalidClient, env s0)
                 | Inr True \<Rightarrow> (Inr c, (env s0)\<lparr>au_cache := Cache_Put (ap_digest p) now' clientID clientSecret
                                              c (au_cache (env s0))\<rparr>))
             else (Inl ErrOAuthInvalidClient, s0))"
          unfolding assms [symmetric] AuthenticateClient_def cc Let_def
          by (simp only: False None Inr v if_False prod.case option.case sum.case)
        show thesis
        proof (cases r)
          case (Inl e)
          with step s0 have "s' = s0 \<or> clientSecret \<noteq> [] \<and> s' = env s0"
            by (auto split: if_splits sum.splits bool.splits)
          with Inl s0 show thesis by (intro refused) (auto simp: s0_def)
        next
          case (Inr c')
          with step have c': "c' = c"
            by (auto split: if_splits sum.splits bool.splits)
          show thesis
          proof (cases "clientSecret = []")
            case True
            with step Inr c' \<open>ResolveClient p clientID (au_v20 s) = Inr c\<close> show thesis
              by (intro public) (auto simp: s0_def split: if_splits)
          next
            case sec: False
            with step Inr have "secret_ok p clientSecret c"
              "s' = (env s0)\<lparr>au_cache := Cache_Put (ap_digest p) now' clientID clientSecret c (au_cache (env s0))\<rparr>"
              by (auto simp: secret_ok_def split: if_splits sum.splits bool.splits)
            with sec False Inr c' \<open>ResolveClient p clientID (au_v20 s) = Inr c\<close> show thesis
              by (intro verified [of c "env s0"]) (simp_all add: s0_def)
          qed
        qed
      qed
    qed
  qed
qed

text \<open>Without interference the cache stays current, and hits are as good as a verification.\<close>

lemma authentic_AuthenticateClient:
  assumes cur: "cache_current p s" and inj: "\<And>a b. ap_digest p a = ap_digest p b \<Longrightarrow> a = b"
    and auth: "AuthenticateClient p env now now' clientID clientSecret s = (Inr c, s')"
  shows "authentic p clientID clientSecret (au_v20 s) c"
  using auth
proof (cases rule: AuthenticateClient_cases)
  case (hit c')
  then obtain e where e: "cache_lookup (au_cache s) clientID = Some e" "ce_value e = c"
    "ce_secretDigest e = ap_digest p clientSecret"
    by (auto simp: Cache_Get_hit)
  with cur obtain secret where "ResolveClient p clientID (au_v20 s) = Inr c"
    "ap_digest p clientSecret = ap_digest p secret"
    "secret_ok p secret c"
    unfolding cache_current_def by metis
  with inj hit show ?thesis by (auto simp: authentic_def)
qed (auto simp: authentic_def)

lemma cache_current_Get:
  "cache_current p s \<Longrightarrow> cache_current p (s\<lparr>au_cache := snd (Cache_Get (ap_digest p) now k secret (au_cache s))\<rparr>)"
  unfolding cache_current_def by (simp add: cache_lookup_Get)

lemma cache_current_AuthenticateClient:
  assumes cur: "cache_current p s"
    and auth: "AuthenticateClient p (\<lambda>s. s) now now' clientID clientSecret s = (r, s')"
  shows "cache_current p s' \<and> au_v20 s' = au_v20 s"
  using auth
proof (cases rule: AuthenticateClient_cases)
  case (verified c s1)
  have s1: "cache_current p s1" "au_v20 s1 = au_v20 s"
    using cache_current_Get [OF cur] verified(6) by simp_all
  have "ResolveClient p k (au_v20 s1) = Inr (ce_value e)
     \<and> (\<exists>secret. ce_secretDigest e = ap_digest p secret \<and> secret_ok p secret (ce_value e))"
    if "cache_lookup (Cache_Put (ap_digest p) now' clientID clientSecret c (au_cache s1)) k = Some e" for k e
    using cache_lookup_Put [OF that] verified s1 unfolding cache_current_def by auto
  with verified(7) s1(2) show ?thesis unfolding cache_current_def by simp
qed (use cache_current_Get [OF cur] cur in auto)

text \<open>
  A run of the service without interference: clients authenticate, the store changes outside its
  clients, and a client row is added, or changed or removed and then dropped from the cache.
\<close>

inductive auth_run :: "auth_params \<Rightarrow> AuthState \<Rightarrow> bool" for p where
  start: "auth_run p \<lparr>au_v20 = ensureV20, au_cache = NewCache n ttl\<rparr>"
| authenticate: "auth_run p s \<Longrightarrow> auth_run p (snd (AuthenticateClient p (\<lambda>s. s) now now' clientID secret s))"
| other: "auth_run p s \<Longrightarrow> v_clients v = v_clients (au_v20 s) \<Longrightarrow> auth_run p (s\<lparr>au_v20 := v\<rparr>)"
| insert: "auth_run p s \<Longrightarrow> auth_run p (s\<lparr>au_v20 := snd (InsertOAuthClient now c (au_v20 s))\<rparr>)"
| update: "auth_run p s \<Longrightarrow> auth_run p (InvalidateClientAuthCache (oc_ClientID c)
    (s\<lparr>au_v20 := snd (UpdateOAuthClient now c (au_v20 s))\<rparr>))"
| delete: "auth_run p s \<Longrightarrow> auth_run p (InvalidateClientAuthCache clientID
    (s\<lparr>au_v20 := snd (DeleteOAuthClient clientID (au_v20 s))\<rparr>))"

lemma ResolveClient_cong:
  "gm_get (v_clients v') k = gm_get (v_clients v) k \<Longrightarrow> ResolveClient p k v' = ResolveClient p k v"
  by (simp add: ResolveClient_def OAuthClientByClientID_def)

lemma cache_current_change:
  assumes cur: "cache_current p s"
    and cache: "\<And>k e. cache_lookup (au_cache s') k = Some e \<Longrightarrow> cache_lookup (au_cache s) k = Some e"
    and row: "\<And>k e c. cache_lookup (au_cache s') k = Some e \<Longrightarrow> k \<noteq> [] \<Longrightarrow>
       \<not> LooksLikeCIMD (ap_parse p) k \<Longrightarrow> gm_get (v_clients (au_v20 s)) k = Some c \<Longrightarrow>
       gm_get (v_clients (au_v20 s')) k = Some c"
  shows "cache_current p s'"
proof -
  have "ResolveClient p k (au_v20 s') = ResolveClient p k (au_v20 s)"
    if e: "cache_lookup (au_cache s') k = Some e" for k e
  proof -
    from cur cache [OF e] have "ResolveClient p k (au_v20 s) = Inr (ce_value e)"
      unfolding cache_current_def by blast
    then show ?thesis
      using row [OF e] by (auto simp: ResolveClient_def OAuthClientByClientID_def split: if_splits option.splits)
  qed
  with cur cache show ?thesis unfolding cache_current_def by metis
qed

lemma auth_run_current: "auth_run p s \<Longrightarrow> cache_current p s"
proof (induction rule: auth_run.induct)
  case (start n ttl)
  then show ?case by (simp add: cache_current_def cache_lookup_def NewCache_def)
next
  case (authenticate s now now' clientID secret)
  then show ?case
    using cache_current_AuthenticateClient [of p s now now' clientID secret] by (metis prod.collapse)
next
  case (other s v)
  then show ?case by (intro cache_current_change [OF other.IH]) simp_all
next
  case (insert s now c)
  then show ?case
    by (intro cache_current_change [OF insert.IH]) (auto simp: InsertOAuthClient_def Let_def)
next
  case (update s c now)
  then show ?case
    by (intro cache_current_change [OF update.IH])
      (auto simp: InvalidateClientAuthCache_def UpdateOAuthClient_def cache_lookup_Invalidate Let_def
        split: option.splits if_splits)
next
  case (delete s clientID)
  then show ?case
    by (intro cache_current_change [OF delete.IH])
      (auto simp: InvalidateClientAuthCache_def DeleteOAuthClient_def cache_lookup_Invalidate
        split: option.splits if_splits)
qed

lemma AuthenticateClient_complete:
  assumes cur: "cache_current p s" and id: "clientID \<noteq> []"
    and auth: "authentic p clientID clientSecret (au_v20 s) c"
  shows "fst (AuthenticateClient p env now now' clientID clientSecret s) = Inr c"
proof (cases "clientSecret = []")
  case True
  with auth id show ?thesis by (simp add: authentic_def secret_ok_def AuthenticateClient_def cached_client_def)
next
  case False
  from auth have c: "ResolveClient p clientID (au_v20 s) = Inr c"
    "secret_ok p clientSecret c"
    using False by (auto simp: authentic_def)
  show ?thesis
  proof (cases "fst (Cache_Get (ap_digest p) now clientID clientSecret (au_cache s))")
    case None
    with False id c show ?thesis
      by (auto simp: AuthenticateClient_def secret_ok_def cached_client_def Let_def ClientAuthNone_def ClientAuthSecretBasic_def
          ClientAuthSecretPost_def split: prod.splits)
  next
    case (Some c')
    then have "ResolveClient p clientID (au_v20 s) = Inr c'"
      using cur by (auto simp: Cache_Get_hit cache_current_def)
    with c Some False id show ?thesis
      by (cases "Cache_Get (ap_digest p) now clientID clientSecret (au_cache s)")
        (simp add: AuthenticateClient_def cached_client_def)
  qed
qed

text \<open>C35: in a run without interference, a client authenticates exactly when the row the store holds
  for it now is a public client presented without a secret, or a confidential client whose stored
  hash verifies the presented secret. The cache of verified secrets never changes the answer: not
  after a secret was rotated, a client was removed or another client's entry was evicted. SHA-256 is
  taken to have no collisions.
\<close>

theorem AuthenticateClient_sound:
  assumes "auth_run p s" and "\<And>a b. ap_digest p a = ap_digest p b \<Longrightarrow> a = b" and "clientID \<noteq> []"
  shows "(fst (AuthenticateClient p env now now' clientID clientSecret s) = Inr c)
     = authentic p clientID clientSecret (au_v20 s) c"
  using authentic_AuthenticateClient [OF auth_run_current [OF assms(1)] assms(2)]
    AuthenticateClient_complete [OF auth_run_current [OF assms(1)] assms(3)]
  by (metis prod.collapse)

definition ex_auth_params :: auth_params where
  "ex_auth_params = \<lparr>ap_parse = (\<lambda>_. None), ap_digest = (\<lambda>x. x), ap_cimd = None,
     ap_verify = (\<lambda>secret phc. Inr (secret = phc)), ap_jwt = (\<lambda>_ _. Inl ErrOAuthInvalidClient)\<rparr>"

definition ex_auth_client :: OAuthClient where
  "ex_auth_client = zero_OAuthClient\<lparr>oc_ID := ''r'', oc_ClientID := ''cli'', oc_ClientSecretHash := ''s1'',
     oc_TokenEndpointAuthMethod := ClientAuthSecretBasic, oc_CreatedAt := 1, oc_UpdatedAt := 1\<rparr>"

definition ex_auth_state :: AuthState where
  "ex_auth_state = snd (AuthenticateClient ex_auth_params (\<lambda>s. s) 2 2 ''cli'' ''s1''
     \<lparr>au_v20 = snd (InsertOAuthClient 1 ex_auth_client ensureV20), au_cache = NewCache 0 0\<rparr>)"

lemma ex_auth_run: "auth_run ex_auth_params ex_auth_state"
  unfolding ex_auth_state_def
  using auth_run.authenticate [OF auth_run.insert [OF auth_run.start [of ex_auth_params 0 0], of 1 ex_auth_client],
      of 2 2 "''cli''" "''s1''"]
  by simp

text \<open>The client is cached; the right secret authenticates again and a wrong one does not.\<close>

theorem AuthenticateClient_sound_witness:
  "Cache_Len (au_cache ex_auth_state) = 1
   \<and> fst (AuthenticateClient ex_auth_params (\<lambda>s. s) 3 3 ''cli'' ''s1'' ex_auth_state) = Inr ex_auth_client
   \<and> fst (AuthenticateClient ex_auth_params (\<lambda>s. s) 3 3 ''cli'' ''s2'' ex_auth_state) \<noteq> Inr ex_auth_client"
proof -
  have len: "Cache_Len (au_cache ex_auth_state) = 1" by code_simp
  have inj: "\<And>a b. ap_digest ex_auth_params a = ap_digest ex_auth_params b \<Longrightarrow> a = b"
    by (simp add: ex_auth_params_def)
  have "(case ResolveClient ex_auth_params ''cli'' (au_v20 ex_auth_state) of Inl _ \<Rightarrow> False
      | Inr c \<Rightarrow> c = ex_auth_client)" by code_simp
  then have res: "ResolveClient ex_auth_params ''cli'' (au_v20 ex_auth_state) = Inr ex_auth_client"
    by (simp split: sum.splits)
  have ok: "authentic ex_auth_params ''cli'' ''s1'' (au_v20 ex_auth_state) ex_auth_client"
    "\<not> authentic ex_auth_params ''cli'' ''s2'' (au_v20 ex_auth_state) ex_auth_client"
    by (simp_all add: authentic_def secret_ok_def res) (simp_all add: ex_auth_params_def ex_auth_client_def)
  show ?thesis
    using AuthenticateClient_sound [OF ex_auth_run inj, where clientID = "''cli''" and clientSecret = "''s1''"
        and env = "\<lambda>s. s" and now = 3 and now' = 3 and c = ex_auth_client]
      AuthenticateClient_sound [OF ex_auth_run inj, where clientID = "''cli''" and clientSecret = "''s2''"
        and env = "\<lambda>s. s" and now = 3 and now' = 3 and c = ex_auth_client] ok len
    by simp
qed

end
