(* ===== verification/Base64.thy ===== *)
theory Base64
  imports Prelude "HOL-Library.More_List"
begin

text \<open>
  The two library encodings the token code is written in: base64 in the URL alphabet without padding
  (\<open>base64.RawURLEncoding\<close>), and natural numbers as big-endian bytes (\<open>big.Int\<close>, \<open>SetBytes\<close>,
  \<open>FillBytes\<close>, \<open>Bytes\<close>). Bytes are characters. Encoding and then decoding gives the bytes back, and
  the encoded text never contains the dot that separates the parts of a token.
\<close>

section \<open>Base64\<close>

definition b64_char :: "nat \<Rightarrow> char" where
  "b64_char n =
     (if n < 26 then char_of (65 + n) else if n < 52 then char_of (71 + n)
      else if n < 62 then char_of (n - 4) else if n = 62 then CHR ''-'' else CHR ''_'')"

definition b64_val :: "char \<Rightarrow> nat option" where
  "b64_val c =
     (let n = of_char c in
      if 65 \<le> n \<and> n \<le> 90 then Some (n - 65) else if 97 \<le> n \<and> n \<le> 122 then Some (n - 71)
      else if 48 \<le> n \<and> n \<le> 57 then Some (n + 4)
      else if c = CHR ''-'' then Some 62 else if c = CHR ''_'' then Some 63 else None)"

text \<open>Groups of three bytes as four digits of six bits, and a shorter last group.\<close>

fun to_sextets :: "nat list \<Rightarrow> nat list" where
  "to_sextets [] = []"
| "to_sextets [x] = [x div 4, (x mod 4) * 16]"
| "to_sextets [x, y] = [x div 4, (x mod 4) * 16 + y div 16, (y mod 16) * 4]"
| "to_sextets (x # y # z # r) =
     x div 4 # ((x mod 4) * 16 + y div 16) # ((y mod 16) * 4 + z div 64) # (z mod 64) # to_sextets r"

text \<open>
  Decoding drops the bits of the last group that make no whole byte, as the encoding is not strict,
  and fails when a single digit is left over.
\<close>

fun of_sextets :: "nat list \<Rightarrow> nat list option" where
  "of_sextets [] = Some []"
| "of_sextets [a] = None"
| "of_sextets [a, b] = Some [a * 4 + b div 16]"
| "of_sextets [a, b, c] = Some [a * 4 + b div 16, (b mod 16) * 16 + c div 4]"
| "of_sextets (a # b # c # d # r) =
     (case of_sextets r of None \<Rightarrow> None
      | Some bs \<Rightarrow> Some ((a * 4 + b div 16) # ((b mod 16) * 16 + c div 4) # ((c mod 4) * 64 + d) # bs))"

fun all_Some :: "'a option list \<Rightarrow> 'a list option" where
  "all_Some [] = Some []"
| "all_Some (None # xs) = None"
| "all_Some (Some x # xs) = map_option ((#) x) (all_Some xs)"

definition EncodeToString :: "string \<Rightarrow> string" where
  "EncodeToString s = map b64_char (to_sextets (map of_char s))"

text \<open>Line breaks are skipped by the decoder.\<close>

definition DecodeString :: "string \<Rightarrow> string option" where
  "DecodeString s =
     (case all_Some (map b64_val (filter (\<lambda>c. c \<noteq> CHR 0x0A \<and> c \<noteq> CHR 0x0D) s)) of
        None \<Rightarrow> None
      | Some ds \<Rightarrow> map_option (map char_of) (of_sextets ds))"

lemma b64_val_char: "n < 64 \<Longrightarrow> b64_val (b64_char n) = Some n"
  by (auto simp: b64_val_def b64_char_def Let_def)

lemma b64_char_plain: "b64_char n \<notin> {CHR ''.'', CHR 0x0A, CHR 0x0D, CHR ''~''}"
proof -
  have "(of_char (b64_char n) :: nat) \<notin> {46, 10, 13, 126}"
    by (auto simp: b64_char_def split: if_splits)
  then show ?thesis by auto
qed

lemma all_Some_map: "(\<And>x. x \<in> set xs \<Longrightarrow> f x = Some (g x)) \<Longrightarrow> all_Some (map f xs) = Some (map g xs)"
  by (induction xs) auto

lemma sextets_bound: "(\<And>x. x \<in> set xs \<Longrightarrow> x < 256) \<Longrightarrow> y \<in> set (to_sextets xs) \<Longrightarrow> y < 64"
proof (induction xs rule: to_sextets.induct)
  case (4 x y z r)
  then have "x < 256" "y < 256" "z < 256" by simp_all
  then have "x div 4 < 64" "(x mod 4) * 16 + y div 16 < 64" "(y mod 16) * 4 + z div 64 < 64" "z mod 64 < 64"
    by (auto simp: div_less_iff_less_mult)
  with 4 show ?case by auto
next
  case (3 x z)
  then have "x < 256" "z < 256" by simp_all
  then have "x div 4 < 64" "(x mod 4) * 16 + z div 16 < 64" "(z mod 16) * 4 < 64" by auto
  with 3 show ?case by auto
qed (auto simp: div_less_iff_less_mult)

lemma of_to_sextets: "(\<And>x. x \<in> set xs \<Longrightarrow> x < 256) \<Longrightarrow> of_sextets (to_sextets xs) = Some xs"
proof (induction xs rule: to_sextets.induct)
  case (4 x y z r)
  have split3: "(a * 16 + b) div 16 = a" "(a * 16 + b) mod 16 = b" if "b < 16" for a b :: nat using that by simp_all
  have split4: "(a * 4 + b) div 4 = a" "(a * 4 + b) mod 4 = b" if "b < 4" for a b :: nat using that by simp_all
  have b: "y div 16 < 16" "z div 64 < 4" using 4(2) [of y] 4(2) [of z] by (simp_all add: div_less_iff_less_mult)
  have "x div 4 * 4 + x mod 4 = x" "y div 16 * 16 + y mod 16 = y" "z div 64 * 64 + z mod 64 = z" by simp_all
  then show ?case using 4 b by (simp add: split3 split4 mult.commute)
next
  case (3 x y)
  then have "y div 16 < 16" using 3 [of y] by (simp add: div_less_iff_less_mult)
  then show ?case by (simp add: mult.commute)
qed simp_all

lemma EncodeToString_plain: "c \<in> set (EncodeToString s) \<Longrightarrow> c \<notin> {CHR ''.'', CHR 0x0A, CHR 0x0D, CHR ''~''}"
  using b64_char_plain by (auto simp: EncodeToString_def)

theorem Decode_Encode [simp]: "DecodeString (EncodeToString s) = Some s"
proof -
  let ?ds = "to_sextets (map of_char s)"
  have b: "y < 64" if "y \<in> set ?ds" for y by (rule sextets_bound [OF _ that]) auto
  have "filter (\<lambda>c. c \<noteq> CHR 0x0A \<and> c \<noteq> CHR 0x0D) (EncodeToString s) = EncodeToString s"
    using EncodeToString_plain [of _ s] by (auto simp: filter_id_conv)
  moreover have "all_Some (map b64_val (EncodeToString s)) = Some ?ds"
    using all_Some_map [of ?ds "b64_val \<circ> b64_char" "\<lambda>x. x"] b by (simp add: EncodeToString_def b64_val_char)
  moreover have "of_sextets ?ds = Some (map of_char s)" by (rule of_to_sextets) auto
  ultimately show ?thesis by (simp add: DecodeString_def comp_def)
qed

section \<open>Big-endian numbers\<close>

definition SetBytes :: "string \<Rightarrow> nat" where
  "SetBytes s = foldl (\<lambda>n c. n * 256 + of_char c) 0 s"

primrec be_bytes :: "nat \<Rightarrow> nat \<Rightarrow> string" where
  "be_bytes 0 n = []"
| "be_bytes (Suc k) n = be_bytes k (n div 256) @ [char_of (n mod 256)]"

text \<open>\<open>FillBytes\<close> panics when the number does not fit.\<close>

definition FillBytes :: "nat \<Rightarrow> nat \<Rightarrow> string option" where
  "FillBytes k n = (if n < 256 ^ k then Some (be_bytes k n) else None)"

function Int_Bytes :: "nat \<Rightarrow> string" where
  "Int_Bytes n = (if n = 0 then [] else Int_Bytes (n div 256) @ [char_of (n mod 256)])"
  by pat_completeness auto
termination by (relation "measure id") auto

declare Int_Bytes.simps [simp del]

lemma SetBytes_append: "SetBytes (s @ [c]) = SetBytes s * 256 + of_char c"
  by (simp add: SetBytes_def)

lemma SetBytes_Nil [simp]: "SetBytes [] = 0"
  by (simp add: SetBytes_def)

lemma length_be_bytes [simp]: "length (be_bytes k n) = k"
  by (induction k arbitrary: n) simp_all

lemma SetBytes_be_bytes: "n < 256 ^ k \<Longrightarrow> SetBytes (be_bytes k n) = n"
proof (induction k arbitrary: n)
  case (Suc k)
  have "n div 256 < 256 ^ k" using Suc.prems by (simp add: div_less_iff_less_mult mult.commute)
  then show ?case using Suc.IH by (simp add: SetBytes_append mult.commute)
qed simp

lemma SetBytes_FillBytes: "FillBytes k n = Some s \<Longrightarrow> SetBytes s = n \<and> length s = k"
  by (auto simp: FillBytes_def SetBytes_be_bytes split: if_splits)

lemma SetBytes_Int_Bytes [simp]: "SetBytes (Int_Bytes n) = n"
proof (induction n rule: Int_Bytes.induct)
  case (1 n)
  then show ?case by (subst Int_Bytes.simps) (auto simp: SetBytes_append mult.commute)
qed

lemma Int_Bytes_nonempty: "n \<noteq> 0 \<Longrightarrow> Int_Bytes n \<noteq> []"
  by (subst Int_Bytes.simps) simp

end
