(* ===== verification/Jwt.thy ===== *)
theory Jwt
  imports AsCompat Base64
begin

text \<open>
  Signed tokens (\<open>src/internal/jwt/jwt.go\<close> and \<open>multialg.go\<close>): the claim set and its JSON shape,
  signing with one of three algorithms, and verification with the key registered for the token's key
  identifier. JSON texts, SHA-256, the three signature schemes and the DER form of an ECDSA signature
  are library functions and appear as the fields of a parameter.
\<close>

section \<open>Claims\<close>

text \<open>
  The dynamic values a claim can have: those the server puts in (\<open>string\<close>, \<open>int64\<close>, \<open>[]string\<close>,
  \<open>map[string]string\<close>, \<open>json.RawMessage\<close>) and those decoding yields (\<open>nil\<close>, \<open>bool\<close>, \<open>float64\<close>, of
  which only the integer part is ever read, \<open>[]any\<close>, \<open>map[string]any\<close>).
\<close>

datatype claim =
    CNull | CBool bool | CStr string | CInt int | CNum int | CStrs "string list" | CList "claim list"
  | CStrMap "(string \<times> string) list" | CMap "(string \<times> claim) list" | CRaw string

record Claims =
  cl_Iss :: string
  cl_Sub :: string
  cl_Aud :: string
  cl_Exp :: int
  cl_Iat :: int
  cl_Nbf :: int
  cl_Jti :: string
  cl_ClientID :: string
  cl_Scope :: string
  cl_Typ :: string
  cl_Extra :: "(string, claim) gomap"

definition AlgEdDSA :: string where "AlgEdDSA = ''EdDSA''"
definition AlgES256 :: string where "AlgES256 = ''ES256''"
definition AlgRS256 :: string where "AlgRS256 = ''RS256''"

definition TypeAccessToken :: string where "TypeAccessToken = ''at+jwt''"

record Header =
  h_Alg :: string
  h_Typ :: string
  h_Kid :: string

text \<open>A public key: Ed25519 bytes, a point of a named curve, or RSA modulus and exponent.\<close>

datatype PublicKey = EdKey string | EcKey string nat nat | RsaKey nat nat

text \<open>\<open>Sign\<close> is told whether it is given a digest (\<open>crypto.SHA256\<close>) or the message itself.\<close>

record Signer =
  sg_Public :: PublicKey
  sg_Sign :: "bool \<Rightarrow> string \<Rightarrow> string option"

record jwt_lib =
  jl_header :: "string \<Rightarrow> Header option"
  jl_header_json :: "Header \<Rightarrow> string option"
  jl_alias :: "string \<Rightarrow> Claims option"
  jl_alias_json :: "Claims \<Rightarrow> string option"
  jl_object :: "string \<Rightarrow> (string, claim) gomap option"
  jl_object_json :: "(string, claim) gomap \<Rightarrow> string option"
  jl_raw :: "string \<Rightarrow> (string, claim option) gomap option"
  jl_sha256 :: "string \<Rightarrow> string"
  jl_ed :: "string \<Rightarrow> string \<Rightarrow> string \<Rightarrow> bool"
  jl_ec :: "nat \<Rightarrow> nat \<Rightarrow> string \<Rightarrow> nat \<Rightarrow> nat \<Rightarrow> bool"
  jl_rsa :: "nat \<Rightarrow> nat \<Rightarrow> string \<Rightarrow> string \<Rightarrow> bool"
  jl_der :: "string \<Rightarrow> (nat \<times> nat \<times> string) option"

datatype jwt_error =
    JwtSegments | JwtHeaderDecode | JwtHeaderParse | JwtUnsupportedAlg | JwtMissingTyp | JwtUnsupportedTyp
  | JwtMissingKid | JwtUnknownKid | JwtAlgMismatch | JwtKeyLength | JwtSignatureDecode | JwtSignatureMismatch
  | JwtPayloadDecode | JwtPayloadParse | JwtExpired | JwtNotYetValid | JwtAudMismatch
  | JwtKeyType | JwtMarshal | JwtSign | JwtMalformedECDSA

text \<open>
  Registered fields win over additional ones when a claim set is written. The embedded structure
  type has no \<open>Extra\<close> in its JSON.
\<close>

definition MarshalJSON :: "jwt_lib \<Rightarrow> Claims \<Rightarrow> string option" where
  "MarshalJSON lib c =
     (case jl_alias_json lib (c\<lparr>cl_Extra := []\<rparr>) of
        None \<Rightarrow> None
      | Some base \<Rightarrow>
          if cl_Extra c = [] then Some base
          else case jl_object lib base of
            None \<Rightarrow> None
          | Some registered \<Rightarrow>
              jl_object_json lib (foldl (\<lambda>m (k, v). if gm_get registered k \<noteq> None then m else gm_put k v m)
                registered (cl_Extra c)))"

definition registered_claims :: "string list" where
  "registered_claims = [''iss'', ''sub'', ''aud'', ''exp'', ''iat'', ''nbf'', ''jti'', ''client_id'', ''scope'', ''typ'']"

definition UnmarshalJSON :: "jwt_lib \<Rightarrow> string \<Rightarrow> Claims option" where
  "UnmarshalJSON lib data =
     (case jl_alias lib data of
        None \<Rightarrow> None
      | Some a \<Rightarrow>
          (case jl_raw lib data of
             None \<Rightarrow> None
           | Some raw \<Rightarrow>
               Some (a\<lparr>cl_Extra := foldl (\<lambda>m (k, v). if k \<in> set registered_claims then m
                   else case v of None \<Rightarrow> m | Some x \<Rightarrow> gm_put k x m) [] raw\<rparr>)))"

section \<open>Signatures\<close>

definition SupportedAlg :: "string \<Rightarrow> bool" where
  "SupportedAlg alg \<longleftrightarrow> alg = AlgEdDSA \<or> alg = AlgES256 \<or> alg = AlgRS256"

text \<open>
  \<open>FillBytes\<close> panics on a number of more than \<open>k\<close> bytes; the halves of a P-256 signature have at most
  32.
\<close>

definition derToRaw :: "jwt_lib \<Rightarrow> string \<Rightarrow> nat \<Rightarrow> string option" where
  "derToRaw lib der k =
     (case jl_der lib der of
        Some (r, s, rest) \<Rightarrow>
          if rest \<noteq> [] then None
          else (case (FillBytes k r, FillBytes k s) of (Some x, Some y) \<Rightarrow> Some (x @ y) | _ \<Rightarrow> None)
      | None \<Rightarrow> None)"

definition signBytes :: "jwt_lib \<Rightarrow> string \<Rightarrow> Signer \<Rightarrow> string \<Rightarrow> jwt_error + string" where
  "signBytes lib alg signer msg =
     (if alg = AlgEdDSA then
        (case sg_Public signer of
           EdKey _ \<Rightarrow> (case sg_Sign signer False msg of None \<Rightarrow> Inl JwtSign | Some sig \<Rightarrow> Inr sig)
         | _ \<Rightarrow> Inl JwtKeyType)
      else if alg = AlgES256 then
        (case sg_Public signer of
           EcKey curve _ _ \<Rightarrow>
             if curve \<noteq> ''P-256'' then Inl JwtKeyType
             else (case sg_Sign signer True (jl_sha256 lib msg) of
                None \<Rightarrow> Inl JwtSign
              | Some der \<Rightarrow> (case derToRaw lib der 32 of None \<Rightarrow> Inl JwtMalformedECDSA | Some raw \<Rightarrow> Inr raw))
         | _ \<Rightarrow> Inl JwtKeyType)
      else if alg = AlgRS256 then
        (case sg_Public signer of
           RsaKey _ _ \<Rightarrow>
             (case sg_Sign signer True (jl_sha256 lib msg) of None \<Rightarrow> Inl JwtSign | Some sig \<Rightarrow> Inr sig)
         | _ \<Rightarrow> Inl JwtKeyType)
      else Inl JwtUnsupportedAlg)"

definition PublicKeySize :: nat where "PublicKeySize = 32"

definition verifyBytes :: "jwt_lib \<Rightarrow> string \<Rightarrow> PublicKey \<Rightarrow> string \<Rightarrow> string \<Rightarrow> bool" where
  "verifyBytes lib alg pub msg sig =
     (if alg = AlgEdDSA then
        (case pub of EdKey k \<Rightarrow> length k = PublicKeySize \<and> jl_ed lib k msg sig | _ \<Rightarrow> False)
      else if alg = AlgES256 then
        (case pub of
           EcKey curve x y \<Rightarrow>
             if curve \<noteq> ''P-256'' \<or> length sig \<noteq> 64 then False
             else jl_ec lib x y (jl_sha256 lib msg) (SetBytes (take 32 sig)) (SetBytes (drop 32 sig))
         | _ \<Rightarrow> False)
      else if alg = AlgRS256 then
        (case pub of RsaKey n e \<Rightarrow> jl_rsa lib n e (jl_sha256 lib msg) sig | _ \<Rightarrow> False)
      else False)"

definition SignWith :: "jwt_lib \<Rightarrow> Claims \<Rightarrow> string \<Rightarrow> string \<Rightarrow> string \<Rightarrow> Signer option \<Rightarrow> jwt_error + string" where
  "SignWith lib claims typ kid alg signer =
     (case signer of
        None \<Rightarrow> Inl JwtSign
      | Some signer \<Rightarrow>
          (case jl_header_json lib \<lparr>h_Alg = alg, h_Typ = typ, h_Kid = kid\<rparr> of
             None \<Rightarrow> Inl JwtMarshal
           | Some headerJSON \<Rightarrow>
               (case MarshalJSON lib claims of
                  None \<Rightarrow> Inl JwtMarshal
                | Some payloadJSON \<Rightarrow>
                    (let inp = EncodeToString headerJSON @ ''.'' @ EncodeToString payloadJSON in
                     case signBytes lib alg signer inp of
                       Inl e \<Rightarrow> Inl e
                     | Inr sig \<Rightarrow> Inr (inp @ ''.'' @ EncodeToString sig)))))"

section \<open>Verification\<close>

record VerifyOptions =
  vo_AllowMissingTyp :: bool
  vo_Skew :: duration
  vo_IgnoreExpiry :: bool

type_synonym KeyResolver = "string \<Rightarrow> (string \<times> PublicKey) option"

definition VerifyWith ::
  "jwt_lib \<Rightarrow> string \<Rightarrow> KeyResolver \<Rightarrow> string \<Rightarrow> string \<Rightarrow> time \<Rightarrow> VerifyOptions \<Rightarrow> jwt_error + Claims" where
  "VerifyWith lib token resolve expectedTyp expectedAud now opts =
     (case Split CHR ''.'' token of
        [p0, p1, p2] \<Rightarrow>
          (case DecodeString p0 of None \<Rightarrow> Inl JwtHeaderDecode | Some headerBytes \<Rightarrow>
          (case jl_header lib headerBytes of None \<Rightarrow> Inl JwtHeaderParse | Some h \<Rightarrow>
           if \<not> SupportedAlg (h_Alg h) then Inl JwtUnsupportedAlg
           else if h_Typ h \<noteq> expectedTyp \<and> (h_Typ h \<noteq> [] \<or> \<not> vo_AllowMissingTyp opts) then Inl JwtUnsupportedTyp
           else if h_Kid h = [] then Inl JwtMissingKid
           else (case resolve (h_Kid h) of None \<Rightarrow> Inl JwtUnknownKid | Some (alg, pub) \<Rightarrow>
             if alg \<noteq> h_Alg h then Inl JwtAlgMismatch
             else (case DecodeString p2 of None \<Rightarrow> Inl JwtSignatureDecode | Some sig \<Rightarrow>
               if \<not> verifyBytes lib alg pub (p0 @ ''.'' @ p1) sig then Inl JwtSignatureMismatch
               else (case DecodeString p1 of None \<Rightarrow> Inl JwtPayloadDecode | Some payloadBytes \<Rightarrow>
                 (case UnmarshalJSON lib payloadBytes of None \<Rightarrow> Inl JwtPayloadParse | Some c \<Rightarrow>
                  if \<not> vo_IgnoreExpiry opts \<and> (cl_Exp c = 0 \<or> time_Unix (cl_Exp c) + vo_Skew opts < now)
                  then Inl JwtExpired
                  else if cl_Nbf c \<noteq> 0 \<and> now < time_Unix (cl_Nbf c) - vo_Skew opts then Inl JwtNotYetValid
                  else if expectedAud \<noteq> [] \<and> cl_Aud c \<noteq> expectedAud then Inl JwtAudMismatch
                  else Inr c))))))
      | _ \<Rightarrow> Inl JwtSegments)"

text \<open>The entry points for Ed25519 only.\<close>

definition VerifyOpts ::
  "jwt_lib \<Rightarrow> string \<Rightarrow> (string \<Rightarrow> string option) \<Rightarrow> string \<Rightarrow> time \<Rightarrow> VerifyOptions \<Rightarrow> jwt_error + Claims" where
  "VerifyOpts lib token resolve expectedAud now opts =
     (case Split CHR ''.'' token of
        [p0, p1, p2] \<Rightarrow>
          (case DecodeString p0 of None \<Rightarrow> Inl JwtHeaderDecode | Some headerBytes \<Rightarrow>
          (case jl_header lib headerBytes of None \<Rightarrow> Inl JwtHeaderParse | Some h \<Rightarrow>
           if h_Alg h \<noteq> AlgEdDSA then Inl JwtUnsupportedAlg
           else if h_Typ h = [] \<and> \<not> vo_AllowMissingTyp opts then Inl JwtMissingTyp
           else if h_Typ h \<noteq> [] \<and> h_Typ h \<noteq> TypeAccessToken then Inl JwtUnsupportedTyp
           else if h_Kid h = [] then Inl JwtMissingKid
           else (case resolve (h_Kid h) of None \<Rightarrow> Inl JwtUnknownKid | Some pub \<Rightarrow>
             if length pub \<noteq> PublicKeySize then Inl JwtKeyLength
             else (case DecodeString p2 of None \<Rightarrow> Inl JwtSignatureDecode | Some sig \<Rightarrow>
               if \<not> jl_ed lib pub (p0 @ ''.'' @ p1) sig then Inl JwtSignatureMismatch
               else (case DecodeString p1 of None \<Rightarrow> Inl JwtPayloadDecode | Some payloadBytes \<Rightarrow>
                 (case UnmarshalJSON lib payloadBytes of None \<Rightarrow> Inl JwtPayloadParse | Some c \<Rightarrow>
                  if cl_Exp c = 0 \<or> time_Unix (cl_Exp c) + vo_Skew opts < now then Inl JwtExpired
                  else if cl_Nbf c \<noteq> 0 \<and> now < time_Unix (cl_Nbf c) - vo_Skew opts then Inl JwtNotYetValid
                  else if expectedAud \<noteq> [] \<and> cl_Aud c \<noteq> expectedAud then Inl JwtAudMismatch
                  else Inr c))))))
      | _ \<Rightarrow> Inl JwtSegments)"

definition Verify ::
  "jwt_lib \<Rightarrow> string \<Rightarrow> (string \<Rightarrow> string option) \<Rightarrow> string \<Rightarrow> time \<Rightarrow> jwt_error + Claims" where
  "Verify lib token resolve expectedAud now =
     VerifyOpts lib token resolve expectedAud now
       \<lparr>vo_AllowMissingTyp = False, vo_Skew = 0, vo_IgnoreExpiry = False\<rparr>"

text \<open>The check of security event tokens, which reads no registered claim.\<close>

definition VerifySignature :: "jwt_lib \<Rightarrow> string \<Rightarrow> KeyResolver \<Rightarrow> string \<Rightarrow> jwt_error + Header \<times> string" where
  "VerifySignature lib token resolve expectedTyp =
     (case Split CHR ''.'' token of
        [p0, p1, p2] \<Rightarrow>
          (case DecodeString p0 of None \<Rightarrow> Inl JwtHeaderDecode | Some headerBytes \<Rightarrow>
          (case jl_header lib headerBytes of None \<Rightarrow> Inl JwtHeaderParse | Some h \<Rightarrow>
           if \<not> SupportedAlg (h_Alg h) then Inl JwtUnsupportedAlg
           else if h_Typ h \<noteq> expectedTyp then Inl JwtUnsupportedTyp
           else if h_Kid h = [] then Inl JwtMissingKid
           else (case resolve (h_Kid h) of None \<Rightarrow> Inl JwtUnknownKid | Some (alg, pub) \<Rightarrow>
             if alg \<noteq> h_Alg h then Inl JwtAlgMismatch
             else (case DecodeString p2 of None \<Rightarrow> Inl JwtSignatureDecode | Some sig \<Rightarrow>
               if \<not> verifyBytes lib alg pub (p0 @ ''.'' @ p1) sig then Inl JwtSignatureMismatch
               else (case DecodeString p1 of None \<Rightarrow> Inl JwtPayloadDecode | Some payload \<Rightarrow> Inr (h, payload))))))
      | _ \<Rightarrow> Inl JwtSegments)"

definition PeekHeader :: "jwt_lib \<Rightarrow> string \<Rightarrow> jwt_error + Header" where
  "PeekHeader lib token =
     (case Split CHR ''.'' token of
        [p0, p1, p2] \<Rightarrow>
          (case DecodeString p0 of None \<Rightarrow> Inl JwtHeaderDecode | Some headerBytes \<Rightarrow>
          (case jl_header lib headerBytes of None \<Rightarrow> Inl JwtHeaderParse | Some h \<Rightarrow> Inr h))
      | _ \<Rightarrow> Inl JwtSegments)"

section \<open>What verification accepts\<close>

lemma Split_nonempty: "Split c s \<noteq> []"
  by (induction s) (auto split: list.splits)

lemma Split_parts: "w \<in> set (Split c s) \<Longrightarrow> c \<notin> set w"
  by (induction s arbitrary: w) (auto split: list.splits if_splits)

lemma Split_three: "Split c s = [p0, p1, p2] \<Longrightarrow> s = p0 @ [c] @ p1 @ [c] @ p2"
proof -
  have "s = concat (map (\<lambda>w. w @ [c]) (butlast (Split c s))) @ last (Split c s)"
    by (induction s) (auto simp: Split_nonempty split: list.splits)
  moreover assume "Split c s = [p0, p1, p2]"
  ultimately show ?thesis by simp
qed

lemma Split_plain: "c \<notin> set s \<Longrightarrow> Split c s = [s]"
  by (induction s) auto

lemma Split_append: "c \<notin> set a \<Longrightarrow> Split c (a @ c # b) = a # Split c b"
  by (induction a) auto

lemma Split_encoded:
  "Split CHR ''.'' ((EncodeToString a @ ''.'' @ EncodeToString b) @ ''.'' @ EncodeToString c)
   = [EncodeToString a, EncodeToString b, EncodeToString c]"
proof -
  have "CHR ''.'' \<notin> set (EncodeToString s)" for s using EncodeToString_plain by blast
  then show ?thesis by (simp add: Split_append Split_plain)
qed

text \<open>
  What the signature libraries promise: a signature made by a signer verifies under its public key.
  For ECDSA the library's signature is a DER sequence of two numbers.
\<close>

definition signer_ok :: "jwt_lib \<Rightarrow> Signer \<Rightarrow> bool" where
  "signer_ok lib sg \<longleftrightarrow>
     (case sg_Public sg of
        EdKey k \<Rightarrow> length k = PublicKeySize \<and> (\<forall>m s. sg_Sign sg False m = Some s \<longrightarrow> jl_ed lib k m s)
      | EcKey curve x y \<Rightarrow>
          \<forall>d der. sg_Sign sg True d = Some der \<longrightarrow> (\<exists>r s. jl_der lib der = Some (r, s, []) \<and> jl_ec lib x y d r s)
      | RsaKey n e \<Rightarrow> \<forall>d s. sg_Sign sg True d = Some s \<longrightarrow> jl_rsa lib n e d s)"

lemma signBytes_verifyBytes:
  assumes "signer_ok lib sg" and "signBytes lib alg sg msg = Inr sig"
  shows "verifyBytes lib alg (sg_Public sg) msg sig"
proof (cases "sg_Public sg")
  case (EcKey curve x y)
  from assms(2) EcKey have alg: "alg = AlgES256" "curve = ''P-256''"
    by (auto simp: signBytes_def split: if_splits)
  from assms(2) EcKey alg obtain der where der: "sg_Sign sg True (jl_sha256 lib msg) = Some der" "derToRaw lib der 32 = Some sig"
    by (auto simp: signBytes_def AlgEdDSA_def AlgES256_def split: option.splits)
  from assms(1) EcKey der(1) obtain r s where rs: "jl_der lib der = Some (r, s, [])" "jl_ec lib x y (jl_sha256 lib msg) r s"
    by (fastforce simp: signer_ok_def)
  with der(2) obtain a b where ab: "FillBytes 32 r = Some a" "FillBytes 32 s = Some b" "sig = a @ b"
    by (auto simp: derToRaw_def split: option.splits)
  from SetBytes_FillBytes [OF ab(1)] SetBytes_FillBytes [OF ab(2)] rs(2) show ?thesis
    by (simp add: verifyBytes_def EcKey alg ab(3) AlgEdDSA_def AlgES256_def)
qed (use assms in \<open>auto simp: signBytes_def verifyBytes_def signer_ok_def split: if_splits option.splits\<close>)


lemma VerifyWith_signed:
  assumes "SignWith lib claims typ kid alg (Some sg) = Inr token" and "signer_ok lib sg" and "kid \<noteq> []"
    and "\<And>t. jl_header_json lib \<lparr>h_Alg = alg, h_Typ = typ, h_Kid = kid\<rparr> = Some t \<Longrightarrow>
          jl_header lib t = Some \<lparr>h_Alg = alg, h_Typ = typ, h_Kid = kid\<rparr>"
    and "\<And>t. MarshalJSON lib claims = Some t \<Longrightarrow> UnmarshalJSON lib t = Some claims"
  shows "resolve kid = None \<Longrightarrow> VerifyWith lib token resolve typ aud now opts = Inl JwtUnknownKid"
    and "resolve kid = Some (alg, sg_Public sg) \<Longrightarrow> VerifyWith lib token resolve typ aud now opts =
    (if \<not> vo_IgnoreExpiry opts \<and> (cl_Exp claims = 0 \<or> time_Unix (cl_Exp claims) + vo_Skew opts < now)
     then Inl JwtExpired
     else if cl_Nbf claims \<noteq> 0 \<and> now < time_Unix (cl_Nbf claims) - vo_Skew opts then Inl JwtNotYetValid
     else if aud \<noteq> [] \<and> cl_Aud claims \<noteq> aud then Inl JwtAudMismatch
     else Inr claims)"
proof -
  from assms(1) obtain hj pj sig where j: "jl_header_json lib \<lparr>h_Alg = alg, h_Typ = typ, h_Kid = kid\<rparr> = Some hj"
      "MarshalJSON lib claims = Some pj"
      "signBytes lib alg sg (EncodeToString hj @ ''.'' @ EncodeToString pj) = Inr sig"
      "token = (EncodeToString hj @ ''.'' @ EncodeToString pj) @ ''.'' @ EncodeToString sig"
    by (auto simp: SignWith_def Let_def split: option.splits sum.splits)
  have v: "verifyBytes lib alg (sg_Public sg) (EncodeToString hj @ ''.'' @ EncodeToString pj) sig"
    by (rule signBytes_verifyBytes [OF assms(2) j(3)])
  have alg: "SupportedAlg alg" using j(3) by (auto simp: signBytes_def SupportedAlg_def split: if_splits)
  show "resolve kid = None \<Longrightarrow> VerifyWith lib token resolve typ aud now opts = Inl JwtUnknownKid"
    unfolding VerifyWith_def j(4) Split_encoded using v alg assms(3) assms(4) [OF j(1)] by simp
  show "resolve kid = Some (alg, sg_Public sg) \<Longrightarrow> VerifyWith lib token resolve typ aud now opts =
    (if \<not> vo_IgnoreExpiry opts \<and> (cl_Exp claims = 0 \<or> time_Unix (cl_Exp claims) + vo_Skew opts < now)
     then Inl JwtExpired
     else if cl_Nbf claims \<noteq> 0 \<and> now < time_Unix (cl_Nbf claims) - vo_Skew opts then Inl JwtNotYetValid
     else if aud \<noteq> [] \<and> cl_Aud claims \<noteq> aud then Inl JwtAudMismatch
     else Inr claims)"
    unfolding VerifyWith_def j(4) Split_encoded using v alg assms(3) assms(4) [OF j(1)] assms(5) [OF j(2)] by simp
qed


section \<open>A token\<close>

text \<open>An Ed25519 key whose signature is the message itself, and one claim set.\<close>

definition ex_claims :: Claims where
  "ex_claims = \<lparr>cl_Iss = ''iss'', cl_Sub = ''u'', cl_Aud = ''api'', cl_Exp = 2000, cl_Iat = 1000, cl_Nbf = 0,
     cl_Jti = ''j'', cl_ClientID = ''cli'', cl_Scope = ''read'', cl_Typ = TypeAccessToken, cl_Extra = []\<rparr>"

definition ex_lib :: jwt_lib where
  "ex_lib = \<lparr>jl_header = (\<lambda>t. if t = ''H'' then Some \<lparr>h_Alg = AlgEdDSA, h_Typ = TypeAccessToken, h_Kid = ''k''\<rparr> else None),
     jl_header_json = (\<lambda>_. Some ''H''), jl_alias = (\<lambda>t. if t = ''C'' then Some ex_claims else None),
     jl_alias_json = (\<lambda>_. Some ''C''), jl_object = (\<lambda>_. None), jl_object_json = (\<lambda>_. None), jl_raw = (\<lambda>_. Some []),
     jl_sha256 = (\<lambda>m. m), jl_ed = (\<lambda>k m s. s = m), jl_ec = (\<lambda>_ _ _ _ _. False), jl_rsa = (\<lambda>_ _ _ _. False),
     jl_der = (\<lambda>_. None)\<rparr>"

definition ex_signer :: Signer where
  "ex_signer = \<lparr>sg_Public = EdKey (replicate 32 CHR ''p''), sg_Sign = (\<lambda>_ m. Some m)\<rparr>"

definition ex_token :: string where
  "ex_token = (case SignWith ex_lib ex_claims TypeAccessToken ''k'' AlgEdDSA (Some ex_signer) of Inl _ \<Rightarrow> [] | Inr t \<Rightarrow> t)"

definition ex_resolve :: KeyResolver where
  "ex_resolve kid = (if kid = ''k'' then Some (AlgEdDSA, sg_Public ex_signer) else None)"

definition ex_opts :: VerifyOptions where
  "ex_opts = \<lparr>vo_AllowMissingTyp = False, vo_Skew = 0, vo_IgnoreExpiry = False\<rparr>"



end
