(* ===== verification/Jwks.thy ===== *)
theory Jwks
  imports AsStore Jwt
begin

text \<open>
  The signing keys of the authorization server (\<open>src/internal/as/jwks.go\<close>): generating a key pair for
  an algorithm, the in-memory snapshot that signing and verification read, bootstrapping, lazily
  minting the keys of an algorithm, and the rotation that moves every key from next to current to
  previous to retired. The store is the in-process one, which has no atomic rotation, so that the
  fallback path runs; all callers hold \<open>rotationMu\<close>, so that each operation is one step of the state.
  Random keys are drawn as arguments; the JSON of a key, decryption and the reading of private keys
  are library functions.
\<close>

section \<open>Keys\<close>

definition defaultSigningAlg :: "Config \<Rightarrow> string" where
  "defaultSigningAlg cfg = (if cf_SigningAlg cfg = [] then AlgEdDSA else cf_SigningAlg cfg)"

definition SigningAlgEnabled :: "Config \<Rightarrow> string \<Rightarrow> bool" where
  "SigningAlgEnabled cfg alg =
     (if alg = defaultSigningAlg cfg then True
      else case cf_TokenPolicy cfg of None \<Rightarrow> False | Some tp \<Rightarrow> alg \<in> set (tp_SigningAlgs tp))"

record jwk =
  j_Kty :: string
  j_Crv :: string
  j_X :: string
  j_Y :: string
  j_N :: string
  j_E :: string
  j_Alg :: string
  j_Use :: string
  j_Kid :: string

record key_lib =
  kl_jwk :: "string \<Rightarrow> jwk option"
  kl_jwk_json :: "jwk \<Rightarrow> string option"
  kl_decrypt :: "string \<Rightarrow> string option"
  kl_seed :: "string \<Rightarrow> Signer"
  kl_pkcs8 :: "string \<Rightarrow> Signer option"
  kl_point :: "string \<Rightarrow> bool"

text \<open>
  The outcome of the random generator in one call of \<open>generateKeypair\<close>: the identifier, a public and
  private key of each kind (none when generation or its encoding fails), and the encryption.
\<close>

record key_draw =
  kd_kid :: string
  kd_ed :: "(string \<times> string) option"
  kd_ec :: "(nat \<times> nat \<times> string) option"
  kd_rsa :: "(nat \<times> nat \<times> string) option"
  kd_enc :: "string \<Rightarrow> string option"
  kd_now :: time

datatype jwks_error =
    JwksGenerate | JwksUnsupportedAlg | JwksMarshal | JwksEncrypt | JwksDecrypt | JwksSeedLength | JwksPrivate
  | JwksInsertCurrent | JwksInsertNext | JwksNoCurrent | JwksNotEnabled | JwksCannotRotate | JwksUpdate

definition new_jwk :: "string \<Rightarrow> key_draw \<Rightarrow> jwks_error + jwk \<times> string" where
  "new_jwk alg d =
     (let z = \<lparr>j_Kty = [], j_Crv = [], j_X = [], j_Y = [], j_N = [], j_E = [], j_Alg = alg, j_Use = ''sig'', j_Kid = kd_kid d\<rparr> in
      if alg = AlgEdDSA then
        (case kd_ed d of
           None \<Rightarrow> Inl JwksGenerate
         | Some (pub, seed) \<Rightarrow> Inr (z\<lparr>j_Kty := ''OKP'', j_Crv := ''Ed25519'', j_X := EncodeToString pub\<rparr>, seed))
      else if alg = AlgES256 then
        (case kd_ec d of
           None \<Rightarrow> Inl JwksGenerate
         | Some (x, y, der) \<Rightarrow>
             (case (FillBytes 32 x, FillBytes 32 y) of
                (Some bx, Some by) \<Rightarrow>
                  Inr (z\<lparr>j_Kty := ''EC'', j_Crv := ''P-256'', j_X := EncodeToString bx, j_Y := EncodeToString by\<rparr>, der)
              | _ \<Rightarrow> Inl JwksGenerate))
      else if alg = AlgRS256 then
        (case kd_rsa d of
           None \<Rightarrow> Inl JwksGenerate
         | Some (n, e, der) \<Rightarrow>
             Inr (z\<lparr>j_Kty := ''RSA'', j_N := EncodeToString (Int_Bytes n), j_E := EncodeToString (Int_Bytes e)\<rparr>, der))
      else Inl JwksUnsupportedAlg)"

definition generateKeypair :: "key_lib \<Rightarrow> key_draw \<Rightarrow> string \<Rightarrow> string \<Rightarrow> jwks_error + JWKSKey" where
  "generateKeypair lib d alg state =
     (case new_jwk alg d of
        Inl e \<Rightarrow> Inl e
      | Inr (public, secret) \<Rightarrow>
          (case kl_jwk_json lib public of
             None \<Rightarrow> Inl JwksMarshal
           | Some pubBytes \<Rightarrow>
               (case kd_enc d secret of
                  None \<Rightarrow> Inl JwksEncrypt
                | Some enc \<Rightarrow>
                    Inr \<lparr>jk_KID = kd_kid d, jk_Alg = alg, jk_Use = ''sig'', jk_PublicJWK = pubBytes, jk_PrivateEnc = enc,
                         jk_State = state, jk_CreatedAt = kd_now d,
                         jk_PromotedAt = (if state = JWKSStateCurrent then Some (kd_now d) else None),
                         jk_RetiredAt = None\<rparr>)))"

definition loadPrivateKey :: "key_lib \<Rightarrow> JWKSKey \<Rightarrow> jwks_error + Signer" where
  "loadPrivateKey lib k =
     (case kl_decrypt lib (jk_PrivateEnc k) of
        None \<Rightarrow> Inl JwksDecrypt
      | Some raw \<Rightarrow>
          if jk_Alg k = AlgEdDSA \<or> jk_Alg k = [] then
            (if length raw \<noteq> 32 then Inl JwksSeedLength else Inr (kl_seed lib raw))
          else case kl_pkcs8 lib raw of None \<Rightarrow> Inl JwksPrivate | Some signer \<Rightarrow> Inr signer)"

definition jwk_dec :: "string \<Rightarrow> string option" where
  "jwk_dec v = (case DecodeString v of None \<Rightarrow> None | Some b \<Rightarrow> if b = [] then None else Some b)"

text \<open>
  A point of P-256 is checked on the curve in its uncompressed encoding. The exponent of an RSA key
  is read as an \<open>int\<close>: \<open>Int64\<close> keeps the low 64 bits.
\<close>

definition parsePublicJWK :: "key_lib \<Rightarrow> string \<Rightarrow> (string \<times> PublicKey) option" where
  "parsePublicJWK lib raw =
     (case kl_jwk lib raw of
        None \<Rightarrow> None
      | Some j \<Rightarrow>
          if j_Kty j = ''OKP'' then
            (case jwk_dec (j_X j) of
               None \<Rightarrow> None
             | Some x \<Rightarrow> if length x \<noteq> PublicKeySize then None else Some (AlgEdDSA, EdKey x))
          else if j_Kty j = ''EC'' then
            (case (jwk_dec (j_X j), jwk_dec (j_Y j)) of
               (Some x, Some y) \<Rightarrow>
                 if j_Crv j \<noteq> ''P-256'' then None
                 else if length x > 32 \<or> length y > 32 then None
                 else if \<not> kl_point lib (CHR 0x04 # be_bytes 32 (SetBytes x) @ be_bytes 32 (SetBytes y)) then None
                 else Some (AlgES256, EcKey ''P-256'' (SetBytes x) (SetBytes y))
             | _ \<Rightarrow> None)
          else if j_Kty j = ''RSA'' then
            (case (jwk_dec (j_N j), jwk_dec (j_E j)) of
               (Some n, Some e) \<Rightarrow> Some (AlgRS256, RsaKey (SetBytes n) (nat (i64 (int (SetBytes e)))))
             | _ \<Rightarrow> None)
          else None)"

section \<open>The snapshot\<close>

record KeyService =
  ks_v20 :: v20State
  ks_keys :: "JWKSKey list"
  ks_keyMap :: "(string, JWKSKey) gomap"
  ks_priv :: "(string, Signer) gomap"
  ks_pub :: "(string, string \<times> PublicKey) gomap"

definition state_order :: "JWKSKey \<Rightarrow> nat" where
  "state_order k =
     (if jk_State k = JWKSStateCurrent then 0 else if jk_State k = JWKSStateNext then 1
      else if jk_State k = JWKSStatePrevious then 2 else if jk_State k = JWKSStateRetired then 3 else 0)"

definition snapshot_key :: "key_lib \<Rightarrow> JWKSKey \<Rightarrow> KeyService \<Rightarrow> KeyService" where
  "snapshot_key lib k s =
     (let s = s\<lparr>ks_keyMap := gm_put (jk_KID k) k (ks_keyMap s)\<rparr>;
          s = (case parsePublicJWK lib (jk_PublicJWK k) of
                 None \<Rightarrow> s | Some vk \<Rightarrow> s\<lparr>ks_pub := gm_put (jk_KID k) vk (ks_pub s)\<rparr>)
      in if jk_State k = JWKSStateRetired then s
         else case loadPrivateKey lib k of
           Inl e \<Rightarrow> s
         | Inr priv \<Rightarrow> s\<lparr>ks_priv := gm_put (jk_KID k) priv (ks_priv s)\<rparr>)"

definition refreshJWKSSnapshot :: "key_lib \<Rightarrow> JWKSKey list \<Rightarrow> KeyService \<Rightarrow> KeyService" where
  "refreshJWKSSnapshot lib keys s =
     (let keys = sort_key state_order keys in
      foldl (\<lambda>s k. snapshot_key lib k s) (s\<lparr>ks_keys := keys, ks_keyMap := [], ks_priv := [], ks_pub := []\<rparr>) keys)"

definition hasCurrentKey :: "string \<Rightarrow> KeyService \<Rightarrow> bool" where
  "hasCurrentKey alg s = list_ex (\<lambda>k. jk_State k = JWKSStateCurrent \<and> jk_Alg k = alg) (ks_keys s)"

definition currentKeyForAlg :: "key_lib \<Rightarrow> string \<Rightarrow> KeyService \<Rightarrow> jwks_error + JWKSKey \<times> Signer" where
  "currentKeyForAlg lib alg s =
     (case find (\<lambda>k. jk_State k = JWKSStateCurrent \<and> jk_Alg k = alg) (ks_keys s) of
        None \<Rightarrow> Inl JwksNoCurrent
      | Some k \<Rightarrow>
          (case gm_get (ks_priv s) (jk_KID k) of
             Some priv \<Rightarrow> Inr (k, priv)
           | None \<Rightarrow>
               (case loadPrivateKey lib k of Inl e \<Rightarrow> Inl e | Inr fallback \<Rightarrow> Inr (k, fallback))))"

definition CurrentSigningKey :: "key_lib \<Rightarrow> Config \<Rightarrow> KeyService \<Rightarrow> jwks_error + JWKSKey \<times> Signer" where
  "CurrentSigningKey lib cfg s = currentKeyForAlg lib (defaultSigningAlg cfg) s"

definition VerificationKey :: "KeyService \<Rightarrow> KeyResolver" where
  "VerificationKey s kid =
     (case gm_get (ks_keyMap s) kid of
        None \<Rightarrow> None
      | Some k \<Rightarrow> if jk_State k = JWKSStateRetired then None else gm_get (ks_pub s) kid)"

definition PublicKeyByKID :: "KeyService \<Rightarrow> string \<Rightarrow> string option" where
  "PublicKeyByKID s kid =
     (case VerificationKey s kid of
        None \<Rightarrow> None
      | Some (alg, pub) \<Rightarrow>
          if alg \<noteq> AlgEdDSA then None else case pub of EdKey k \<Rightarrow> Some k | _ \<Rightarrow> None)"

text \<open>The keys of the published document.\<close>

definition RenderJWKSDoc :: "key_lib \<Rightarrow> KeyService \<Rightarrow> jwk list" where
  "RenderJWKSDoc lib s =
     List.map_filter (\<lambda>k. if jk_State k = JWKSStateRetired then None else kl_jwk lib (jk_PublicJWK k)) (ks_keys s)"

section \<open>Minting keys\<close>

definition adoptConcurrentKeyset ::
  "key_lib \<Rightarrow> string \<Rightarrow> jwks_error \<Rightarrow> KeyService \<Rightarrow> jwks_error option \<times> KeyService" where
  "adoptConcurrentKeyset lib alg cause s =
     (let s = refreshJWKSSnapshot lib (JWKSKeysAll (ks_v20 s)) s
      in if hasCurrentKey alg s then (None, s) else (Some cause, s))"

definition ensureKeysetLocked ::
  "key_lib \<Rightarrow> key_draw \<Rightarrow> key_draw \<Rightarrow> string \<Rightarrow> KeyService \<Rightarrow> jwks_error option \<times> KeyService" where
  "ensureKeysetLocked lib dc dn alg s =
     (if hasCurrentKey alg s then (None, s)
      else case generateKeypair lib dc alg JWKSStateCurrent of
        Inl e \<Rightarrow> (Some e, s)
      | Inr current \<Rightarrow>
          (case InsertJWKSKey (kd_now dc) current (ks_v20 s) of
             (Some e, v) \<Rightarrow> adoptConcurrentKeyset lib alg JwksInsertCurrent (s\<lparr>ks_v20 := v\<rparr>)
           | (None, v) \<Rightarrow>
               (let s = s\<lparr>ks_v20 := v\<rparr> in
                case generateKeypair lib dn alg JWKSStateNext of
                  Inl e \<Rightarrow> (Some e, s)
                | Inr next \<Rightarrow>
                    (case InsertJWKSKey (kd_now dn) next (ks_v20 s) of
                       (Some e, v) \<Rightarrow> (Some JwksInsertNext, s\<lparr>ks_v20 := v\<rparr>)
                     | (None, v) \<Rightarrow>
                         (let s = s\<lparr>ks_v20 := v\<rparr> in (None, refreshJWKSSnapshot lib (JWKSKeysAll (ks_v20 s)) s))))))"

definition bootstrapJWKS ::
  "key_lib \<Rightarrow> Config \<Rightarrow> key_draw \<Rightarrow> key_draw \<Rightarrow> KeyService \<Rightarrow> jwks_error option \<times> KeyService" where
  "bootstrapJWKS lib cfg dc dn s =
     ensureKeysetLocked lib dc dn (defaultSigningAlg cfg) (refreshJWKSSnapshot lib (JWKSKeysAll (ks_v20 s)) s)"

definition SigningKeyFor ::
  "key_lib \<Rightarrow> Config \<Rightarrow> key_draw \<Rightarrow> key_draw \<Rightarrow> string \<Rightarrow> KeyService
     \<Rightarrow> (jwks_error + JWKSKey \<times> Signer) \<times> KeyService" where
  "SigningKeyFor lib cfg dc dn alg s =
     (if \<not> SigningAlgEnabled cfg alg then (Inl JwksNotEnabled, s)
      else case currentKeyForAlg lib alg s of
        Inr r \<Rightarrow> (Inr r, s)
      | Inl _ \<Rightarrow>
          (case ensureKeysetLocked lib dc dn alg s of
             (Some e, s) \<Rightarrow> (Inl e, s)
           | (None, s) \<Rightarrow> (currentKeyForAlg lib alg s, s)))"

section \<open>Rotation\<close>

definition last_kid :: "string \<Rightarrow> JWKSKey list \<Rightarrow> string" where
  "last_kid state keys = foldl (\<lambda>acc k. if jk_State k = state then jk_KID k else acc) [] keys"

fun update_states :: "string list \<Rightarrow> string \<Rightarrow> time \<Rightarrow> v20State \<Rightarrow> jwks_error option \<times> v20State" where
  "update_states [] state now v = (None, v)"
| "update_states (kid # kids) state now v =
     (case UpdateJWKSKeyState kid state now v of
        (Some e, v) \<Rightarrow> (Some JwksUpdate, v)
      | (None, v) \<Rightarrow> update_states kids state now v)"

definition rotateAlg ::
  "key_lib \<Rightarrow> key_draw \<Rightarrow> string \<Rightarrow> JWKSKey list \<Rightarrow> time \<Rightarrow> v20State \<Rightarrow> jwks_error option \<times> v20State" where
  "rotateAlg lib d alg keys now v =
     (let current = last_kid JWKSStateCurrent keys;
          next = last_kid JWKSStateNext keys;
          retireKIDs = map jk_KID (filter (\<lambda>k. jk_State k = JWKSStatePrevious) keys)
      in if current = [] \<or> next = [] then (Some JwksCannotRotate, v)
         else case generateKeypair lib d alg JWKSStateNext of
           Inl e \<Rightarrow> (Some e, v)
         | Inr fresh \<Rightarrow>
             (case update_states retireKIDs JWKSStateRetired now v of
                (Some e, v) \<Rightarrow> (Some e, v)
              | (None, v) \<Rightarrow>
                  (case UpdateJWKSKeyState current JWKSStatePrevious now v of
                     (Some e, v) \<Rightarrow> (Some JwksUpdate, v)
                   | (None, v) \<Rightarrow>
                       (case UpdateJWKSKeyState next JWKSStateCurrent now v of
                          (Some e, v) \<Rightarrow> (Some JwksUpdate, v)
                        | (None, v) \<Rightarrow>
                            (case InsertJWKSKey (kd_now d) fresh v of
                               (Some e, v) \<Rightarrow> (Some JwksInsertNext, v)
                             | (None, v) \<Rightarrow> (None, v))))))"

fun rotate_algs ::
  "key_lib \<Rightarrow> (string \<Rightarrow> key_draw) \<Rightarrow> JWKSKey list \<Rightarrow> time \<Rightarrow> string list \<Rightarrow> v20State \<Rightarrow> jwks_error list \<times> v20State" where
  "rotate_algs lib d keys now [] v = ([], v)"
| "rotate_algs lib d keys now (alg # algs) v =
     (case rotateAlg lib (d alg) alg (filter (\<lambda>k. jk_Alg k = alg) keys) now v of
        (err, v) \<Rightarrow>
          (case rotate_algs lib d keys now algs v of
             (errs, v) \<Rightarrow> ((case err of None \<Rightarrow> errs | Some e \<Rightarrow> e # errs), v)))"

definition RotateSigningKey ::
  "key_lib \<Rightarrow> duration \<Rightarrow> (string \<Rightarrow> key_draw) \<Rightarrow> time \<Rightarrow> KeyService \<Rightarrow> jwks_error list \<times> KeyService" where
  "RotateSigningKey lib retention d now s =
     (let snapshot = ks_keys s;
          algs = remdups (sort (map jk_Alg snapshot))
      in if algs = [] then ([JwksCannotRotate], s)
         else case rotate_algs lib d snapshot now algs (ks_v20 s) of
           (errs, v) \<Rightarrow>
             (let s = s\<lparr>ks_v20 := v\<rparr> in
              if errs \<noteq> [] \<and> length errs = length algs then (errs, s)
              else
                (let cutoff = now - retention;
                     keep = (\<lambda>k. \<not> (jk_State k = JWKSStateRetired
                       \<and> (case jk_RetiredAt k of None \<Rightarrow> False | Some t \<Rightarrow> t < cutoff)))
                 in (errs, refreshJWKSSnapshot lib (filter keep (JWKSKeysAll (ks_v20 s))) s))))"

end
