(* ===== verification/Kv.thy ===== *)
theory Kv
  imports Prelude
begin

text \<open>
  The key/value store of \<open>src/kv\<close>: the contract of \<open>Cache\<close> (\<open>src/kv/kv.go\<close>) as a locale, its two
  clients there (the replay cache \<open>CacheReplay\<close> and the fixed-window limiter \<open>WindowLimiter\<close>), and
  the in-process adapter of \<open>src/kv/memory.go\<close>, which interprets the locale. Each operation of the
  adapter holds one mutex and reads the clock once: it is a function on the state that takes the
  reading as an argument. The adapter's own token bucket (\<open>Memory.Allow\<close>) computes in floating
  point and is left out.
\<close>

section \<open>The in-process adapter\<close>

record memEntry =
  me_value :: string
  me_n :: int
  me_expires :: time

definition expired :: "memEntry \<Rightarrow> time \<Rightarrow> bool" where
  "expired e now \<longleftrightarrow> \<not> IsZero (me_expires e) \<and> \<not> now < me_expires e"

record KvMemory =
  km_max :: nat
  km_entries :: "(string, memEntry) gomap"

definition DefaultMemoryMaxEntries :: nat where "DefaultMemoryMaxEntries = 100000"

text \<open>The option \<open>WithMaxEntries\<close> is \<open>Some n\<close>; a bound of zero or less is ignored.\<close>

definition NewKvMemory :: "int option \<Rightarrow> KvMemory" where
  "NewKvMemory opt =
     \<lparr>km_max = (case opt of Some n \<Rightarrow> if n > 0 then nat n else DefaultMemoryMaxEntries
                          | None \<Rightarrow> DefaultMemoryMaxEntries),
      km_entries = []\<rparr>"

definition kv_live :: "string \<Rightarrow> time \<Rightarrow> KvMemory \<Rightarrow> memEntry option \<times> KvMemory" where
  "kv_live key now m =
     (case gm_get (km_entries m) key of
        None \<Rightarrow> (None, m)
      | Some e \<Rightarrow>
          if expired e now then (None, m\<lparr>km_entries := gm_del key (km_entries m)\<rparr>)
          else (Some e, m))"

definition sweepEntries :: "time \<Rightarrow> KvMemory \<Rightarrow> KvMemory" where
  "sweepEntries now m = m\<lparr>km_entries := gm_drop (\<lambda>k e. expired e now) (km_entries m)\<rparr>"

text \<open>The instant that stands for "never" in the eviction order, \<open>time.Unix(1 << 40, 0)\<close>.\<close>

definition far_future :: time where
  "far_future = (62135596800 + 2 ^ 40) * second"

fun soonest :: "(string \<times> time) option \<Rightarrow> (string, memEntry) gomap \<Rightarrow> (string \<times> time) option" where
  "soonest best [] = best"
| "soonest best ((k, e) # es) =
     (let x = (if IsZero (me_expires e) then far_future else me_expires e) in
      case best of
        None \<Rightarrow> soonest (Some (k, x)) es
      | Some (_, b) \<Rightarrow> if x < b then soonest (Some (k, x)) es else soonest best es)"

definition evictSoonest :: "KvMemory \<Rightarrow> KvMemory" where
  "evictSoonest m =
     (case soonest None (km_entries m) of
        None \<Rightarrow> m
      | Some (victim, _) \<Rightarrow> m\<lparr>km_entries := gm_del victim (km_entries m)\<rparr>)"

definition kv_put :: "string \<Rightarrow> memEntry \<Rightarrow> time \<Rightarrow> KvMemory \<Rightarrow> KvMemory" where
  "kv_put key e now m =
     (let m = (if gm_get (km_entries m) key = None \<and> length (km_entries m) \<ge> km_max m then
                 (let m = sweepEntries now m in
                  if length (km_entries m) \<ge> km_max m then evictSoonest m else m)
               else m)
      in m\<lparr>km_entries := gm_put key e (km_entries m)\<rparr>)"

definition kv_expiry :: "time \<Rightarrow> duration \<Rightarrow> time" where
  "kv_expiry now ttl = (if ttl \<le> 0 then zero_time else now + ttl)"

definition kv_Get :: "time \<Rightarrow> string \<Rightarrow> KvMemory \<Rightarrow> string option \<times> KvMemory" where
  "kv_Get now key m = (case kv_live key now m of (e, m) \<Rightarrow> (map_option me_value e, m))"

definition kv_Set :: "time \<Rightarrow> string \<Rightarrow> string \<Rightarrow> duration \<Rightarrow> KvMemory \<Rightarrow> KvMemory" where
  "kv_Set now key v ttl m =
     kv_put key \<lparr>me_value = v, me_n = 0, me_expires = kv_expiry now ttl\<rparr> now m"

definition kv_SetNX :: "time \<Rightarrow> string \<Rightarrow> string \<Rightarrow> duration \<Rightarrow> KvMemory \<Rightarrow> bool \<times> KvMemory" where
  "kv_SetNX now key v ttl m =
     (case kv_live key now m of
        (Some e, m) \<Rightarrow> (False, m)
      | (None, m) \<Rightarrow>
          (True, kv_put key \<lparr>me_value = v, me_n = 0, me_expires = kv_expiry now ttl\<rparr> now m))"

definition kv_Delete :: "string \<Rightarrow> KvMemory \<Rightarrow> KvMemory" where
  "kv_Delete key m = m\<lparr>km_entries := gm_del key (km_entries m)\<rparr>"

definition kv_Incr :: "time \<Rightarrow> string \<Rightarrow> duration \<Rightarrow> KvMemory \<Rightarrow> int \<times> KvMemory" where
  "kv_Incr now key ttl m =
     (case kv_live key now m of
        (Some e, m) \<Rightarrow>
          (i64 (me_n e + 1),
           m\<lparr>km_entries := gm_put key (e\<lparr>me_n := i64 (me_n e + 1)\<rparr>) (km_entries m)\<rparr>)
      | (None, m) \<Rightarrow>
          (1, kv_put key \<lparr>me_value = [], me_n = 1, me_expires = kv_expiry now ttl\<rparr> now m))"

text \<open>\<open>Memory.Seen\<close>; the value stored is the single byte 1.\<close>

definition kv_Seen :: "time \<Rightarrow> string \<Rightarrow> duration \<Rightarrow> KvMemory \<Rightarrow> bool \<times> KvMemory" where
  "kv_Seen now key ttl m = (case kv_SetNX now key [CHR 0x01] ttl m of (stored, m) \<Rightarrow> (\<not> stored, m))"

section \<open>The clients of the contract\<close>

text \<open>\<open>CacheReplay.Seen\<close> over any \<open>SetNX\<close>.\<close>

definition CacheReplay_Seen ::
  "(time \<Rightarrow> string \<Rightarrow> string \<Rightarrow> duration \<Rightarrow> 's \<Rightarrow> bool \<times> 's) \<Rightarrow> time \<Rightarrow> string \<Rightarrow> duration \<Rightarrow> 's \<Rightarrow> bool \<times> 's" where
  "CacheReplay_Seen setnx now key ttl s =
     (case setnx now key [CHR 0x01] ttl s of (stored, s) \<Rightarrow> (\<not> stored, s))"

record KvDecision =
  kd_Allowed :: bool
  kd_Remaining :: int
  kd_RetryAfter :: duration

text \<open>\<open>WindowLimiter.Allow\<close> over any \<open>Incr\<close>.\<close>

definition WindowLimiter_Allow ::
  "(time \<Rightarrow> string \<Rightarrow> duration \<Rightarrow> 's \<Rightarrow> int \<times> 's) \<Rightarrow> string \<Rightarrow> time \<Rightarrow> string \<Rightarrow> int \<Rightarrow> duration \<Rightarrow> 's
     \<Rightarrow> KvDecision \<times> 's" where
  "WindowLimiter_Allow incr pre now key limit window s =
     (if limit \<le> 0 \<or> window \<le> 0
      then (\<lparr>kd_Allowed = True, kd_Remaining = 0, kd_RetryAfter = 0\<rparr>, s)
      else case incr now (pre @ key) window s of
        (n, s) \<Rightarrow>
          if n > limit then (\<lparr>kd_Allowed = False, kd_Remaining = 0, kd_RetryAfter = window\<rparr>, s)
          else (\<lparr>kd_Allowed = True, kd_Remaining = min (limit - n) (2 ^ 31 - 1), kd_RetryAfter = 0\<rparr>, s))"

text \<open>A run of calls, each at its own reading of the clock, and the answers.\<close>

fun run_seen ::
  "(time \<Rightarrow> string \<Rightarrow> string \<Rightarrow> duration \<Rightarrow> 's \<Rightarrow> bool \<times> 's) \<Rightarrow> (time \<times> string \<times> duration) list \<Rightarrow> 's \<Rightarrow> bool list" where
  "run_seen setnx [] s = []"
| "run_seen setnx ((t, k, ttl) # cs) s =
     (case CacheReplay_Seen setnx t k ttl s of (b, s) \<Rightarrow> b # run_seen setnx cs s)"

fun run_allow ::
  "(time \<Rightarrow> string \<Rightarrow> duration \<Rightarrow> 's \<Rightarrow> int \<times> 's) \<Rightarrow> string \<Rightarrow> int \<Rightarrow> duration \<Rightarrow> (time \<times> string) list \<Rightarrow> 's
     \<Rightarrow> (time \<times> string \<times> bool) list" where
  "run_allow incr pre limit window [] s = []"
| "run_allow incr pre limit window ((t, k) # cs) s =
     (case WindowLimiter_Allow incr pre t k limit window s of
        (d, s) \<Rightarrow> (t, k, kd_Allowed d) # run_allow incr pre limit window cs s)"

declare run_seen.simps(2) [simp del] run_allow.simps(2) [simp del]

text \<open>Admitted calls on a key, among the answers that satisfy a condition on the instant.\<close>

definition admitted :: "string \<Rightarrow> (time \<Rightarrow> bool) \<Rightarrow> (time \<times> string \<times> bool) list \<Rightarrow> nat" where
  "admitted k P outs = length (filter (\<lambda>(t, k', b). k' = k \<and> P t \<and> b) outs)"

lemma admitted_simps [simp]:
  "admitted k P [] = 0"
  "admitted k P ((t, k', b) # outs) = (if k' = k \<and> P t \<and> b then 1 else 0) + admitted k P outs"
  by (simp_all add: admitted_def)

lemma admitted_mono:
  "(\<And>t. t \<in> fst ` set outs \<Longrightarrow> P t \<Longrightarrow> Q t) \<Longrightarrow> admitted k P outs \<le> admitted k Q outs"
  by (induction outs) (auto simp: le_SucI)

lemma admitted_split: "admitted k P outs \<le> admitted k Q outs + admitted k (\<lambda>t. P t \<and> \<not> Q t) outs"
  by (induction outs) auto

lemma admitted_none: "(\<And>t. t \<in> fst ` set outs \<Longrightarrow> \<not> P t) \<Longrightarrow> admitted k P outs = 0"
  by (induction outs) auto

section \<open>The contract\<close>

definition alive :: "time \<Rightarrow> time \<Rightarrow> bool" where
  "alive x t \<longleftrightarrow> IsZero x \<or> t < x"

lemma alive_mono: "alive x t \<Longrightarrow> t' \<le> t \<Longrightarrow> alive x t'"
  by (auto simp: alive_def)

text \<open>
  \<open>look s t k\<close> is the counter and the expiry of the entry a call at instant \<open>t\<close> finds under \<open>k\<close>.
  \<open>free s\<close> counts the keys that can be added before an implementation may drop entries that are
  still live: a bounded store keeps the contract only while there is room.
\<close>

locale kv_cache =
  fixes ok :: "'s \<Rightarrow> bool"
    and look :: "'s \<Rightarrow> time \<Rightarrow> string \<Rightarrow> (int \<times> time) option"
    and free :: "'s \<Rightarrow> nat"
    and setnx :: "time \<Rightarrow> string \<Rightarrow> string \<Rightarrow> duration \<Rightarrow> 's \<Rightarrow> bool \<times> 's"
    and incr :: "time \<Rightarrow> string \<Rightarrow> duration \<Rightarrow> 's \<Rightarrow> int \<times> 's"
  assumes look_later: "t \<le> t' \<Longrightarrow> look s t' k
          = (case look s t k of None \<Rightarrow> None | Some (n, x) \<Rightarrow> if alive x t' then Some (n, x) else None)"
    and setnx_ok: "ok s \<Longrightarrow> ok (snd (setnx t k v ttl s)) \<and> free s \<le> Suc (free (snd (setnx t k v ttl s)))"
    and setnx_stored: "fst (setnx t k v ttl s) \<longleftrightarrow> look s t k = None"
    and setnx_key: "ok s \<Longrightarrow> t \<le> t' \<Longrightarrow> look (snd (setnx t k v ttl s)) t' k
          = (if look s t k = None
             then if alive (kv_expiry t ttl) t' then Some (0, kv_expiry t ttl) else None
             else look s t' k)"
    and setnx_other: "ok s \<Longrightarrow> 0 < free s \<Longrightarrow> k' \<noteq> k \<Longrightarrow> t \<le> t' \<Longrightarrow>
          look (snd (setnx t k v ttl s)) t' k' = look s t' k'"
    and incr_ok: "ok s \<Longrightarrow> ok (snd (incr t k ttl s)) \<and> free s \<le> Suc (free (snd (incr t k ttl s)))"
    and incr_value: "fst (incr t k ttl s) = (case look s t k of None \<Rightarrow> 1 | Some (n, x) \<Rightarrow> i64 (n + 1))"
    and incr_key: "ok s \<Longrightarrow> t \<le> t' \<Longrightarrow> look (snd (incr t k ttl s)) t' k
          = (case look s t k of
               None \<Rightarrow> if alive (kv_expiry t ttl) t' then Some (1, kv_expiry t ttl) else None
             | Some (n, x) \<Rightarrow> if alive x t' then Some (i64 (n + 1), x) else None)"
    and incr_other: "ok s \<Longrightarrow> 0 < free s \<Longrightarrow> k' \<noteq> k \<Longrightarrow> t \<le> t' \<Longrightarrow>
          look (snd (incr t k ttl s)) t' k' = look s t' k'"
begin

subsection \<open>Replay detection\<close>

lemma run_seen_Cons:
  "run_seen setnx ((t, k, ttl) # cs) s
     = (look s t k \<noteq> None) # run_seen setnx cs (snd (setnx t k [CHR 0x01] ttl s))"
  using setnx_stored [of t k "[CHR 0x01]" ttl s]
  by (cases "setnx t k [CHR 0x01] ttl s") (auto simp: CacheReplay_Seen_def run_seen.simps(2))

lemma sorted_nth_ge: "sorted (t # map fst cs) \<Longrightarrow> j < length cs \<Longrightarrow> t \<le> fst (cs ! j)"
  by (simp add: nth_mem)

lemma seen_present:
  assumes "ok s" "look s t k = Some (n, x)"
    and "sorted (t # map fst cs)" "length cs \<le> free s"
    and "j < length cs" "cs ! j = (t', k, ttl')" "alive x t'"
  shows "run_seen setnx cs s ! j"
  using assms
proof (induction cs arbitrary: s t j n)
  case (Cons c cs)
  obtain tc kc ttl where c: "c = (tc, kc, ttl)" by (cases c)
  let ?s = "snd (setnx tc kc [CHR 0x01] ttl s)"
  have tc: "t \<le> tc" "sorted (tc # map fst cs)" using Cons.prems(3) c by auto
  have "tc \<le> t'" using Cons.prems(5,6) c sorted_nth_ge [OF tc(2), of "j - 1"] by (cases j) auto
  then have look: "look s tc k = Some (n, x)"
    using look_later [OF tc(1), of s k] Cons.prems(2,7) alive_mono by simp
  show ?case
  proof (cases j)
    case 0
    then show ?thesis using c Cons.prems(6) look by (simp add: run_seen_Cons)
  next
    case (Suc i)
    have fr: "0 < free s" using Cons.prems(4) by simp
    have "look ?s tc k = Some (n, x)"
      using look setnx_key [OF Cons.prems(1), of tc tc k "[CHR 0x01]" ttl]
        setnx_other [OF Cons.prems(1) fr, of k kc tc tc "[CHR 0x01]" ttl] by (cases "kc = k") auto
    moreover have "ok ?s" "length cs \<le> free ?s"
      using setnx_ok [OF Cons.prems(1), of tc kc "[CHR 0x01]" ttl] Cons.prems(4) by auto
    ultimately have "run_seen setnx cs ?s ! i"
      using Cons.IH [of ?s tc n i] Cons.prems(5-7) Suc tc(2) by simp
    then show ?thesis using Suc c by (simp add: run_seen_Cons)
  qed
qed simp

lemma seen_once:
  assumes "ok s" "sorted (map fst cs)" "length cs \<le> free s"
    and "i < j" "j < length cs" "cs ! i = (ti, k, ttl)" "cs ! j = (tj, k, ttl')"
    and "\<not> run_seen setnx cs s ! i" "ttl \<le> 0 \<or> tj < ti + ttl"
  shows "run_seen setnx cs s ! j"
  using assms
proof (induction cs arbitrary: s i j)
  case (Cons c cs)
  obtain tc kc ttlc where c: "c = (tc, kc, ttlc)" by (cases c)
  let ?s = "snd (setnx tc kc [CHR 0x01] ttlc s)"
  have ok: "ok ?s" "length cs \<le> free ?s"
    using setnx_ok [OF Cons.prems(1), of tc kc "[CHR 0x01]" ttlc] Cons.prems(3) by auto
  have so: "sorted (tc # map fst cs)" using Cons.prems(2) c by simp
  obtain j' where j: "j = Suc j'" using Cons.prems(4) by (cases j) auto
  show ?case
  proof (cases i)
    case 0
    then have eq: "tc = ti" "kc = k" "ttlc = ttl" using Cons.prems(6) c by auto
    have new: "look s ti k = None" using Cons.prems(8) 0 eq c
      by (cases "look s ti k") (simp_all add: run_seen_Cons)
    have al: "alive (kv_expiry ti ttl) tj"
      using Cons.prems(9) by (auto simp: alive_def kv_expiry_def)
    have "ti \<le> tj" using sorted_nth_ge [OF so, of j'] Cons.prems(5,7) j eq by simp
    then have "alive (kv_expiry ti ttl) ti" using al alive_mono by blast
    then have "look ?s ti k = Some (0, kv_expiry ti ttl)"
      using setnx_key [OF Cons.prems(1), of ti ti k "[CHR 0x01]" ttl] new eq by simp
    then have "run_seen setnx cs ?s ! j'"
      using seen_present [OF ok(1), of ti k 0 "kv_expiry ti ttl" cs j' tj ttl'] ok(2) al Cons.prems(5,7) j
        so eq by simp
    then show ?thesis using c j by (simp add: run_seen_Cons)
  next
    case (Suc i')
    then show ?thesis using Cons.IH [OF ok(1) _ ok(2), of i' j'] Cons.prems c j
      by (simp add: run_seen_Cons)
  qed
qed simp

subsection \<open>Fixed windows\<close>

lemma run_allow_Cons:
  "0 < limit \<Longrightarrow> 0 < window \<Longrightarrow> run_allow incr pre limit window ((t, k) # cs) s
     = (t, k, (case look s t (pre @ k) of None \<Rightarrow> 1 | Some (n, x) \<Rightarrow> i64 (n + 1)) \<le> limit)
       # run_allow incr pre limit window cs (snd (incr t (pre @ k) window s))"
  using incr_value [of t "pre @ k" window s]
  by (cases "incr t (pre @ k) window s") (auto simp: WindowLimiter_Allow_def run_allow.simps(2))

text \<open>One step of a run: the state after it still meets the hypotheses of the lemmas below.\<close>

lemma incr_step:
  assumes "ok s" "Suc m \<le> free s"
  shows "ok (snd (incr t k w s))" "m \<le> free (snd (incr t k w s))"
  using incr_ok [OF assms(1), of t k w] assms(2) by auto

lemma run_allow_times:
  "0 < limit \<Longrightarrow> 0 < window \<Longrightarrow> map fst (run_allow incr pre limit window cs s) = map fst cs"
  by (induction cs arbitrary: s) (auto simp: run_allow_Cons)

lemma run_allow_fst:
  "0 < limit \<Longrightarrow> 0 < window \<Longrightarrow> fst ` set (run_allow incr pre limit window cs s) = fst ` set cs"
  using run_allow_times [of limit window pre cs s] by (metis list.set_map)

lemma look_after_other:
  "ok s \<Longrightarrow> Suc m \<le> free s \<Longrightarrow> k' \<noteq> k \<Longrightarrow>
   look (snd (incr t (pre @ k') w s)) t (pre @ k) = look s t (pre @ k)"
  by (rule incr_other) auto

text \<open>While an entry lives, the budget left in its window bounds what is admitted.\<close>

lemma admitted_live:
  assumes "ok s" "look s t0 (pre @ k) = Some (n, x)" "0 \<le> n" "n + int (length cs) \<le> max_i64"
    and "sorted (t0 # map fst cs)" "length cs \<le> free s" "0 < limit" "0 < window"
  shows "admitted k (alive x) (run_allow incr pre limit window cs s) \<le> nat (limit - n)"
  using assms
proof (induction cs arbitrary: s t0 n)
  case (Cons c cs)
  obtain tc kc where c: "c = (tc, kc)" by (cases c)
  let ?s = "snd (incr tc (pre @ kc) window s)"
  have so: "t0 \<le> tc" "sorted (tc # map fst cs)" using Cons.prems(5) c by auto
  have ok: "ok ?s" "length cs \<le> free ?s" using incr_step [OF Cons.prems(1)] Cons.prems(6) by auto
  show ?case
  proof (cases "alive x tc")
    case False
    then have "\<not> alive x t" if "t \<in> fst ` set (c # cs)" for t
      using that so(2) c alive_mono [of x t tc] by auto
    then have "admitted k (alive x) (run_allow incr pre limit window (c # cs) s) = 0"
      by (intro admitted_none) (simp only: run_allow_fst [OF Cons.prems(7,8)] not_False_eq_True)
    then show ?thesis by simp
  next
    case True
    then have look: "look s tc (pre @ k) = Some (n, x)"
      using look_later [OF so(1), of s "pre @ k"] Cons.prems(2) by simp
    show ?thesis
    proof (cases "kc = k")
      case True
      have n1: "i64 (n + 1) = n + 1"
        using Cons.prems(3,4) by (intro i64_id) (simp_all add: min_i64_def)
      then have "look ?s tc (pre @ k) = Some (n + 1, x)"
        using incr_key [OF Cons.prems(1), of tc tc "pre @ k" window] look \<open>alive x tc\<close> True by simp
      from Cons.IH [OF ok(1) this _ _ so(2) ok(2) Cons.prems(7,8)]
      have "admitted k (alive x) (run_allow incr pre limit window cs ?s) \<le> nat (limit - (n + 1))"
        using Cons.prems(3,4) by simp
      then show ?thesis using True c look n1 \<open>alive x tc\<close> Cons.prems(7,8)
        by (simp add: run_allow_Cons) linarith
    next
      case False
      then have "look ?s tc (pre @ k) = Some (n, x)"
        using look_after_other [OF Cons.prems(1), of "length cs" kc k tc pre window] Cons.prems(6) look by simp
      from Cons.IH [OF ok(1) this Cons.prems(3) _ so(2) ok(2) Cons.prems(7,8)]
      have "admitted k (alive x) (run_allow incr pre limit window cs ?s) \<le> nat (limit - n)"
        using Cons.prems(4) by simp
      then show ?thesis using False c Cons.prems(7,8) by (simp add: run_allow_Cons)
    qed
  qed
qed simp

text \<open>With no live entry, the first admitted call opens a window of full length.\<close>

lemma admitted_fresh:
  assumes "ok s" "look s t0 (pre @ k) = None" "int (length cs) \<le> max_i64"
    and "sorted (t0 # map fst cs)" "length cs \<le> free s" "0 < limit" "0 < window"
  shows "admitted k (\<lambda>t. t < t0 + window) (run_allow incr pre limit window cs s) \<le> nat limit"
  using assms
proof (induction cs arbitrary: s t0)
  case (Cons c cs)
  obtain tc kc where c: "c = (tc, kc)" by (cases c)
  let ?s = "snd (incr tc (pre @ kc) window s)" and ?r = "run_allow incr pre limit window cs"
  have so: "t0 \<le> tc" "sorted (tc # map fst cs)" using Cons.prems(4) c by auto
  have ok: "ok ?s" "length cs \<le> free ?s" using incr_step [OF Cons.prems(1)] Cons.prems(5) by auto
  have look: "look s tc (pre @ k) = None"
    using look_later [OF so(1), of s "pre @ k"] Cons.prems(2) by simp
  show ?case
  proof (cases "kc = k")
    case True
    have "look ?s tc (pre @ k) = Some (1, tc + window)"
      using incr_key [OF Cons.prems(1), of tc tc "pre @ k" window] look True Cons.prems(7)
      by (simp add: kv_expiry_def alive_def)
    from admitted_live [OF ok(1) this _ _ so(2) ok(2) Cons.prems(6,7)]
    have "admitted k (alive (tc + window)) (?r ?s) \<le> nat (limit - 1)"
      using Cons.prems(3) by simp
    moreover have "admitted k (\<lambda>t. t < t0 + window) (?r ?s) \<le> admitted k (alive (tc + window)) (?r ?s)"
      using so(1) by (intro admitted_mono) (auto simp: alive_def)
    ultimately have "Suc (admitted k (\<lambda>t. t < t0 + window) (?r ?s)) \<le> nat limit"
      using Cons.prems(6) by linarith
    then show ?thesis using True c look Cons.prems(6,7) by (simp add: run_allow_Cons)
  next
    case False
    then have "look ?s tc (pre @ k) = None"
      using look_after_other [OF Cons.prems(1), of "length cs" kc k tc pre window] Cons.prems(5) look by simp
    from Cons.IH [OF ok(1) this _ so(2) ok(2) Cons.prems(6,7)]
    have "admitted k (\<lambda>t. t < tc + window) (?r ?s) \<le> nat limit" using Cons.prems(3) by simp
    moreover have "admitted k (\<lambda>t. t < t0 + window) (?r ?s) \<le> admitted k (\<lambda>t. t < tc + window) (?r ?s)"
      using so(1) by (intro admitted_mono) auto
    ultimately show ?thesis using False c Cons.prems(6,7) by (simp add: run_allow_Cons)
  qed
qed simp

text \<open>After a live entry has expired the next window admits at most the limit.\<close>

lemma admitted_next:
  assumes "ok s" "look s t0 (pre @ k) = Some (n, x)" "x \<noteq> 0" "int (length cs) \<le> max_i64"
    and "sorted (t0 # map fst cs)" "length cs \<le> free s" "0 < limit" "0 < window"
  shows "admitted k (\<lambda>t. x \<le> t \<and> t < x + window) (run_allow incr pre limit window cs s) \<le> nat limit"
  using assms
proof (induction cs arbitrary: s t0 n)
  case (Cons c cs)
  obtain tc kc where c: "c = (tc, kc)" by (cases c)
  let ?s = "snd (incr tc (pre @ kc) window s)" and ?r = "run_allow incr pre limit window"
  have so: "t0 \<le> tc" "sorted (tc # map fst cs)" "sorted (tc # map fst (c # cs))"
    using Cons.prems(5) c by auto
  have ok: "ok ?s" "length cs \<le> free ?s" using incr_step [OF Cons.prems(1)] Cons.prems(6) by auto
  show ?case
  proof (cases "x \<le> tc")
    case True
    then have "look s tc (pre @ k) = None"
      using look_later [OF so(1), of s "pre @ k"] Cons.prems(2,3) by (simp add: alive_def)
    from admitted_fresh [OF Cons.prems(1) this Cons.prems(4) so(3) Cons.prems(6-8)]
    have "admitted k (\<lambda>t. t < tc + window) (?r (c # cs) s) \<le> nat limit" .
    moreover have "admitted k (\<lambda>t. x \<le> t \<and> t < x + window) (?r (c # cs) s)
        \<le> admitted k (\<lambda>t. t < tc + window) (?r (c # cs) s)"
      using True by (intro admitted_mono) auto
    ultimately show ?thesis by simp
  next
    case False
    then have look: "look s tc (pre @ k) = Some (n, x)"
      using look_later [OF so(1), of s "pre @ k"] Cons.prems(2) by (simp add: alive_def)
    have "\<exists>n'. look ?s tc (pre @ k) = Some (n', x)"
      using incr_key [OF Cons.prems(1), of tc tc "pre @ k" window] look False
        look_after_other [OF Cons.prems(1), of "length cs" kc k tc pre window] Cons.prems(6)
      by (cases "kc = k") (auto simp: alive_def)
    then obtain n' where "look ?s tc (pre @ k) = Some (n', x)" ..
    from Cons.IH [OF ok(1) this Cons.prems(3) _ so(2) ok(2) Cons.prems(7,8)]
    show ?thesis using False c Cons.prems(4,7,8) by (simp add: run_allow_Cons)
  qed
qed simp

lemma admitted_from:
  assumes "ok s" "\<And>n x. look s t0 (pre @ k) = Some (n, x) \<Longrightarrow> 0 \<le> n \<and> n + int (length cs) \<le> max_i64"
    and "int (length cs) \<le> max_i64"
    and "sorted (t0 # map fst cs)" "length cs \<le> free s" "0 < limit" "0 < window"
  shows "admitted k (\<lambda>t. t < t0 + window) (run_allow incr pre limit window cs s) \<le> 2 * nat limit"
proof (cases "look s t0 (pre @ k)")
  case None
  then show ?thesis using admitted_fresh [OF assms(1) None assms(3-7)] by simp
next
  case (Some nx)
  obtain n x where nx: "nx = (n, x)" by (cases nx)
  note n = assms(2) [OF Some [unfolded nx]]
  let ?r = "run_allow incr pre limit window cs s"
  have live: "admitted k (alive x) ?r \<le> nat limit"
    using admitted_live [OF assms(1) Some [unfolded nx] _ _ assms(4-7)] n by linarith
  have "admitted k (\<lambda>t. t < t0 + window) ?r
      \<le> admitted k (alive x) ?r + admitted k (\<lambda>t. t < t0 + window \<and> \<not> alive x t) ?r"
    by (rule admitted_split)
  moreover have "admitted k (\<lambda>t. t < t0 + window \<and> \<not> alive x t) ?r \<le> nat limit"
  proof (cases "x = 0 \<or> \<not> t0 < x")
    case True
    have "alive x t0" using look_later [of t0 t0 s "pre @ k"] Some nx by (auto split: if_splits)
    then have "x = 0" using True by (auto simp: alive_def)
    then show ?thesis using admitted_none [of ?r "\<lambda>t. t < t0 + window \<and> \<not> alive x t" k]
      by (simp add: alive_def)
  next
    case False
    then have "admitted k (\<lambda>t. t < t0 + window \<and> \<not> alive x t) ?r
        \<le> admitted k (\<lambda>t. x \<le> t \<and> t < x + window) ?r"
      by (intro admitted_mono) (auto simp: alive_def)
    also have "\<dots> \<le> nat limit"
      using admitted_next [OF assms(1) Some [unfolded nx] _ assms(3-7)] False by simp
    finally show ?thesis .
  qed
  ultimately show ?thesis using live by simp
qed

lemma admitted_window:
  assumes "ok s"
    and "\<And>t n x. t0 \<le> t \<Longrightarrow> look s t (pre @ k) = Some (n, x) \<Longrightarrow> 0 \<le> n \<and> n + int (length cs) \<le> max_i64"
    and "int (length cs) \<le> max_i64"
    and "sorted (t0 # map fst cs)" "length cs \<le> free s" "0 < limit" "0 < window"
  shows "admitted k (\<lambda>t. lo \<le> t \<and> t < lo + window) (run_allow incr pre limit window cs s) \<le> 2 * nat limit"
  using assms
proof (induction cs arbitrary: s t0)
  case (Cons c cs)
  obtain tc kc where c: "c = (tc, kc)" by (cases c)
  let ?s = "snd (incr tc (pre @ kc) window s)" and ?r = "run_allow incr pre limit window"
  have so: "t0 \<le> tc" "sorted (tc # map fst (c # cs))" "sorted (tc # map fst cs)"
    using Cons.prems(4) c by auto
  have ok: "ok ?s" "length cs \<le> free ?s" using incr_step [OF Cons.prems(1)] Cons.prems(5) by auto
  show ?case
  proof (cases "lo \<le> tc")
    case True
    have "admitted k (\<lambda>t. t < tc + window) (?r (c # cs) s) \<le> 2 * nat limit"
      by (rule admitted_from [OF Cons.prems(1) Cons.prems(2) [OF so(1)] Cons.prems(3) so(2) Cons.prems(5-7)])
    moreover have "admitted k (\<lambda>t. lo \<le> t \<and> t < lo + window) (?r (c # cs) s)
        \<le> admitted k (\<lambda>t. t < tc + window) (?r (c # cs) s)"
      using True by (intro admitted_mono) auto
    ultimately show ?thesis by simp
  next
    case False
    have "0 \<le> n \<and> n + int (length cs) \<le> max_i64"
      if t: "tc \<le> t" and l: "look ?s t (pre @ k) = Some (n, x)" for t n x
    proof (cases "kc = k")
      case True
      show ?thesis
      proof (cases "look s tc (pre @ k)")
        case None
        then show ?thesis using incr_key [OF Cons.prems(1) t, of "pre @ k" window] l True Cons.prems(3)
          by (simp split: if_splits)
      next
        case (Some q)
        obtain n0 x0 where q: "q = (n0, x0)" by (cases q)
        have "0 \<le> n0" "n0 + 1 + int (length cs) \<le> max_i64"
          using Cons.prems(2) [OF so(1), of n0 x0] Some q by simp_all
        moreover from this have "i64 (n0 + 1) = n0 + 1" by (intro i64_id) (simp_all add: min_i64_def)
        ultimately show ?thesis
          using incr_key [OF Cons.prems(1) t, of "pre @ k" window] l True Some q by (simp split: if_splits)
      qed
    next
      case False
      then have "look s t (pre @ k) = Some (n, x)"
        using incr_other [OF Cons.prems(1) _ _ t, of "pre @ k" "pre @ kc" window] l Cons.prems(5) by simp
      then show ?thesis using Cons.prems(2) [of t n x] so(1) t by simp
    qed
    from Cons.IH [OF ok(1) this _ so(3) ok(2) Cons.prems(6,7)]
    show ?thesis using False c Cons.prems(3,6,7) by (simp add: run_allow_Cons)
  qed
qed simp

end

section \<open>The in-process adapter meets the contract\<close>

definition kv_look :: "KvMemory \<Rightarrow> time \<Rightarrow> string \<Rightarrow> (int \<times> time) option" where
  "kv_look m t k = (case gm_get (km_entries m) k of
     None \<Rightarrow> None | Some e \<Rightarrow> if expired e t then None else Some (me_n e, me_expires e))"

definition kv_free :: "KvMemory \<Rightarrow> nat" where
  "kv_free m = km_max m - length (km_entries m)"

definition kv_ok :: "KvMemory \<Rightarrow> bool" where
  "kv_ok m \<longleftrightarrow> gm_ok (km_entries m)"

lemma expired_alive: "expired e t \<longleftrightarrow> \<not> alive (me_expires e) t"
  by (auto simp: expired_def alive_def)

lemma kv_live_cases:
  "kv_live k t m = (case gm_get (km_entries m) k of
      None \<Rightarrow> (None, m)
    | Some e \<Rightarrow> if expired e t then (None, kv_Delete k m) else (Some e, m))"
  by (simp add: kv_live_def kv_Delete_def split: option.split)

lemma kv_Delete_simps [simp]:
  "kv_ok m \<Longrightarrow> kv_ok (kv_Delete k m)" "km_max (kv_Delete k m) = km_max m"
  "gm_get (km_entries (kv_Delete k m)) k' = (if k' = k then None else gm_get (km_entries m) k')"
  "length (km_entries (kv_Delete k m)) \<le> length (km_entries m)"
  by (simp_all add: kv_Delete_def kv_ok_def length_del_le)

lemma kv_sweep_simps [simp]:
  "kv_ok m \<Longrightarrow> kv_ok (sweepEntries t m)" "km_max (sweepEntries t m) = km_max m"
  "length (km_entries (sweepEntries t m)) \<le> length (km_entries m)"
  by (simp_all add: sweepEntries_def kv_ok_def length_drop_le)

lemma soonest_mem: "soonest best es = Some (k, x) \<Longrightarrow> best = Some (k, x) \<or> k \<in> set (gm_keys es)"
proof (induction best es rule: soonest.induct)
  case (2 best k' e es)
  then show ?case by (force simp: Let_def split: option.splits if_splits)
qed simp

lemma soonest_None: "soonest best es = None \<longleftrightarrow> best = None \<and> es = []"
  by (induction best es rule: soonest.induct) (auto simp: Let_def split: option.splits)

lemma kv_evict_simps [simp]:
  "kv_ok m \<Longrightarrow> kv_ok (evictSoonest m)" "km_max (evictSoonest m) = km_max m"
  "km_entries m \<noteq> [] \<Longrightarrow> length (km_entries (evictSoonest m)) < length (km_entries m)"
  "length (km_entries (evictSoonest m)) \<le> length (km_entries m)"
proof -
  show "kv_ok m \<Longrightarrow> kv_ok (evictSoonest m)" "km_max (evictSoonest m) = km_max m"
    by (auto simp: evictSoonest_def kv_ok_def split: option.splits)
  show less: "km_entries m \<noteq> [] \<Longrightarrow> length (km_entries (evictSoonest m)) < length (km_entries m)"
    using soonest_mem [of None "km_entries m"] soonest_None [of None "km_entries m"]
    by (auto simp: evictSoonest_def intro!: length_del_less split: option.splits)
  show "length (km_entries (evictSoonest m)) \<le> length (km_entries m)"
    using less by (cases "km_entries m = []") (auto simp: evictSoonest_def)
qed

lemma kv_put_simps [simp]:
  "kv_ok m \<Longrightarrow> kv_ok (kv_put k e t m)" "km_max (kv_put k e t m) = km_max m"
  "gm_get (km_entries (kv_put k e t m)) k = Some e"
  "kv_free m \<le> Suc (kv_free (kv_put k e t m))"
  "0 < kv_free m \<Longrightarrow> k' \<noteq> k \<Longrightarrow> gm_get (km_entries (kv_put k e t m)) k' = gm_get (km_entries m) k'"
proof -
  show "kv_ok m \<Longrightarrow> kv_ok (kv_put k e t m)"
    using kv_sweep_simps(1) [of m t] kv_evict_simps(1) [of "sweepEntries t m"]
    by (auto simp: kv_put_def kv_ok_def Let_def)
  show "km_max (kv_put k e t m) = km_max m" by (simp add: kv_put_def Let_def)
  show "gm_get (km_entries (kv_put k e t m)) k = Some e" by (simp add: kv_put_def Let_def)
  show "kv_free m \<le> Suc (kv_free (kv_put k e t m))"
    by (auto simp: kv_put_def kv_free_def length_put Let_def)
  show "0 < kv_free m \<Longrightarrow> k' \<noteq> k \<Longrightarrow> gm_get (km_entries (kv_put k e t m)) k' = gm_get (km_entries m) k'"
    by (auto simp: kv_put_def kv_free_def Let_def)
qed

lemma kv_free_Delete: "kv_free m \<le> kv_free (kv_Delete k m)"
  by (simp add: kv_free_def diff_le_mono2)

lemma kv_look_upd:
  "kv_look (m\<lparr>km_entries := gm_put k e (km_entries m)\<rparr>) t k'
     = (if k' = k then if alive (me_expires e) t then Some (me_n e, me_expires e) else None
        else kv_look m t k')"
  by (simp add: kv_look_def expired_alive)

lemma kv_look_put:
  "kv_look (kv_put k e t m) t' k
     = (if alive (me_expires e) t' then Some (me_n e, me_expires e) else None)"
  "0 < kv_free m \<Longrightarrow> k' \<noteq> k \<Longrightarrow> kv_look (kv_put k e t m) t' k' = kv_look m t' k'"
  by (simp_all add: kv_look_def expired_alive)

lemma kv_look_Delete: "k' \<noteq> k \<Longrightarrow> kv_look (kv_Delete k m) t k' = kv_look m t k'"
  by (simp add: kv_look_def)

text \<open>The two operations, by whether they find the key.\<close>

lemma kv_SetNX_cases:
  obtains (found) n x where "kv_look m t k = Some (n, x)" "kv_SetNX t k v ttl m = (False, m)"
  | (absent) m' where "kv_look m t k = None" "m' = m \<or> m' = kv_Delete k m"
      "kv_SetNX t k v ttl m
         = (True, kv_put k \<lparr>me_value = v, me_n = 0, me_expires = kv_expiry t ttl\<rparr> t m')"
  by (cases "gm_get (km_entries m) k"; cases "\<exists>e. gm_get (km_entries m) k = Some e \<and> expired e t")
    (auto simp: kv_SetNX_def kv_live_cases kv_look_def split: if_splits)

lemma kv_Incr_cases:
  obtains (found) e where "gm_get (km_entries m) k = Some e" "kv_look m t k = Some (me_n e, me_expires e)"
      "kv_Incr t k ttl m = (i64 (me_n e + 1),
         m\<lparr>km_entries := gm_put k (e\<lparr>me_n := i64 (me_n e + 1)\<rparr>) (km_entries m)\<rparr>)"
  | (absent) m' where "kv_look m t k = None" "m' = m \<or> m' = kv_Delete k m"
      "kv_Incr t k ttl m
         = (1, kv_put k \<lparr>me_value = [], me_n = 1, me_expires = kv_expiry t ttl\<rparr> t m')"
  by (cases "gm_get (km_entries m) k"; cases "\<exists>e. gm_get (km_entries m) k = Some e \<and> expired e t")
    (auto simp: kv_Incr_def kv_live_cases kv_look_def split: if_splits)

lemma kv_look_later:
  "t \<le> t' \<Longrightarrow> kv_look m t' k = (case kv_look m t k of None \<Rightarrow> None
      | Some (n, x) \<Rightarrow> if alive x t' then Some (n, x) else None)"
  by (auto simp: kv_look_def expired_alive alive_def split: option.splits)

interpretation km: kv_cache kv_ok kv_look kv_free kv_SetNX kv_Incr
proof (unfold_locales, goal_cases)
  case (1 t t' s k)
  then show ?case by (rule kv_look_later)
next
  case (2 s t k v ttl)
  then show ?case
    by (cases rule: kv_SetNX_cases [of s t k v ttl])
      (auto intro: order.trans [OF kv_free_Delete kv_put_simps(4)])
next
  case (3 t k v ttl s)
  show ?case by (cases rule: kv_SetNX_cases [of s t k v ttl]) auto
next
  case (4 s t t' k v ttl)
  then show ?case by (cases rule: kv_SetNX_cases [of s t k v ttl]) (auto simp: kv_look_put)
next
  case (5 s k' k t t' v ttl)
  then show ?case using kv_free_Delete [of s k]
    by (cases rule: kv_SetNX_cases [of s t k v ttl])
      (auto simp: kv_look_put kv_look_Delete)
next
  case (6 s t k ttl)
  show ?case
  proof (cases rule: kv_Incr_cases [of s k t ttl])
    case (found e)
    then show ?thesis using 6
      by (auto simp: kv_ok_def kv_free_def length_put)
  next
    case (absent m')
    then show ?thesis using 6 by (auto intro: order.trans [OF kv_free_Delete kv_put_simps(4)])
  qed
next
  case (7 t k ttl s)
  show ?case by (cases rule: kv_Incr_cases [of s k t ttl]) auto
next
  case (8 s t t' k ttl)
  then show ?case by (cases rule: kv_Incr_cases [of s k t ttl]) (auto simp: kv_look_put kv_look_upd)
next
  case (9 s k' k t t' ttl)
  then show ?case using kv_free_Delete [of s k]
    by (cases rule: kv_Incr_cases [of s k t ttl])
      (auto simp: kv_look_put kv_look_upd kv_look_Delete)
qed

section \<open>Properties\<close>

text \<open>C21: an identifier is accepted once. In a run of replay checks on a fresh in-process store that
  does not exceed its capacity, if a call recorded an identifier, every later call with the same
  identifier inside the recorded window reports it as already seen.\<close>

theorem replay_rejected:
  assumes "sorted (map fst cs)" "length cs \<le> km_max (NewKvMemory opt)" "i < j" "j < length cs"
    and "cs ! i = (ti, k, ttl)" "cs ! j = (tj, k, ttl')" "ttl \<le> 0 \<or> tj < ti + ttl"
    and "\<not> run_seen kv_SetNX cs (NewKvMemory opt) ! i"
  shows "run_seen kv_SetNX cs (NewKvMemory opt) ! j"
  by (rule km.seen_once [OF _ assms(1) _ assms(3-6) assms(8,7)])
    (use assms(2) in \<open>simp_all add: kv_ok_def kv_free_def NewKvMemory_def\<close>)

theorem replay_rejected_witness:
  "let r = run_seen kv_SetNX [(100, ''a'', 50), (110, ''b'', 50), (149, ''a'', 50)] (NewKvMemory None)
   in \<not> r ! 0 \<and> r ! 2"
proof -
  let ?cs = "[(100, ''a'', 50), (110, ''b'', 50), (149, ''a'', 50)] :: (time \<times> string \<times> duration) list"
  have "\<not> run_seen kv_SetNX ?cs (NewKvMemory None) ! 0"
    by (simp add: run_seen.simps CacheReplay_Seen_def kv_SetNX_def kv_live_def kv_put_def
        kv_expiry_def expired_def NewKvMemory_def DefaultMemoryMaxEntries_def Let_def)
  then show ?thesis
    using replay_rejected [of ?cs None 0 2 100 "''a''" 50 149 50]
    by (simp add: NewKvMemory_def DefaultMemoryMaxEntries_def)
qed

text \<open>Past its capacity the store drops the live entry that expires first, and an identifier
  still inside its window is then accepted a second time.\<close>

theorem replay_forgotten_when_full:
  "run_seen kv_SetNX [(100, ''a'', 50), (101, ''b'', 60), (102, ''a'', 50)] (NewKvMemory (Some 1))
     = [False, False, False]"
  by (simp add: run_seen.simps CacheReplay_Seen_def kv_SetNX_def kv_live_def kv_put_def kv_expiry_def
      expired_def NewKvMemory_def sweepEntries_def gm_drop_def evictSoonest_def Let_def)



text \<open>Runs of the adapter's operations.\<close>

inductive kv_reach :: "int option \<Rightarrow> KvMemory \<Rightarrow> bool" for opt where
  init: "kv_reach opt (NewKvMemory opt)"
| get: "kv_reach opt m \<Longrightarrow> kv_reach opt (snd (kv_Get t k m))"
| set: "kv_reach opt m \<Longrightarrow> kv_reach opt (kv_Set t k v ttl m)"
| setnx: "kv_reach opt m \<Longrightarrow> kv_reach opt (snd (kv_SetNX t k v ttl m))"
| delete: "kv_reach opt m \<Longrightarrow> kv_reach opt (kv_Delete k m)"
| incr: "kv_reach opt m \<Longrightarrow> kv_reach opt (snd (kv_Incr t k ttl m))"

definition kv_bounded :: "KvMemory \<Rightarrow> bool" where
  "kv_bounded m \<longleftrightarrow> kv_ok m \<and> 0 < km_max m \<and> length (km_entries m) \<le> km_max m"

lemma kv_bounded_Delete: "kv_bounded m \<Longrightarrow> kv_bounded (kv_Delete k m)"
  by (auto simp: kv_bounded_def intro: order.trans [OF kv_Delete_simps(4)])

lemma kv_bounded_put: "kv_bounded m \<Longrightarrow> kv_bounded (kv_put k e t m)"
proof -
  assume b: "kv_bounded m"
  let ?w = "sweepEntries t m"
  have "length (km_entries (evictSoonest ?w)) < km_max m" if "km_max m \<le> length (km_entries ?w)"
  proof -
    have "km_entries ?w \<noteq> []" using that b by (auto simp: kv_bounded_def)
    from kv_evict_simps(3) [OF this] kv_sweep_simps(3) [of t m] b show ?thesis
      unfolding kv_bounded_def by linarith
  qed
  then have "length (km_entries (kv_put k e t m)) \<le> km_max m"
    using b by (auto simp: kv_put_def kv_bounded_def length_put Let_def map_of_eq_None_iff)
  then show ?thesis using b by (simp add: kv_bounded_def)
qed

lemma kv_bounded_live: "kv_bounded m \<Longrightarrow> kv_bounded (snd (kv_live k t m))"
  by (auto simp: kv_live_cases kv_bounded_Delete split: option.splits)

text \<open>C32: the store never holds more keys than its bound, and every key at most once, after any
  run of its operations.\<close>

theorem kv_memory_bounded:
  assumes "kv_reach opt m"
  shows "distinct (gm_keys (km_entries m)) \<and> length (km_entries m) \<le> km_max m
     \<and> km_max m = km_max (NewKvMemory opt)"
proof -
  from assms have "kv_bounded m \<and> km_max m = km_max (NewKvMemory opt)"
  proof (induction rule: kv_reach.induct)
    case init
    then show ?case by (auto simp: kv_bounded_def kv_ok_def NewKvMemory_def DefaultMemoryMaxEntries_def
          split: option.splits)
  next
    case (get m t k)
    then show ?case using kv_bounded_live [of m k t]
      by (auto simp: kv_Get_def kv_live_cases split: option.splits)
  next
    case (set m t k v ttl)
    then show ?case by (simp add: kv_Set_def kv_bounded_put)
  next
    case (setnx m t k v ttl)
    then show ?case by (cases rule: kv_SetNX_cases [of m t k v ttl])
        (auto intro: kv_bounded_put kv_bounded_Delete)
  next
    case (delete m k)
    then show ?case by (simp add: kv_bounded_Delete)
  next
    case (incr m t k ttl)
    show ?case
    proof (cases rule: kv_Incr_cases [of m k t ttl])
      case (found e)
      then have "k \<in> set (gm_keys (km_entries m))" using map_of_SomeD by force
      with found incr.IH show ?thesis by (auto simp: kv_bounded_def kv_ok_def length_put)
    next
      case (absent m')
      with incr.IH show ?thesis by (auto intro: kv_bounded_put kv_bounded_Delete)
    qed
  qed
  then show ?thesis by (simp add: kv_bounded_def kv_ok_def gm_ok_def)
qed

theorem kv_memory_bounded_witness:
  "length (km_entries (snd (kv_Incr 7 ''b'' 5 (kv_Set 6 ''a'' ''v'' 0 (NewKvMemory (Some 1)))))) \<le> 1"
  using kv_memory_bounded [OF kv_reach.incr [OF kv_reach.set [OF kv_reach.init]],
      of 7 "''b''" 5 6 "''a''" "''v''" 0 "Some 1"]
  by (simp add: NewKvMemory_def)

end
