(* ===== verification/AsToken.thy ===== *)
theory AsToken
  imports AsClientAuth Jwks Kv
begin

text \<open>
  The token endpoint: redeeming an authorization code, rotating a refresh token, minting a pair of
  tokens and revoking one (\<open>src/internal/as/token.go\<close>, \<open>revoke.go\<close>, \<open>hardening.go\<close>,
  \<open>token_policy.go\<close>, \<open>token_hooks.go\<close>, \<open>dpop.go\<close> and the session links of \<open>oidc.go\<close>). Each handler
  is the composition of its atomic segments: a segment makes at most one call to a store, and the
  handlers of concurrent requests interleave between segments.

  Parameters stand for signing and verifying JWTs, JSON, the DPoP verifier, the
  \<open>authorization_details\<close> of RFC 9396, ID tokens and the host's claims hook. Random values and clock
  readings are arguments. Spans, metrics and audit events are left out.
\<close>

section \<open>Requests, claims and parameters\<close>

record TokenRequest =
  rq_GrantType :: string
  rq_ClientID :: string
  rq_ClientSecret :: string
  rq_Code :: string
  rq_CodeVerifier :: string
  rq_RedirectURI :: string
  rq_RefreshToken :: string
  rq_Resource :: string
  rq_Scope :: "string list"
  rq_AuthorizationDetails :: string
  rq_DPoPProof :: string
  rq_HTTPMethod :: string
  rq_HTTPURL :: string
  rq_ClientAssertionType :: string
  rq_ClientAssertion :: string
  rq_Assertion :: string

record TokenResponse =
  tr_AccessToken :: string
  tr_TokenType :: string
  tr_ExpiresIn :: int
  tr_RefreshToken :: string
  tr_Scope :: string
  tr_IssuedTokenType :: string
  tr_AuthorizationDetails :: "string option"
  tr_IDToken :: string

record idTokenInput =
  ii_ClientID :: string
  ii_UserID :: ULID
  ii_AccessToken :: string
  ii_Nonce :: string
  ii_SessionID :: string
  ii_AuthTime :: time
  ii_ACR :: string
  ii_AMR :: "string list"

datatype dpop_error = DPoPNonceRequired | DPoPNonceInvalid | DPoPOther

text \<open>The DPoP service: who must present a proof, whether it must carry a nonce, verification.\<close>

record dpop_service =
  ds_requires :: "string \<Rightarrow> bool"
  ds_nonce :: bool
  ds_verify :: "string \<Rightarrow> string \<Rightarrow> string \<Rightarrow> time \<Rightarrow> bool \<Rightarrow> dpop_error + string"

record token_params =
  pm_auth :: auth_params
  pm_challenge :: "string \<Rightarrow> string"
  pm_dpop :: "dpop_service option"
  pm_narrow_details :: "OAuthClient \<Rightarrow> string \<Rightarrow> string \<Rightarrow> as_error + string"
  pm_details_claim :: "string \<Rightarrow> as_error + claim option"
  pm_hook :: "((string, claim) gomap \<Rightarrow> as_error + (string, claim) gomap) option"
  pm_sign :: "string \<Rightarrow> Claims \<Rightarrow> as_error + string"
  pm_json :: "claim \<Rightarrow> string option"
  pm_marshal :: "Claims \<Rightarrow> as_error + string"
  pm_verify_jwt :: "time \<Rightarrow> string \<Rightarrow> as_error + Claims"
  pm_id_token :: "idTokenInput \<Rightarrow> as_error + string"
  pm_enc :: "string list \<Rightarrow> string option"
  pm_dec :: "string \<Rightarrow> string list option"

abbreviation HashToken :: "token_params \<Rightarrow> string \<Rightarrow> string" where
  "HashToken p tok \<equiv> ap_digest (pm_auth p) tok"

definition codeStorageKey :: "token_params \<Rightarrow> string \<Rightarrow> string" where
  "codeStorageKey p code = bytesHexKey (HashToken p code)"

record introspectCacheEntry =
  ie_expiresAt :: time
  ie_body :: string

record AsState =
  st_auth :: AuthState
  st_oidc :: "KvMemory option"
  st_introspect :: "(string, introspectCacheEntry) gomap"

abbreviation st_v20 :: "AsState \<Rightarrow> v20State" where
  "st_v20 s \<equiv> au_v20 (st_auth s)"

definition set_v20 :: "v20State \<Rightarrow> AsState \<Rightarrow> AsState" where
  "set_v20 v s = s\<lparr>st_auth := (st_auth s)\<lparr>au_v20 := v\<rparr>\<rparr>"

text \<open>What one request draws at random and when its segments read the clock.\<close>

record draws =
  dr_auth :: time
  dr_auth_put :: time
  dr_check :: time
  dr_store :: time
  dr_mint :: time
  dr_jti :: string
  dr_opaque :: "string option"
  dr_opaque_jti :: string
  dr_token :: "string option"
  dr_family :: ULID
  dr_id :: ULID

section \<open>Access token policy\<close>

definition AccessTokenFormatJWT :: string where "AccessTokenFormatJWT = ''jwt''"
definition AccessTokenFormatOpaque :: string where "AccessTokenFormatOpaque = ''opaque''"

definition accessTokenPolicy :: "Config \<Rightarrow> string \<Rightarrow> v20State \<Rightarrow> string \<times> string" where
  "accessTokenPolicy cfg clientID v =
     (let format = AccessTokenFormatJWT; alg = defaultSigningAlg cfg in
      case cf_TokenPolicy cfg of
        None \<Rightarrow> (format, alg)
      | Some tp \<Rightarrow>
          (let format = (if tp_DefaultAccessTokenFormat tp \<noteq> [] then tp_DefaultAccessTokenFormat tp else format) in
           case OAuthClientByClientID clientID v of
             Inl e \<Rightarrow> (format, alg)
           | Inr c \<Rightarrow>
               (if oc_AccessTokenFormat c \<noteq> [] then oc_AccessTokenFormat c else format,
                if oc_AccessTokenSignedResponseAlg c \<noteq> [] \<and> SigningAlgEnabled cfg (oc_AccessTokenSignedResponseAlg c)
                then oc_AccessTokenSignedResponseAlg c else alg)))"

definition issueOpaqueToken ::
  "token_params \<Rightarrow> draws \<Rightarrow> string \<Rightarrow> Claims \<Rightarrow> AsState \<Rightarrow> (as_error + string) \<times> AsState" where
  "issueOpaqueToken p d clientID claims s =
     (case pm_marshal p claims of
        Inl e \<Rightarrow> (Inl e, s)
      | Inr raw \<Rightarrow> (case dr_opaque d of
          None \<Rightarrow> (Inl (ErrOther ''mint opaque token''), s)
        | Some token \<Rightarrow>
            (let rc = \<lparr>oa_Hash = HashToken p token,
                   oa_JTI = (if cl_Jti claims = [] then dr_opaque_jti d else cl_Jti claims),
                   oa_ClientID = clientID, oa_Claims = raw, oa_IssuedAt = time_Unix (cl_Iat claims),
                   oa_ExpiresAt = time_Unix (cl_Exp claims), oa_RevokedAt = None\<rparr>
             in (Inr token, set_v20 (InsertOpaqueAccessToken (dr_store d) rc (st_v20 s)) s))))"

definition issueAccessToken ::
  "token_params \<Rightarrow> Config \<Rightarrow> draws \<Rightarrow> string \<Rightarrow> Claims \<Rightarrow> AsState \<Rightarrow> (as_error + string) \<times> AsState" where
  "issueAccessToken p cfg d clientID claims s =
     (case accessTokenPolicy cfg clientID (st_v20 s) of
        (format, alg) \<Rightarrow>
          if format = AccessTokenFormatOpaque then issueOpaqueToken p d clientID claims s
          else (pm_sign p alg claims, s))"

section \<open>Claims\<close>

definition applyOnTokenIssued :: "token_params \<Rightarrow> Claims \<Rightarrow> as_error + Claims" where
  "applyOnTokenIssued p claims =
     (case pm_hook p of
        None \<Rightarrow> Inr claims
      | Some hook \<Rightarrow>
          (let base = [(''iss'', CStr (cl_Iss claims)), (''sub'', CStr (cl_Sub claims)),
                 (''aud'', CStr (cl_Aud claims)), (''exp'', CInt (cl_Exp claims)),
                 (''iat'', CInt (cl_Iat claims)), (''jti'', CStr (cl_Jti claims)),
                 (''client_id'', CStr (cl_ClientID claims)), (''scope'', CStr (cl_Scope claims))];
               inp = fold (\<lambda>(k, v) m. gm_put k v m) (cl_Extra claims) base
           in case hook inp of
             Inl e \<Rightarrow> Inl e
           | Inr out \<Rightarrow> Inr (claims\<lparr>cl_Extra := fold (\<lambda>(k, v) m. gm_put k v m) out (cl_Extra claims)\<rparr>)))"

definition setAuthContextClaims :: "Claims \<Rightarrow> time \<Rightarrow> string \<Rightarrow> string list \<Rightarrow> Claims" where
  "setAuthContextClaims claims authTime acr amr =
     (if IsZero authTime \<and> acr = [] \<and> amr = [] then claims
      else
        (let x = cl_Extra claims;
             x = (if \<not> IsZero authTime then gm_put ''auth_time'' (CInt (to_Unix authTime)) x else x);
             x = (if acr \<noteq> [] then gm_put ''acr'' (CStr acr) x else x);
             x = (if amr \<noteq> [] then gm_put ''amr'' (CStrs amr) x else x)
         in claims\<lparr>cl_Extra := x\<rparr>))"

definition authorizationDetailsRaw :: "token_params \<Rightarrow> (string, claim) gomap \<Rightarrow> string option" where
  "authorizationDetailsRaw p extra =
     (case gm_get extra ''authorization_details'' of None \<Rightarrow> None | Some v \<Rightarrow> pm_json p v)"

section \<open>Sessions\<close>

definition oidc_get :: "time \<Rightarrow> string \<Rightarrow> AsState \<Rightarrow> string \<times> AsState" where
  "oidc_get now key s =
     (case st_oidc s of
        None \<Rightarrow> ([], s)
      | Some c \<Rightarrow> (case kv_Get now key c of
          (None, c) \<Rightarrow> ([], s\<lparr>st_oidc := Some c\<rparr>)
        | (Some v, c) \<Rightarrow> (v, s\<lparr>st_oidc := Some c\<rparr>)))"

definition codeSession :: "time \<Rightarrow> string \<Rightarrow> AsState \<Rightarrow> string \<times> AsState" where
  "codeSession now codeKey s = oidc_get now (''oidc:code:'' @ codeKey) s"

definition familySession :: "time \<Rightarrow> ULID \<Rightarrow> AsState \<Rightarrow> string \<times> AsState" where
  "familySession now familyID s = oidc_get now (''oidc:fam:'' @ familyID) s"

definition linkCodeSession :: "time \<Rightarrow> Config \<Rightarrow> string \<Rightarrow> string \<Rightarrow> AsState \<Rightarrow> AsState" where
  "linkCodeSession now cfg codeKey sessionID s =
     (case st_oidc s of
        None \<Rightarrow> s
      | Some c \<Rightarrow> if sessionID = [] then s
          else s\<lparr>st_oidc := Some (kv_Set now (''oidc:code:'' @ codeKey) sessionID
                   (cf_AuthorizationCodeTTL cfg + minute) c)\<rparr>)"

definition sessionClients :: "token_params \<Rightarrow> time \<Rightarrow> string \<Rightarrow> KvMemory \<Rightarrow> string list \<times> KvMemory" where
  "sessionClients p now sessionID c =
     (case kv_Get now (''oidc:sess:'' @ sessionID) c of
        (None, c) \<Rightarrow> ([], c)
      | (Some v, c) \<Rightarrow> (case pm_dec p v of None \<Rightarrow> ([], c) | Some out \<Rightarrow> (out, c)))"

definition linkFamilySession ::
  "token_params \<Rightarrow> Config \<Rightarrow> time \<Rightarrow> ULID \<Rightarrow> string \<Rightarrow> string \<Rightarrow> AsState \<Rightarrow> AsState" where
  "linkFamilySession p cfg now familyID sessionID clientID s =
     (case st_oidc s of
        None \<Rightarrow> s
      | Some c \<Rightarrow> if sessionID = [] then s
          else
            (let ttl = cf_RefreshTokenTTL cfg;
                 c = kv_Set now (''oidc:fam:'' @ familyID) sessionID ttl c;
                 (clients, c) = sessionClients p now sessionID c
             in if clientID \<in> set clients then s\<lparr>st_oidc := Some c\<rparr>
                else case pm_enc p (clients @ [clientID]) of
                  None \<Rightarrow> s\<lparr>st_oidc := Some c\<rparr>
                | Some raw \<Rightarrow> s\<lparr>st_oidc := Some (kv_Set now (''oidc:sess:'' @ sessionID) raw ttl c)\<rparr>))"

section \<open>Proof of possession and the denylist\<close>

definition dpopThumbprintForRequest :: "token_params \<Rightarrow> time \<Rightarrow> TokenRequest \<Rightarrow> as_error + string" where
  "dpopThumbprintForRequest p now req =
     (case pm_dpop p of
        None \<Rightarrow> Inr []
      | Some svc \<Rightarrow>
          if rq_DPoPProof req = [] then
            (if ds_requires svc (rq_ClientID req) then Inl ErrDPoPRequired else Inr [])
          else case ds_verify svc (rq_DPoPProof req) (rq_HTTPMethod req) (rq_HTTPURL req) now (ds_nonce svc) of
            Inl e \<Rightarrow> if e = DPoPNonceRequired \<or> e = DPoPNonceInvalid then Inl ErrDPoPNonceRequired
                     else Inl ErrDPoPInvalid
          | Inr thumb \<Rightarrow> Inr thumb)"

definition jktEqual :: "string \<Rightarrow> string \<Rightarrow> bool" where
  "jktEqual a b \<longleftrightarrow> a \<noteq> [] \<and> a = b"

definition purgeIntrospectCache :: "AsState \<Rightarrow> AsState" where
  "purgeIntrospectCache s = s\<lparr>st_introspect := []\<rparr>"

definition denyAccessJTI :: "Config \<Rightarrow> time \<Rightarrow> string \<Rightarrow> time \<Rightarrow> AsState \<Rightarrow> AsState" where
  "denyAccessJTI cfg now jti exp s =
     (if \<not> cf_AccessTokenRevocation cfg \<or> jti = [] then s
      else purgeIntrospectCache (set_v20 (DenyAccessToken now jti exp (st_v20 s)) s))"

definition accessJTIRevoked :: "Config \<Rightarrow> time \<Rightarrow> string \<Rightarrow> AsState \<Rightarrow> bool" where
  "accessJTIRevoked cfg now jti s =
     (if \<not> cf_AccessTokenRevocation cfg \<or> jti = [] then False else IsAccessTokenDenied now jti (st_v20 s))"

definition handleCodeReplay :: "Config \<Rightarrow> draws \<Rightarrow> string \<Rightarrow> AsState \<Rightarrow> AsState" where
  "handleCodeReplay cfg d codeKey s =
     (case RevokeRefreshTokensByAuthCode (dr_store d) codeKey ''authorization code replay'' (st_v20 s) of
        (jtis, v) \<Rightarrow>
          (let s = set_v20 v s in
           if jtis = [] then s
           else fold (\<lambda>j. denyAccessJTI cfg (dr_store d) j (dr_check d + cf_AccessTokenTTL cfg)) jtis s))"

section \<open>Minting\<close>

record mintInput =
  mi_ClientID :: string
  mi_UserID :: "ULID option"
  mi_Scope :: "string list"
  mi_Resource :: string
  mi_FamilyID :: "ULID option"
  mi_DPoPJKT :: string
  mi_AuthCodeHash :: string
  mi_GrantExpiry :: time
  mi_AuthorizationDetails :: string
  mi_AuthTime :: time
  mi_ACR :: string
  mi_AMR :: "string list"
  mi_Nonce :: string
  mi_SessionID :: string

definition capped :: "time \<Rightarrow> time \<Rightarrow> time" where
  "capped grant t = (if \<not> IsZero grant \<and> grant < t then grant else t)"

definition mint_claims ::
  "token_params \<Rightarrow> Config \<Rightarrow> draws \<Rightarrow> time \<Rightarrow> mintInput \<Rightarrow> as_error + Claims" where
  "mint_claims p cfg d accessExp inp =
     (let claims = \<lparr>cl_Iss = cf_Issuer cfg, cl_Sub = (case mi_UserID inp of None \<Rightarrow> [] | Some u \<Rightarrow> u),
            cl_Aud = mi_Resource inp, cl_Exp = to_Unix accessExp, cl_Iat = to_Unix (dr_mint d), cl_Nbf = 0,
            cl_Jti = dr_jti d, cl_ClientID = mi_ClientID inp, cl_Scope = scopeJoin (mi_Scope inp),
            cl_Typ = TypeAccessToken, cl_Extra = []\<rparr>;
          claims = (if mi_DPoPJKT inp \<noteq> []
            then claims\<lparr>cl_Extra := gm_put ''cnf'' (CStrMap [(''jkt'', mi_DPoPJKT inp)]) (cl_Extra claims)\<rparr>
            else claims)
      in case pm_details_claim p (mi_AuthorizationDetails inp) of
           Inl e \<Rightarrow> Inl e
         | Inr details \<Rightarrow>
             (let claims = (case details of
                    None \<Rightarrow> claims
                  | Some c \<Rightarrow> claims\<lparr>cl_Extra := gm_put ''authorization_details'' c (cl_Extra claims)\<rparr>);
                  claims = setAuthContextClaims claims (mi_AuthTime inp) (mi_ACR inp) (mi_AMR inp)
              in applyOnTokenIssued p claims))"

definition mint_row :: "token_params \<Rightarrow> Config \<Rightarrow> draws \<Rightarrow> string \<Rightarrow> mintInput \<Rightarrow> RefreshToken" where
  "mint_row p cfg d refreshToken inp =
     \<lparr>rt_ID = dr_id d, rt_Hash = HashToken p refreshToken,
      rt_FamilyID = (case mi_FamilyID inp of None \<Rightarrow> dr_family d | Some f \<Rightarrow> f),
      rt_ClientID = mi_ClientID inp, rt_UserID = mi_UserID inp, rt_AgentID = None,
      rt_Scope = mi_Scope inp, rt_Resource = mi_Resource inp, rt_ParentJTI = dr_jti d,
      rt_IssuedAt = dr_mint d,
      rt_ExpiresAt = capped (mi_GrantExpiry inp) (dr_mint d + cf_RefreshTokenTTL cfg),
      rt_RevokedAt = None, rt_RevocationNote = [], rt_DPoPJKT = mi_DPoPJKT inp,
      rt_AuthCodeHash = mi_AuthCodeHash inp, rt_AuthorizationDetails = mi_AuthorizationDetails inp,
      rt_AuthTime = mi_AuthTime inp, rt_ACR = mi_ACR inp, rt_AMR = mi_AMR inp\<rparr>"

text \<open>
  \<open>mintAccessAndRefresh\<close> up to the insertion of the row: the row and the response it leads to.
  \<open>Seconds\<close> is exact for the lifetimes of access tokens, so that \<open>expires_in\<close> is the whole number of
  seconds left.
\<close>

definition mint_prepare ::
  "token_params \<Rightarrow> Config \<Rightarrow> draws \<Rightarrow> mintInput \<Rightarrow> AsState
     \<Rightarrow> (as_error + RefreshToken \<times> TokenResponse) \<times> AsState" where
  "mint_prepare p cfg d inp s =
     (let now = dr_mint d;
          accessExp = capped (mi_GrantExpiry inp) (now + cf_AccessTokenTTL cfg)
      in if \<not> now < accessExp then (Inl ErrOAuthInvalidGrant, s)
         else case mint_claims p cfg d accessExp inp of
           Inl e \<Rightarrow> (Inl e, s)
         | Inr claims \<Rightarrow>
             (case issueAccessToken p cfg d (mi_ClientID inp) claims s of
                (Inl e, s) \<Rightarrow> (Inl e, s)
              | (Inr access, s) \<Rightarrow>
                  (case dr_token d of
                     None \<Rightarrow> (Inl (ErrOther ''mint refresh token''), s)
                   | Some tok \<Rightarrow>
                       (let refreshToken = withGrantExpiry tok (mi_GrantExpiry inp) in
                        (Inr (mint_row p cfg d refreshToken inp,
                           \<lparr>tr_AccessToken = access,
                            tr_TokenType = (if mi_DPoPJKT inp \<noteq> [] then ''DPoP'' else ''Bearer''),
                            tr_ExpiresIn = time_sub accessExp now div second,
                            tr_RefreshToken = refreshToken, tr_Scope = scopeJoin (mi_Scope inp),
                            tr_IssuedTokenType = [],
                            tr_AuthorizationDetails = authorizationDetailsRaw p (cl_Extra claims),
                            tr_IDToken = []\<rparr>), s)))))"

definition mint_insert :: "RefreshToken \<Rightarrow> AsState \<Rightarrow> AsState" where
  "mint_insert row s = set_v20 (InsertRefreshToken row (st_v20 s)) s"

definition mint_finish ::
  "token_params \<Rightarrow> Config \<Rightarrow> draws \<Rightarrow> mintInput \<Rightarrow> RefreshToken \<Rightarrow> TokenResponse \<Rightarrow> AsState
     \<Rightarrow> (as_error + TokenResponse) \<times> AsState" where
  "mint_finish p cfg d inp row resp s =
     (case mi_UserID inp of
        Some u \<Rightarrow>
          if cf_OIDC cfg \<and> ScopeOpenID \<in> set (mi_Scope inp) then
            (let s = linkFamilySession p cfg (dr_store d) (rt_FamilyID row) (mi_SessionID inp) (mi_ClientID inp) s in
             case pm_id_token p \<lparr>ii_ClientID = mi_ClientID inp, ii_UserID = u, ii_AccessToken = tr_AccessToken resp,
                    ii_Nonce = mi_Nonce inp, ii_SessionID = mi_SessionID inp, ii_AuthTime = mi_AuthTime inp,
                    ii_ACR = mi_ACR inp, ii_AMR = mi_AMR inp\<rparr> of
               Inl e \<Rightarrow> (Inl e, s)
             | Inr idToken \<Rightarrow> (Inr (resp\<lparr>tr_IDToken := idToken\<rparr>), s))
          else (Inr resp, s)
      | None \<Rightarrow> (Inr resp, s))"

definition mintAccessAndRefresh ::
  "token_params \<Rightarrow> Config \<Rightarrow> draws \<Rightarrow> mintInput \<Rightarrow> AsState \<Rightarrow> (as_error + TokenResponse) \<times> AsState" where
  "mintAccessAndRefresh p cfg d inp s =
     (case mint_prepare p cfg d inp s of
        (Inl e, s) \<Rightarrow> (Inl e, s)
      | (Inr (row, resp), s) \<Rightarrow> mint_finish p cfg d inp row resp (mint_insert row s))"

section \<open>Redeeming a code\<close>

definition authenticate ::
  "token_params \<Rightarrow> (AuthState \<Rightarrow> AuthState) \<Rightarrow> draws \<Rightarrow> TokenRequest \<Rightarrow> AsState
     \<Rightarrow> (as_error + OAuthClient) \<times> AsState" where
  "authenticate p env d req s =
     (case AuthenticateClientFromRequest (pm_auth p) env (dr_auth d) (dr_auth_put d) (rq_ClientAssertionType req)
             (rq_ClientAssertion req) (rq_ClientID req) (rq_ClientSecret req) (st_auth s) of
        (r, a) \<Rightarrow> (r, s\<lparr>st_auth := a\<rparr>))"

definition exchange_auth ::
  "token_params \<Rightarrow> (AuthState \<Rightarrow> AuthState) \<Rightarrow> draws \<Rightarrow> TokenRequest \<Rightarrow> AsState
     \<Rightarrow> (as_error + OAuthClient) \<times> AsState" where
  "exchange_auth p env d req s =
     (case authenticate p env d req s of
        (Inl e, s) \<Rightarrow> (Inl e, s)
      | (Inr client, s) \<Rightarrow>
          if rq_Code req = [] then (Inl ErrOAuthInvalidRequest, s)
          else if rq_CodeVerifier req = [] then (Inl ErrOAuthInvalidRequest, s)
          else (Inr client, s))"

definition exchange_consume ::
  "token_params \<Rightarrow> TokenRequest \<Rightarrow> AsState \<Rightarrow> (storage_error + AuthorizationCode) \<times> AsState" where
  "exchange_consume p req s =
     (case ConsumeAuthorizationCode (codeStorageKey p (rq_Code req)) (st_v20 s) of
        (r, v) \<Rightarrow> (r, set_v20 v s))"

definition exchange_check ::
  "token_params \<Rightarrow> Config \<Rightarrow> draws \<Rightarrow> TokenRequest \<Rightarrow> OAuthClient \<Rightarrow> AuthorizationCode \<Rightarrow> as_error + mintInput" where
  "exchange_check p cfg d req client codeRow =
     (let parse = ap_parse (pm_auth p);
          loopbackMatch = cc_LoopbackAnyPort (cf_ClientCompat cfg)
            \<and> loopbackEquivalent parse cfg (rq_RedirectURI req) (ac_RedirectURI codeRow)
      in if ac_ClientID codeRow \<noteq> oc_ClientID client then Inl ErrOAuthInvalidGrant
         else if \<not> dr_check d < ac_ExpiresAt codeRow then Inl ErrOAuthInvalidGrant
         else if rq_RedirectURI req = [] \<or> (rq_RedirectURI req \<noteq> ac_RedirectURI codeRow \<and> \<not> loopbackMatch)
              then Inl ErrOAuthRedirectURIMismatch
         else if ac_CodeChallengeMethod codeRow \<noteq> ''S256'' then Inl ErrOAuthInvalidGrant
         else if pm_challenge p (rq_CodeVerifier req) \<noteq> ac_CodeChallenge codeRow then Inl ErrOAuthPKCEMismatch
         else case resolveResource parse cfg (ac_Resource codeRow) of
           Inl e \<Rightarrow> Inl e
         | Inr (_, audience) \<Rightarrow>
             (case pm_narrow_details p client (rq_AuthorizationDetails req) (ac_AuthorizationDetails codeRow) of
                Inl e \<Rightarrow> Inl e
              | Inr details \<Rightarrow>
                  (case dpopThumbprintForRequest p (dr_check d) req of
                     Inl e \<Rightarrow> Inl e
                   | Inr jkt \<Rightarrow>
                       Inr \<lparr>mi_ClientID = oc_ClientID client, mi_UserID = Some (ac_UserID codeRow),
                            mi_Scope = ac_Scope codeRow, mi_Resource = audience, mi_FamilyID = None,
                            mi_DPoPJKT = jkt, mi_AuthCodeHash = codeStorageKey p (rq_Code req),
                            mi_GrantExpiry = splitGrantExpiry (rq_Code req),
                            mi_AuthorizationDetails = details, mi_AuthTime = ac_AuthTime codeRow,
                            mi_ACR = ac_ACR codeRow, mi_AMR = ac_AMR codeRow, mi_Nonce = ac_Nonce codeRow,
                            mi_SessionID = []\<rparr>)))"

definition exchange_session :: "token_params \<Rightarrow> draws \<Rightarrow> TokenRequest \<Rightarrow> mintInput \<Rightarrow> AsState \<Rightarrow> mintInput \<times> AsState" where
  "exchange_session p d req inp s =
     (case codeSession (dr_check d) (codeStorageKey p (rq_Code req)) s of
        (sid, s) \<Rightarrow> (inp\<lparr>mi_SessionID := sid\<rparr>, s))"

definition ExchangeAuthorizationCode ::
  "token_params \<Rightarrow> (AuthState \<Rightarrow> AuthState) \<Rightarrow> Config \<Rightarrow> draws \<Rightarrow> TokenRequest \<Rightarrow> AsState
     \<Rightarrow> (as_error + TokenResponse) \<times> AsState" where
  "ExchangeAuthorizationCode p env cfg d req s =
     (case exchange_auth p env d req s of
        (Inl e, s) \<Rightarrow> (Inl e, s)
      | (Inr client, s) \<Rightarrow>
          (case exchange_consume p req s of
             (Inl e, s) \<Rightarrow> (Inl ErrOAuthInvalidGrant, handleCodeReplay cfg d (codeStorageKey p (rq_Code req)) s)
           | (Inr codeRow, s) \<Rightarrow>
               (case exchange_check p cfg d req client codeRow of
                  Inl e \<Rightarrow> (Inl e, s)
                | Inr inp \<Rightarrow>
                    (case exchange_session p d req inp s of
                       (inp, s) \<Rightarrow> mintAccessAndRefresh p cfg d inp s))))"

section \<open>Rotating a refresh token\<close>

definition refresh_auth ::
  "token_params \<Rightarrow> (AuthState \<Rightarrow> AuthState) \<Rightarrow> draws \<Rightarrow> TokenRequest \<Rightarrow> AsState
     \<Rightarrow> (as_error + OAuthClient) \<times> AsState" where
  "refresh_auth p env d req s =
     (case authenticate p env d req s of
        (Inl e, s) \<Rightarrow> (Inl e, s)
      | (Inr client, s) \<Rightarrow>
          if rq_RefreshToken req = [] then (Inl ErrOAuthInvalidRequest, s) else (Inr client, s))"

text \<open>
  The lookup and what follows from the row as it was read: \<open>None\<close> asks for the revocation of the
  family, which is then a call of its own.
\<close>

definition refresh_lookup :: "token_params \<Rightarrow> TokenRequest \<Rightarrow> OAuthClient \<Rightarrow> AsState \<Rightarrow> as_error + RefreshToken" where
  "refresh_lookup p req client s =
     (case RefreshTokenByHash (HashToken p (rq_RefreshToken req)) (st_v20 s) of
        Inl e \<Rightarrow> Inl ErrOAuthInvalidGrant
      | Inr rt \<Rightarrow> if rt_ClientID rt \<noteq> oc_ClientID client then Inl ErrOAuthInvalidGrant else Inr rt)"

definition refresh_check ::
  "token_params \<Rightarrow> Config \<Rightarrow> draws \<Rightarrow> TokenRequest \<Rightarrow> OAuthClient \<Rightarrow> RefreshToken \<Rightarrow> as_error + mintInput" where
  "refresh_check p cfg d req client rt =
     (if \<not> dr_check d < rt_ExpiresAt rt then Inl ErrOAuthInvalidGrant
      else if rq_Resource req \<noteq> [] \<and> \<not> resourceMatchesGrant (ap_parse (pm_auth p)) cfg (rq_Resource req) (rt_Resource rt)
           then Inl ErrOAuthInvalidResource
      else case narrowRefreshScopes cfg (rq_Scope req) (rt_Scope rt) of
        Inl e \<Rightarrow> Inl e
      | Inr scope \<Rightarrow>
          (case dpopThumbprintForRequest p (dr_check d) req of
             Inl e \<Rightarrow> Inl e
           | Inr jkt \<Rightarrow>
               if rt_DPoPJKT rt \<noteq> [] \<and> (jkt = [] \<or> \<not> jktEqual jkt (rt_DPoPJKT rt)) then Inl ErrDPoPInvalid
               else case pm_narrow_details p client (rq_AuthorizationDetails req) (rt_AuthorizationDetails rt) of
                 Inl e \<Rightarrow> Inl e
               | Inr details \<Rightarrow>
                   Inr \<lparr>mi_ClientID = oc_ClientID client, mi_UserID = rt_UserID rt, mi_Scope = scope,
                        mi_Resource = rt_Resource rt, mi_FamilyID = Some (rt_FamilyID rt), mi_DPoPJKT = jkt,
                        mi_AuthCodeHash = [], mi_GrantExpiry = splitGrantExpiry (rq_RefreshToken req),
                        mi_AuthorizationDetails = details, mi_AuthTime = rt_AuthTime rt, mi_ACR = rt_ACR rt,
                        mi_AMR = rt_AMR rt, mi_Nonce = [], mi_SessionID = []\<rparr>))"

definition refresh_reuse :: "draws \<Rightarrow> ULID \<Rightarrow> AsState \<Rightarrow> AsState" where
  "refresh_reuse d familyID s =
     set_v20 (RevokeRefreshTokenFamily (dr_store d) familyID ''reuse detected'' (st_v20 s)) s"

definition refresh_rotate :: "token_params \<Rightarrow> draws \<Rightarrow> TokenRequest \<Rightarrow> AsState \<Rightarrow> storage_error option \<times> AsState" where
  "refresh_rotate p d req s =
     (case RevokeRefreshToken (dr_store d) (HashToken p (rq_RefreshToken req)) ''rotated'' (st_v20 s) of
        (r, v) \<Rightarrow> (r, set_v20 v s))"

definition refresh_session :: "draws \<Rightarrow> RefreshToken \<Rightarrow> mintInput \<Rightarrow> AsState \<Rightarrow> mintInput \<times> AsState" where
  "refresh_session d rt inp s =
     (case familySession (dr_store d) (rt_FamilyID rt) s of (sid, s) \<Rightarrow> (inp\<lparr>mi_SessionID := sid\<rparr>, s))"

definition RefreshAccessToken ::
  "token_params \<Rightarrow> (AuthState \<Rightarrow> AuthState) \<Rightarrow> Config \<Rightarrow> draws \<Rightarrow> TokenRequest \<Rightarrow> AsState
     \<Rightarrow> (as_error + TokenResponse) \<times> AsState" where
  "RefreshAccessToken p env cfg d req s =
     (case refresh_auth p env d req s of
        (Inl e, s) \<Rightarrow> (Inl e, s)
      | (Inr client, s) \<Rightarrow>
          (case refresh_lookup p req client s of
             Inl e \<Rightarrow> (Inl e, s)
           | Inr rt \<Rightarrow>
               if rt_RevokedAt rt \<noteq> None then (Inl ErrOAuthInvalidGrant, refresh_reuse d (rt_FamilyID rt) s)
               else case refresh_check p cfg d req client rt of
                 Inl e \<Rightarrow> (Inl e, s)
               | Inr inp \<Rightarrow>
                   (case refresh_rotate p d req s of
                      (Some e, s) \<Rightarrow> (Inl ErrOAuthInvalidGrant, refresh_reuse d (rt_FamilyID rt) s)
                    | (None, s) \<Rightarrow>
                        (case refresh_session d rt inp s of
                           (inp, s) \<Rightarrow> mintAccessAndRefresh p cfg d inp s))))"

section \<open>Revocation\<close>

definition revokeRefreshFamily :: "draws \<Rightarrow> string \<Rightarrow> string \<Rightarrow> AsState \<Rightarrow> AsState" where
  "revokeRefreshFamily d hash clientID s =
     (case RefreshTokenByHash hash (st_v20 s) of
        Inl e \<Rightarrow> s
      | Inr rt \<Rightarrow> if rt_ClientID rt \<noteq> clientID then s
          else set_v20 (RevokeRefreshTokenFamily (dr_store d) (rt_FamilyID rt) ''explicit revoke'' (st_v20 s)) s)"

definition revokeAccessToken :: "token_params \<Rightarrow> Config \<Rightarrow> draws \<Rightarrow> string \<Rightarrow> string \<Rightarrow> AsState \<Rightarrow> AsState" where
  "revokeAccessToken p cfg d token clientID s =
     (if \<not> cf_AccessTokenRevocation cfg then s
      else case pm_verify_jwt p (dr_check d) token of
        Inl e \<Rightarrow> s
      | Inr claims \<Rightarrow>
          if cl_Iss claims \<noteq> cf_Issuer cfg \<or> cl_ClientID claims \<noteq> clientID \<or> cl_Jti claims = [] then s
          else denyAccessJTI cfg (dr_store d) (cl_Jti claims) (time_Unix (cl_Exp claims)) s)"

definition revokeOpaqueAccessToken :: "draws \<Rightarrow> string \<Rightarrow> string \<Rightarrow> AsState \<Rightarrow> bool \<times> AsState" where
  "revokeOpaqueAccessToken d hash clientID s =
     (case OpaqueAccessTokenByHash hash (st_v20 s) of
        Inl e \<Rightarrow> (False, s)
      | Inr r \<Rightarrow> (True, if oa_ClientID r = clientID
          then purgeIntrospectCache (set_v20 (RevokeOpaqueAccessToken (dr_store d) hash (st_v20 s)) s) else s))"

definition RevokeToken ::
  "token_params \<Rightarrow> (AuthState \<Rightarrow> AuthState) \<Rightarrow> Config \<Rightarrow> draws \<Rightarrow> string \<Rightarrow> string \<Rightarrow> string \<Rightarrow> string \<Rightarrow> AsState
     \<Rightarrow> as_error option \<times> AsState" where
  "RevokeToken p env cfg d token tokenTypeHint clientID clientSecret s =
     (case AuthenticateClient (pm_auth p) env (dr_auth d) (dr_auth_put d) clientID clientSecret (st_auth s) of
        (Inl e, a) \<Rightarrow> (Some e, s\<lparr>st_auth := a\<rparr>)
      | (Inr client, a) \<Rightarrow>
          (let s = s\<lparr>st_auth := a\<rparr> in
           if token = [] then (None, s)
           else if length (filter (\<lambda>c. c = CHR ''.'') token) = 2
             then (None, revokeAccessToken p cfg d token (oc_ClientID client) s)
           else
             (let hash = HashToken p token in
              case revokeOpaqueAccessToken d hash (oc_ClientID client) s of
                (True, s) \<Rightarrow> (None, s)
              | (False, s) \<Rightarrow>
                  if tokenTypeHint = ''access_token'' then (None, s)
                  else (None, revokeRefreshFamily d hash (oc_ClientID client) s))))"

section \<open>Sample parameters\<close>

text \<open>Concrete parameters, a configuration, draws and an empty state, for the witnesses.\<close>

definition ex_tp :: token_params where
  "ex_tp = \<lparr>pm_auth = \<lparr>ap_parse = (\<lambda>_. None), ap_digest = (\<lambda>x. x), ap_cimd = None,
       ap_verify = (\<lambda>_ _. Inr False), ap_jwt = (\<lambda>_ _. Inl ErrOAuthInvalidClient)\<rparr>,
     pm_challenge = (\<lambda>x. x), pm_dpop = None, pm_narrow_details = (\<lambda>_ _ g. Inr g),
     pm_details_claim = (\<lambda>_. Inr None), pm_hook = None, pm_sign = (\<lambda>_ c. Inr (''jwt.'' @ cl_Jti c)),
     pm_json = (\<lambda>_. None), pm_marshal = (\<lambda>c. Inr (cl_Jti c)), pm_verify_jwt = (\<lambda>_ _. Inl ErrOAuthInvalidGrant),
     pm_id_token = (\<lambda>_. Inr []), pm_enc = (\<lambda>_. None), pm_dec = (\<lambda>_. None)\<rparr>"

definition ex_cfg :: Config where
  "ex_cfg = \<lparr>cf_Issuer = ''iss'', cf_Resources = [\<lparr>pr_Identifier = ''api'', pr_DisplayName = [], pr_Scopes = []\<rparr>],
     cf_SigningAlg = [], cf_TokenPolicy = None, cf_AccessTokenTTL = 60 * minute, cf_RefreshTokenTTL = 43200 * minute,
     cf_AuthorizationCodeTTL = minute, cf_ConsentMaxGrantTTL = 0, cf_RequireState = False,
     cf_AccessTokenRevocation = True,
     cf_ClientCompat = \<lparr>cc_OptionalResource = False, cc_DropUnknownScopes = False, cc_LoopbackAnyPort = False,
       cc_LoopbackAllowLocalhost = False, cc_PathAudience = False\<rparr>,
     cf_OIDC = False, cf_ACRValues = [], cf_ConsentTicketTTL = minute, cf_ClockSkew = 0,
     cf_IntrospectionCacheTTL = minute, cf_SubjectActiveCacheTTL = 0, cf_MaxActorChainDepth = 0\<rparr>"

definition ex_now :: time where "ex_now = time_Unix 1000"

definition ex_as0 :: AsState where
  "ex_as0 = \<lparr>st_auth = \<lparr>au_v20 = ensureV20, au_cache = NewCache 0 0\<rparr>, st_oidc = None, st_introspect = []\<rparr>"

definition ex_d :: "string \<Rightarrow> draws" where
  "ex_d t = \<lparr>dr_auth = ex_now, dr_auth_put = ex_now, dr_check = ex_now, dr_store = ex_now, dr_mint = ex_now,
     dr_jti = ''j'' @ t, dr_opaque = None, dr_opaque_jti = [], dr_token = Some t, dr_family = ''f'' @ t, dr_id = ''i'' @ t\<rparr>"

end
