(* ===== verification/AsStoreRuns.thy ===== *)
theory AsStoreRuns
  imports AsStore
begin

text \<open>
  Runs of the in-process storage of \<open>AsStore\<close>: the secondary indexes of agents, their credentials
  and delegation grants agree with the rows after every sequence of operations, and lookups find what
  the rows hold.
\<close>

section \<open>Secondary indexes\<close>

text \<open>
  A list index agrees with its rows when it lists, once each, exactly the rows that carry the key.
\<close>

definition index_ok :: "('i, 'r) gomap \<Rightarrow> ('k, 'i list) gomap \<Rightarrow> ('r \<Rightarrow> 'k) \<Rightarrow> bool" where
  "index_ok rows idx key \<longleftrightarrow>
     (\<forall>k. distinct (gm_read [] idx k))
     \<and> (\<forall>k i. i \<in> set (gm_read [] idx k) \<longleftrightarrow> (\<exists>r. gm_get rows i = Some r \<and> key r = k))"

lemma index_ok_insert:
  assumes "index_ok rows idx key" and "gm_get rows i = None"
  shows "index_ok (gm_put i r rows) (gm_put (key r) (gm_read [] idx (key r) @ [i]) idx) key"
proof -
  have "i \<notin> set (gm_read [] idx k)" for k
    using assms unfolding index_ok_def by fastforce
  with assms(1) show ?thesis
    unfolding index_ok_def by (auto simp: assms(2))
qed

lemma index_ok_update:
  assumes "index_ok rows idx key" and "gm_get rows i = Some r0" and "key r = key r0"
  shows "index_ok (gm_put i r rows) idx key"
  using assms unfolding index_ok_def by (auto simp: gm_get_put)

lemma index_ok_rows:
  assumes "index_ok rows idx key"
  shows "set (map (gm_read z rows) (gm_read [] idx k)) = {r. \<exists>i. gm_get rows i = Some r \<and> key r = k}"
  using assms unfolding index_ok_def by (force simp: gm_read_def image_iff)

section \<open>Agents\<close>

definition agents_ok :: "v20State \<Rightarrow> bool" where
  "agents_ok v \<longleftrightarrow>
     (\<forall>i a. gm_get (v_agents v) i = Some a \<longrightarrow>
        ag_ID a = i \<and> gm_get (v_agentsByClientID v) (ag_ClientID a) = Some i)
     \<and> (\<forall>c i. gm_get (v_agentsByClientID v) c = Some i \<longrightarrow>
        (\<exists>a. gm_get (v_agents v) i = Some a \<and> ag_ClientID a = c))
     \<and> index_ok (v_agentCredentials v) (v_credsByAgent v) cr_AgentID"

lemma agents_ok_InsertAgent: "agents_ok v \<Longrightarrow> agents_ok (snd (InsertAgent now a v))"
  unfolding agents_ok_def InsertAgent_def by (auto simp: Let_def split: if_splits)
    (metis option.distinct(1))+

lemma agents_ok_set:
  assumes "agents_ok v" and "gm_get (v_agents v) i = Some a" and "ag_ID a' = ag_ID a"
    and "ag_ClientID a' = ag_ClientID a"
  shows "agents_ok (v\<lparr>v_agents := gm_put i a' (v_agents v)\<rparr>)" (is "agents_ok ?v")
proof -
  from assms have a: "ag_ID a = i" "gm_get (v_agentsByClientID v) (ag_ClientID a) = Some i"
    unfolding agents_ok_def by blast+
  have "ag_ID b = j \<and> gm_get (v_agentsByClientID v) (ag_ClientID b) = Some j"
    if "gm_get (gm_put i a' (v_agents v)) j = Some b" for j b
    using that assms a unfolding agents_ok_def by (cases "j = i") auto
  moreover have "\<exists>b. gm_get (gm_put i a' (v_agents v)) j = Some b \<and> ag_ClientID b = c"
    if "gm_get (v_agentsByClientID v) c = Some j" for c j
  proof -
    from that assms(1) obtain b where b: "gm_get (v_agents v) j = Some b" "ag_ClientID b = c"
      unfolding agents_ok_def by blast
    then show ?thesis using assms(2,4) by (cases "j = i") auto
  qed
  moreover have "index_ok (v_agentCredentials v) (v_credsByAgent v) cr_AgentID"
    using assms(1) by (simp add: agents_ok_def)
  moreover have "v_agents ?v = gm_put i a' (v_agents v)" "v_agentsByClientID ?v = v_agentsByClientID v"
    "v_agentCredentials ?v = v_agentCredentials v" "v_credsByAgent ?v = v_credsByAgent v"
    by simp_all
  ultimately show ?thesis unfolding agents_ok_def by presburger
qed

lemma agents_ok_updates:
  assumes "agents_ok v"
  shows "agents_ok (snd (UpdateAgentStatus i status v))"
    and "agents_ok (snd (UpdateAgentExpiry i e v))"
    and "agents_ok (snd (UpdateAgentLastActive i at v))"
  using assms
  by (auto simp: UpdateAgentStatus_def UpdateAgentExpiry_def UpdateAgentLastActive_def
      intro: agents_ok_set split: option.splits)

lemma agents_ok_credentials:
  assumes "agents_ok v"
  shows "agents_ok (snd (InsertAgentCredential now c v))"
    and "agents_ok (snd (RevokeAgentCredential i at v))"
    and "agents_ok (snd (UpdateAgentCredentialLastUsed i at v))"
proof -
  from assms have ix: "index_ok (v_agentCredentials v) (v_credsByAgent v) cr_AgentID"
    by (simp add: agents_ok_def)
  let ?c = "if IsZero (cr_CreatedAt c) then c\<lparr>cr_CreatedAt := now\<rparr> else c"
  have c: "cr_ID ?c = cr_ID c" "cr_AgentID ?c = cr_AgentID c" by simp_all
  show "agents_ok (snd (InsertAgentCredential now c v))"
    using assms index_ok_insert [OF ix, of "cr_ID ?c" ?c]
    by (auto simp: agents_ok_def InsertAgentCredential_def Let_def split: if_splits)
  show "agents_ok (snd (RevokeAgentCredential i at v))"
    using assms index_ok_update [OF ix]
    by (auto simp: agents_ok_def RevokeAgentCredential_def split: option.splits)
  show "agents_ok (snd (UpdateAgentCredentialLastUsed i at v))"
    using assms index_ok_update [OF ix]
    by (auto simp: agents_ok_def UpdateAgentCredentialLastUsed_def split: option.splits)
qed

section \<open>Delegations\<close>

abbreviation tuple_key :: "DelegationGrant \<Rightarrow> string" where
  "tuple_key g \<equiv> delegationTupleKey (dg_UserID g) (dg_AgentID g) (dg_Resource g)"

text \<open>A ULID is written with 26 characters.\<close>

abbreviation ulid_text :: "ULID \<Rightarrow> bool" where
  "ulid_text i \<equiv> length i = 26"

definition deleg_ok :: "v20State \<Rightarrow> bool" where
  "deleg_ok v \<longleftrightarrow>
     (\<forall>i g. gm_get (v_delegations v) i = Some g \<longrightarrow>
        dg_ID g = i \<and> ulid_text (dg_UserID g) \<and> ulid_text (dg_AgentID g)
        \<and> (dg_RevokedAt g = None \<longrightarrow> gm_get (v_delegByTuple v) (tuple_key g) = Some i))
     \<and> (\<forall>k i. gm_get (v_delegByTuple v) k = Some i \<longrightarrow>
        (\<exists>g. gm_get (v_delegations v) i = Some g \<and> tuple_key g = k))
     \<and> index_ok (v_delegations v) (v_delegByUser v) dg_UserID
     \<and> index_ok (v_delegations v) (v_delegByAgent v) dg_AgentID"

lemma InsertDelegationGrant_cases:
  obtains
    (dup) i g0 where "gm_get (v_delegByTuple v) (tuple_key g) = Some i"
      "gm_read zero_DelegationGrant (v_delegations v) i = g0" "dg_RevokedAt g0 = None"
      "InsertDelegationGrant now g v = (Inl ErrStorageNotFound, v)"
  | (new) g' tuples where "\<And>i. gm_get (v_delegByTuple v) (tuple_key g) = Some i \<Longrightarrow>
        dg_RevokedAt (gm_read zero_DelegationGrant (v_delegations v) i) \<noteq> None"
      "dg_ID g' = dg_ID g" "dg_UserID g' = dg_UserID g" "dg_AgentID g' = dg_AgentID g"
      "dg_Resource g' = dg_Resource g" "dg_RevokedAt g' = dg_RevokedAt g"
      "\<And>k. gm_get tuples k = (if k = tuple_key g then Some (dg_ID g) else gm_get (v_delegByTuple v) k)"
      "InsertDelegationGrant now g v = (Inr g', v\<lparr>v_delegations := gm_put (dg_ID g') g' (v_delegations v),
                 v_delegByTuple := tuples,
                 v_delegByUser := gm_put (dg_UserID g')
                   (gm_read [] (v_delegByUser v) (dg_UserID g') @ [dg_ID g']) (v_delegByUser v),
                 v_delegByAgent := gm_put (dg_AgentID g')
                   (gm_read [] (v_delegByAgent v) (dg_AgentID g') @ [dg_ID g']) (v_delegByAgent v)\<rparr>)"
proof (cases "case gm_get (v_delegByTuple v) (tuple_key g) of None \<Rightarrow> False
             | Some i \<Rightarrow> dg_RevokedAt (gm_read zero_DelegationGrant (v_delegations v) i) = None")
  case True
  then obtain i where i: "gm_get (v_delegByTuple v) (tuple_key g) = Some i"
      "dg_RevokedAt (gm_read zero_DelegationGrant (v_delegations v) i) = None"
    by (auto split: option.splits)
  then have "InsertDelegationGrant now g v = (Inl ErrStorageNotFound, v)"
    by (simp add: InsertDelegationGrant_def Let_def)
  with i show thesis using dup by blast
next
  case False
  define g' where "g' = (if IsZero (dg_CreatedAt g) then g\<lparr>dg_CreatedAt := now\<rparr> else g)"
  define tuples where "tuples = gm_put (tuple_key g) (dg_ID g)
     (if gm_get (v_delegByTuple v) (tuple_key g) = None then v_delegByTuple v
      else gm_del (tuple_key g) (v_delegByTuple v))"
  have sel: "dg_ID g' = dg_ID g" "dg_UserID g' = dg_UserID g" "dg_AgentID g' = dg_AgentID g"
    "dg_Resource g' = dg_Resource g" "dg_RevokedAt g' = dg_RevokedAt g" by (simp_all add: g'_def)
  show thesis
  proof (rule new [of g' tuples])
    show "InsertDelegationGrant now g v = (Inr g', v\<lparr>v_delegations := gm_put (dg_ID g') g' (v_delegations v),
                 v_delegByTuple := tuples,
                 v_delegByUser := gm_put (dg_UserID g')
                   (gm_read [] (v_delegByUser v) (dg_UserID g') @ [dg_ID g']) (v_delegByUser v),
                 v_delegByAgent := gm_put (dg_AgentID g')
                   (gm_read [] (v_delegByAgent v) (dg_AgentID g') @ [dg_ID g']) (v_delegByAgent v)\<rparr>)"
      using False unfolding InsertDelegationGrant_def Let_def
      by (simp add: g'_def tuples_def)
    show "dg_RevokedAt (gm_read zero_DelegationGrant (v_delegations v) i) \<noteq> None"
      if "gm_get (v_delegByTuple v) (tuple_key g) = Some i" for i
      using False that by simp
  qed (use sel in \<open>simp_all add: tuples_def\<close>)
qed

lemma deleg_ok_InsertDelegationGrant:
  assumes ok: "deleg_ok v" and new: "gm_get (v_delegations v) (dg_ID g) = None"
    and u: "ulid_text (dg_UserID g)" "ulid_text (dg_AgentID g)"
  shows "deleg_ok (snd (InsertDelegationGrant now g v))"
proof (cases rule: InsertDelegationGrant_cases [of v g now])
  case (dup i g0)
  with ok show ?thesis by simp
next
  case (new g' tuples)
  let ?v = "snd (InsertDelegationGrant now g v)"
  have fresh: "gm_get (v_delegByTuple v) k \<noteq> Some (dg_ID g)" for k
    using ok assms(2) unfolding deleg_ok_def by fastforce
  have live: "gm_get tuples (tuple_key h) = Some i"
    if h: "gm_get (v_delegations v) i = Some h" "dg_RevokedAt h = None" for i h
  proof -
    from ok h have t: "gm_get (v_delegByTuple v) (tuple_key h) = Some i"
      unfolding deleg_ok_def by blast
    have "tuple_key h \<noteq> tuple_key g"
      using new(1) [of i] t h by (auto simp: gm_read_Some)
    with t show ?thesis by (simp add: new(7))
  qed
  have "index_ok (v_delegations ?v) (v_delegByUser ?v) dg_UserID"
    "index_ok (v_delegations ?v) (v_delegByAgent ?v) dg_AgentID"
    using ok new assms(2) index_ok_insert [of "v_delegations v" "v_delegByUser v" dg_UserID "dg_ID g'" g']
      index_ok_insert [of "v_delegations v" "v_delegByAgent v" dg_AgentID "dg_ID g'" g']
    by (simp_all add: deleg_ok_def)
  moreover have "\<exists>h. gm_get (v_delegations ?v) i = Some h \<and> tuple_key h = k"
    if "gm_get (v_delegByTuple ?v) k = Some i" for k i
    using that ok fresh [of k] unfolding new(8) deleg_ok_def
    by (auto simp: new(2-7) split: if_splits)
  moreover have "dg_ID h = i \<and> ulid_text (dg_UserID h) \<and> ulid_text (dg_AgentID h)
        \<and> (dg_RevokedAt h = None \<longrightarrow> gm_get (v_delegByTuple ?v) (tuple_key h) = Some i)"
    if h: "gm_get (v_delegations ?v) i = Some h" for i h
  proof (cases "i = dg_ID g")
    case True
    with h have "h = g'" by (simp add: new(2,8))
    with True u show ?thesis by (simp add: new(2-8))
  next
    case False
    with h have "gm_get (v_delegations v) i = Some h" by (simp add: new(2,8))
    with ok live [of i h] show ?thesis unfolding deleg_ok_def by (simp add: new(8))
  qed
  ultimately show ?thesis unfolding deleg_ok_def by blast
qed

lemma deleg_ok_RevokeDelegationGrant:
  assumes ok: "deleg_ok v"
  shows "deleg_ok (snd (RevokeDelegationGrant i at reason v))"
proof (cases "gm_get (v_delegations v) i")
  case None
  with ok show ?thesis by (simp add: RevokeDelegationGrant_def)
next
  case (Some g)
  let ?g = "g\<lparr>dg_RevokedAt := Some at, dg_RevocationNote := reason\<rparr>"
  let ?v = "v\<lparr>v_delegations := gm_put i ?g (v_delegations v)\<rparr>"
  have ix: "index_ok (v_delegations v) (v_delegByUser v) dg_UserID"
    "index_ok (v_delegations v) (v_delegByAgent v) dg_AgentID"
    using ok by (simp_all add: deleg_ok_def)
  have g: "dg_ID g = i \<and> ulid_text (dg_UserID g) \<and> ulid_text (dg_AgentID g)"
    using ok Some unfolding deleg_ok_def by blast
  have "dg_ID h = j \<and> ulid_text (dg_UserID h) \<and> ulid_text (dg_AgentID h)
        \<and> (dg_RevokedAt h = None \<longrightarrow> gm_get (v_delegByTuple v) (tuple_key h) = Some j)"
    if "gm_get (gm_put i ?g (v_delegations v)) j = Some h" for j h
    using that ok g unfolding deleg_ok_def by (cases "j = i") auto
  moreover have "\<exists>h. gm_get (gm_put i ?g (v_delegations v)) j = Some h \<and> tuple_key h = k"
    if "gm_get (v_delegByTuple v) k = Some j" for k j
  proof -
    from that ok obtain h where "gm_get (v_delegations v) j = Some h" "tuple_key h = k"
      unfolding deleg_ok_def by blast
    then show ?thesis using Some by (cases "j = i") auto
  qed
  moreover have "index_ok (gm_put i ?g (v_delegations v)) (v_delegByUser v) dg_UserID"
    "index_ok (gm_put i ?g (v_delegations v)) (v_delegByAgent v) dg_AgentID"
    by (rule index_ok_update [OF _ Some]; simp add: ix)+
  moreover have "v_delegations ?v = gm_put i ?g (v_delegations v)" "v_delegByTuple ?v = v_delegByTuple v"
    "v_delegByUser ?v = v_delegByUser v" "v_delegByAgent ?v = v_delegByAgent v" by simp_all
  ultimately have "deleg_ok ?v" unfolding deleg_ok_def by presburger
  with ok Some show ?thesis by (simp add: RevokeDelegationGrant_def)
qed

section \<open>Runs of the store\<close>

text \<open>
  A run starts from the empty store and applies the operations in any order. A refresh token is
  inserted under a hash no stored token has and a grant under an unused identifier: both come from
  the random generator.
\<close>

inductive v20_reach :: "v20State \<Rightarrow> bool" where
  start: "v20_reach ensureV20"
| ins_client: "v20_reach v \<Longrightarrow> v20_reach (snd (InsertOAuthClient now c v))"
| upd_client: "v20_reach v \<Longrightarrow> v20_reach (snd (UpdateOAuthClient now c v))"
| del_client: "v20_reach v \<Longrightarrow> v20_reach (snd (DeleteOAuthClient clientID v))"
| ins_code: "v20_reach v \<Longrightarrow> v20_reach (InsertAuthorizationCode now ac v)"
| consume: "v20_reach v \<Longrightarrow> v20_reach (snd (ConsumeAuthorizationCode code v))"
| ins_token: "v20_reach v \<Longrightarrow> token_row v (rt_Hash t) = None \<Longrightarrow> v20_reach (InsertRefreshToken t v)"
| revoke: "v20_reach v \<Longrightarrow> v20_reach (snd (RevokeRefreshToken now hash reason v))"
| revoke_code: "v20_reach v \<Longrightarrow> v20_reach (snd (RevokeRefreshTokensByAuthCode now code reason v))"
| revoke_family: "v20_reach v \<Longrightarrow> v20_reach (RevokeRefreshTokenFamily now f reason v)"
| ins_key: "v20_reach v \<Longrightarrow> v20_reach (snd (InsertJWKSKey now k v))"
| upd_key: "v20_reach v \<Longrightarrow> v20_reach (snd (UpdateJWKSKeyState kid state at v))"
| ins_agent: "v20_reach v \<Longrightarrow> v20_reach (snd (InsertAgent now a v))"
| agent_status: "v20_reach v \<Longrightarrow> v20_reach (snd (UpdateAgentStatus i status v))"
| agent_expiry: "v20_reach v \<Longrightarrow> v20_reach (snd (UpdateAgentExpiry i e v))"
| agent_active: "v20_reach v \<Longrightarrow> v20_reach (snd (UpdateAgentLastActive i at v))"
| ins_cred: "v20_reach v \<Longrightarrow> v20_reach (snd (InsertAgentCredential now cr v))"
| revoke_cred: "v20_reach v \<Longrightarrow> v20_reach (snd (RevokeAgentCredential i at v))"
| use_cred: "v20_reach v \<Longrightarrow> v20_reach (snd (UpdateAgentCredentialLastUsed i at v))"
| ins_grant: "v20_reach v \<Longrightarrow> gm_get (v_delegations v) (dg_ID g) = None \<Longrightarrow>
    ulid_text (dg_UserID g) \<Longrightarrow> ulid_text (dg_AgentID g) \<Longrightarrow>
    v20_reach (snd (InsertDelegationGrant now g v))"
| revoke_grant: "v20_reach v \<Longrightarrow> v20_reach (snd (RevokeDelegationGrant i at reason v))"
| deny: "v20_reach v \<Longrightarrow> v20_reach (DenyAccessToken now jti e v)"
| ins_opaque: "v20_reach v \<Longrightarrow> v20_reach (InsertOpaqueAccessToken now ot v)"
| revoke_opaque: "v20_reach v \<Longrightarrow> v20_reach (RevokeOpaqueAccessToken now hash v)"

text \<open>What an operation leaves alone, by the part of the state an invariant reads.\<close>

definition same_tokens :: "v20State \<Rightarrow> v20State \<Rightarrow> bool" where
  "same_tokens v v' \<longleftrightarrow> v_refreshTokens v' = v_refreshTokens v \<and> v_refreshTokensByF v' = v_refreshTokensByF v"

definition same_agents :: "v20State \<Rightarrow> v20State \<Rightarrow> bool" where
  "same_agents v v' \<longleftrightarrow> v_agents v' = v_agents v \<and> v_agentsByClientID v' = v_agentsByClientID v
     \<and> v_agentCredentials v' = v_agentCredentials v \<and> v_credsByAgent v' = v_credsByAgent v"

definition same_delegations :: "v20State \<Rightarrow> v20State \<Rightarrow> bool" where
  "same_delegations v v' \<longleftrightarrow> v_delegations v' = v_delegations v \<and> v_delegByTuple v' = v_delegByTuple v
     \<and> v_delegByUser v' = v_delegByUser v \<and> v_delegByAgent v' = v_delegByAgent v"

lemmas same_defs = same_tokens_def same_agents_def same_delegations_def

lemmas store_ops = InsertOAuthClient_def UpdateOAuthClient_def DeleteOAuthClient_def
  InsertAuthorizationCode_def ConsumeAuthorizationCode_def InsertRefreshToken_def
  RevokeRefreshToken_def RevokeRefreshTokensByAuthCode_def RevokeRefreshTokenFamily_def
  InsertJWKSKey_def UpdateJWKSKeyState_def InsertAgent_def UpdateAgentStatus_def
  UpdateAgentExpiry_def UpdateAgentLastActive_def InsertAgentCredential_def
  RevokeAgentCredential_def UpdateAgentCredentialLastUsed_def DenyAccessToken_def
  InsertOpaqueAccessToken_def RevokeOpaqueAccessToken_def RevokeDelegationGrant_def

lemma same_tokens_ops:
  "same_tokens v (snd (InsertOAuthClient now c v))" "same_tokens v (snd (UpdateOAuthClient now c v))"
  "same_tokens v (snd (DeleteOAuthClient clientID v))" "same_tokens v (InsertAuthorizationCode now ac v)"
  "same_tokens v (snd (ConsumeAuthorizationCode code v))" "same_tokens v (snd (InsertJWKSKey now k v))"
  "same_tokens v (snd (UpdateJWKSKeyState kid state at v))" "same_tokens v (snd (InsertAgent now a v))"
  "same_tokens v (snd (UpdateAgentStatus i status v))" "same_tokens v (snd (UpdateAgentExpiry i e v))"
  "same_tokens v (snd (UpdateAgentLastActive i at v))" "same_tokens v (snd (InsertAgentCredential now cr v))"
  "same_tokens v (snd (RevokeAgentCredential i at v))"
  "same_tokens v (snd (UpdateAgentCredentialLastUsed i at v))"
  "same_tokens v (snd (InsertDelegationGrant now g v))" "same_tokens v (snd (RevokeDelegationGrant i at reason v))"
  "same_tokens v (DenyAccessToken now jti d v)" "same_tokens v (InsertOpaqueAccessToken now ot v)"
  "same_tokens v (RevokeOpaqueAccessToken now hash v)"
  by (simp_all add: same_defs store_ops InsertDelegationGrant_def Let_def split: option.splits)

lemma same_agents_ops:
  "same_agents v (snd (InsertOAuthClient now c v))" "same_agents v (snd (UpdateOAuthClient now c v))"
  "same_agents v (snd (DeleteOAuthClient clientID v))" "same_agents v (InsertAuthorizationCode now ac v)"
  "same_agents v (snd (ConsumeAuthorizationCode code v))" "same_agents v (InsertRefreshToken t v)"
  "same_agents v (snd (RevokeRefreshToken now hash reason v))"
  "same_agents v (snd (RevokeRefreshTokensByAuthCode now code reason v))"
  "same_agents v (RevokeRefreshTokenFamily now f reason v)" "same_agents v (snd (InsertJWKSKey now k v))"
  "same_agents v (snd (UpdateJWKSKeyState kid state at v))"
  "same_agents v (snd (InsertDelegationGrant now g v))" "same_agents v (snd (RevokeDelegationGrant i at reason v))"
  "same_agents v (DenyAccessToken now jti d v)" "same_agents v (InsertOpaqueAccessToken now ot v)"
  "same_agents v (RevokeOpaqueAccessToken now hash v)"
  by (simp_all add: same_defs store_ops InsertDelegationGrant_def Let_def split: option.splits prod.splits)

lemma same_delegations_ops:
  "same_delegations v (snd (InsertOAuthClient now c v))" "same_delegations v (snd (UpdateOAuthClient now c v))"
  "same_delegations v (snd (DeleteOAuthClient clientID v))" "same_delegations v (InsertAuthorizationCode now ac v)"
  "same_delegations v (snd (ConsumeAuthorizationCode code v))" "same_delegations v (InsertRefreshToken t v)"
  "same_delegations v (snd (RevokeRefreshToken now hash reason v))"
  "same_delegations v (snd (RevokeRefreshTokensByAuthCode now code reason v))"
  "same_delegations v (RevokeRefreshTokenFamily now f reason v)" "same_delegations v (snd (InsertJWKSKey now k v))"
  "same_delegations v (snd (UpdateJWKSKeyState kid state at v))" "same_delegations v (snd (InsertAgent now a v))"
  "same_delegations v (snd (UpdateAgentStatus i status v))" "same_delegations v (snd (UpdateAgentExpiry i e v))"
  "same_delegations v (snd (UpdateAgentLastActive i at v))"
  "same_delegations v (snd (InsertAgentCredential now cr v))"
  "same_delegations v (snd (RevokeAgentCredential i at v))"
  "same_delegations v (snd (UpdateAgentCredentialLastUsed i at v))"
  "same_delegations v (DenyAccessToken now jti d v)" "same_delegations v (InsertOpaqueAccessToken now ot v)"
  "same_delegations v (RevokeOpaqueAccessToken now hash v)"
  by (simp_all add: same_defs store_ops Let_def split: option.splits prod.splits)

lemma tokens_ok_same: "same_tokens v v' \<Longrightarrow> tokens_ok v \<Longrightarrow> tokens_ok v'"
  by (simp add: same_tokens_def tokens_ok_def)

lemma agents_ok_same: "same_agents v v' \<Longrightarrow> agents_ok v \<Longrightarrow> agents_ok v'"
  by (simp add: same_agents_def agents_ok_def)

lemma deleg_ok_same: "same_delegations v v' \<Longrightarrow> deleg_ok v \<Longrightarrow> deleg_ok v'"
  by (simp add: same_delegations_def deleg_ok_def)

lemma v20_reach_tokens_ok: "v20_reach v \<Longrightarrow> tokens_ok v"
proof (induction rule: v20_reach.induct)
  case start
  then show ?case by (simp add: tokens_ok_def ensureV20_def gm_read_def)
qed (blast intro: tokens_ok_same same_tokens_ops tokens_ok_InsertRefreshToken
      tokens_ok_RevokeRefreshToken tokens_ok_RevokeRefreshTokenFamily
      tokens_ok_RevokeRefreshTokensByAuthCode)+

lemma v20_reach_agents_ok: "v20_reach v \<Longrightarrow> agents_ok v"
proof (induction rule: v20_reach.induct)
  case start
  then show ?case by (simp add: agents_ok_def index_ok_def ensureV20_def gm_read_def)
qed (blast intro: agents_ok_same same_agents_ops agents_ok_InsertAgent agents_ok_updates
      agents_ok_credentials)+

lemma v20_reach_deleg_ok: "v20_reach v \<Longrightarrow> deleg_ok v"
proof (induction rule: v20_reach.induct)
  case start
  then show ?case by (simp add: deleg_ok_def index_ok_def ensureV20_def gm_read_def)
qed (blast intro: deleg_ok_same same_delegations_ops deleg_ok_InsertDelegationGrant
      deleg_ok_RevokeDelegationGrant)+

section \<open>What lookups find\<close>

lemma deleg_okD:
  assumes "deleg_ok v"
  shows "gm_get (v_delegations v) i = Some g \<Longrightarrow>
           dg_ID g = i \<and> ulid_text (dg_UserID g) \<and> ulid_text (dg_AgentID g)"
    and "gm_get (v_delegations v) i = Some g \<Longrightarrow> dg_RevokedAt g = None \<Longrightarrow>
           gm_get (v_delegByTuple v) (tuple_key g) = Some i"
    and "gm_get (v_delegByTuple v) k = Some i \<Longrightarrow>
           gm_get (v_delegations v) i = Some (gm_read zero_DelegationGrant (v_delegations v) i)
           \<and> tuple_key (gm_read zero_DelegationGrant (v_delegations v) i) = k"
proof -
  show "gm_get (v_delegations v) i = Some g \<Longrightarrow>
      dg_ID g = i \<and> ulid_text (dg_UserID g) \<and> ulid_text (dg_AgentID g)"
    using assms unfolding deleg_ok_def by blast
  show "gm_get (v_delegations v) i = Some g \<Longrightarrow> dg_RevokedAt g = None \<Longrightarrow>
      gm_get (v_delegByTuple v) (tuple_key g) = Some i"
    using assms unfolding deleg_ok_def by blast
  assume "gm_get (v_delegByTuple v) k = Some i"
  with assms obtain g where "gm_get (v_delegations v) i = Some g" "tuple_key g = k"
    unfolding deleg_ok_def by blast
  then show "gm_get (v_delegations v) i = Some (gm_read zero_DelegationGrant (v_delegations v) i)
      \<and> tuple_key (gm_read zero_DelegationGrant (v_delegations v) i) = k"
    by (simp add: gm_read_Some)
qed

lemma DelegationGrantByID_iff: "DelegationGrantByID i v = Inr g \<longleftrightarrow> gm_get (v_delegations v) i = Some g"
  by (auto simp: DelegationGrantByID_def split: option.splits)

lemma DelegationGrantByUserAgentResource_iff:
  assumes "deleg_ok v"
  shows "DelegationGrantByUserAgentResource u a r v = Inr g \<longleftrightarrow>
    (\<exists>i. gm_get (v_delegByTuple v) (delegationTupleKey u a r) = Some i \<and> gm_get (v_delegations v) i = Some g)"
proof (cases "gm_get (v_delegByTuple v) (delegationTupleKey u a r)")
  case None
  then show ?thesis by (simp add: DelegationGrantByUserAgentResource_def)
next
  case (Some i)
  with assms obtain g' where "gm_get (v_delegations v) i = Some g'"
    unfolding deleg_ok_def by blast
  with Some show ?thesis by (simp add: DelegationGrantByUserAgentResource_def gm_read_Some)
qed

lemma tuple_lookup_live:
  assumes "deleg_ok v" and "DelegationGrantByID i v = Inr g" and "dg_RevokedAt g = None"
  shows "DelegationGrantByUserAgentResource (dg_UserID g) (dg_AgentID g) (dg_Resource g) v = Inr g"
  using assms deleg_okD(2) [OF assms(1)]
  unfolding DelegationGrantByUserAgentResource_iff [OF assms(1)] DelegationGrantByID_iff by blast

lemma tuple_lookup_sound:
  assumes "deleg_ok v" and "ulid_text u" and "ulid_text a"
    and "DelegationGrantByUserAgentResource u a r v = Inr g"
  shows "dg_UserID g = u \<and> dg_AgentID g = a \<and> dg_Resource g = r \<and> DelegationGrantByID (dg_ID g) v = Inr g"
proof -
  from assms(4) obtain i where i: "gm_get (v_delegByTuple v) (delegationTupleKey u a r) = Some i"
    "gm_get (v_delegations v) i = Some g"
    unfolding DelegationGrantByUserAgentResource_iff [OF assms(1)] by blast
  have "tuple_key g = delegationTupleKey u a r"
    using deleg_okD(3) [OF assms(1) i(1)] gm_read_Some [OF i(2)] by metis
  with i deleg_okD(1) [OF assms(1) i(2)] assms(2,3) show ?thesis
    using delegationTupleKey_inj [of "dg_UserID g" u "dg_AgentID g" a] by (simp add: DelegationGrantByID_iff)
qed

lemma InsertDelegationGrant_refused:
  assumes ok: "deleg_ok v" and u: "ulid_text u" and a: "ulid_text a"
    and h: "dg_UserID h = u" "dg_AgentID h = a"
  shows "(fst (InsertDelegationGrant now h v) = Inl ErrStorageNotFound) =
    (\<exists>i g. DelegationGrantByID i v = Inr g \<and> dg_RevokedAt g = None
       \<and> dg_UserID g = u \<and> dg_AgentID g = a \<and> dg_Resource g = dg_Resource h)"
proof (cases rule: InsertDelegationGrant_cases [of v h now])
  case (dup i g0)
  have g0: "gm_get (v_delegations v) i = Some g0"
    using deleg_okD(3) [OF ok dup(1)] dup(2) by metis
  then have "DelegationGrantByUserAgentResource u a (dg_Resource h) v = Inr g0"
    using dup(1) h unfolding DelegationGrantByUserAgentResource_iff [OF ok] by blast
  from tuple_lookup_sound [OF ok u a this] g0 dup show ?thesis
    by (auto simp: DelegationGrantByID_iff)
next
  case (new g' tuples)
  have False if "gm_get (v_delegations v) i = Some g" "dg_RevokedAt g = None" "dg_UserID g = u"
    "dg_AgentID g = a" "dg_Resource g = dg_Resource h" for i g
    using new(1) [of i] deleg_okD(2) [OF ok that(1,2)] that h by (simp add: gm_read_Some)
  then show ?thesis unfolding new(8) DelegationGrantByID_iff by auto
qed

text \<open>C38: over every run of the store a user, an agent and a resource have at most one delegation grant
  that is not revoked. The lookup by the three finds it; what it finds carries that user, agent and
  resource; a new grant for the three is refused exactly while it exists; and the listing of a user
  or an agent gives all their grants in the order of creation.
\<close>

theorem delegation_unique_live:
  assumes "v20_reach v" and u: "ulid_text u" and a: "ulid_text a"
  shows "(\<forall>i g. DelegationGrantByID i v = Inr g \<and> dg_RevokedAt g = None \<longrightarrow>
           DelegationGrantByUserAgentResource (dg_UserID g) (dg_AgentID g) (dg_Resource g) v = Inr g)
     \<and> (\<forall>r g. DelegationGrantByUserAgentResource u a r v = Inr g \<longrightarrow>
           dg_UserID g = u \<and> dg_AgentID g = a \<and> dg_Resource g = r \<and> DelegationGrantByID (dg_ID g) v = Inr g)
     \<and> (dg_UserID h = u \<and> dg_AgentID h = a \<longrightarrow>
           (fst (InsertDelegationGrant now h v) = Inl ErrStorageNotFound) =
           (\<exists>i g. DelegationGrantByID i v = Inr g \<and> dg_RevokedAt g = None
              \<and> dg_UserID g = u \<and> dg_AgentID g = a \<and> dg_Resource g = dg_Resource h))
     \<and> sorted (map dg_CreatedAt (DelegationGrantsByUserID u v))
     \<and> set (DelegationGrantsByUserID u v) = {g. \<exists>i. DelegationGrantByID i v = Inr g \<and> dg_UserID g = u}
     \<and> sorted (map dg_CreatedAt (DelegationGrantsByAgentID a v))
     \<and> set (DelegationGrantsByAgentID a v) = {g. \<exists>i. DelegationGrantByID i v = Inr g \<and> dg_AgentID g = a}"
proof -
  have ok: "deleg_ok v" by (rule v20_reach_deleg_ok [OF assms(1)])
  then have ix: "index_ok (v_delegations v) (v_delegByUser v) dg_UserID"
    "index_ok (v_delegations v) (v_delegByAgent v) dg_AgentID"
    by (simp_all add: deleg_ok_def)
  show ?thesis
    using tuple_lookup_live [OF ok] tuple_lookup_sound [OF ok u a] InsertDelegationGrant_refused [OF ok u a]
      index_ok_rows [OF ix(1)] index_ok_rows [OF ix(2)]
    by (simp only: DelegationGrantsByUserID_def DelegationGrantsByAgentID_def set_sort
        sorted_sort_key DelegationGrantByID_iff) blast
qed

definition ex_user :: ULID where "ex_user = replicate 26 (CHR ''U'')"
definition ex_agent :: ULID where "ex_agent = replicate 26 (CHR ''A'')"

definition ex_grant :: DelegationGrant where
  "ex_grant = zero_DelegationGrant\<lparr>dg_ID := ''g1'', dg_UserID := ex_user, dg_AgentID := ex_agent,
     dg_Scope := [''mail.read''], dg_Resource := ''https://api''\<rparr>"

definition ex_granted :: v20State where
  "ex_granted = snd (InsertDelegationGrant 7 ex_grant ensureV20)"

lemma ex_granted_reach: "v20_reach ex_granted"
  unfolding ex_granted_def
  by (rule v20_reach.ins_grant [OF v20_reach.start])
    (simp_all add: ensureV20_def ex_grant_def ex_user_def ex_agent_def zero_DelegationGrant_def)

lemma ex_granted_found:
  "DelegationGrantByID ''g1'' ex_granted = Inr (ex_grant\<lparr>dg_CreatedAt := 7\<rparr>)"
  by (simp add: ex_granted_def InsertDelegationGrant_def DelegationGrantByID_def ensureV20_def Let_def
      ex_grant_def zero_DelegationGrant_def)

theorem delegation_unique_live_witness:
  "v20_reach ex_granted \<and> ulid_text ex_user \<and> ulid_text ex_agent
   \<and> DelegationGrantByUserAgentResource ex_user ex_agent ''https://api'' ex_granted
       = Inr (ex_grant\<lparr>dg_CreatedAt := 7\<rparr>)
   \<and> fst (InsertDelegationGrant 9 (ex_grant\<lparr>dg_ID := ''g2''\<rparr>) ex_granted) = Inl ErrStorageNotFound"
proof -
  have u: "ulid_text ex_user" and a: "ulid_text ex_agent" by (simp_all add: ex_user_def ex_agent_def)
  note law = delegation_unique_live [OF ex_granted_reach u a,
      of "ex_grant\<lparr>dg_ID := ''g2''\<rparr>" 9, THEN conjunct1]
    delegation_unique_live [OF ex_granted_reach u a,
      of "ex_grant\<lparr>dg_ID := ''g2''\<rparr>" 9, THEN conjunct2, THEN conjunct2, THEN conjunct1]
  have live: "dg_RevokedAt (ex_grant\<lparr>dg_CreatedAt := 7\<rparr>) = None"
    and sel: "dg_UserID (ex_grant\<lparr>dg_CreatedAt := 7\<rparr>) = ex_user"
      "dg_AgentID (ex_grant\<lparr>dg_CreatedAt := 7\<rparr>) = ex_agent"
      "dg_Resource (ex_grant\<lparr>dg_CreatedAt := 7\<rparr>) = ''https://api''"
      "dg_UserID (ex_grant\<lparr>dg_ID := ''g2''\<rparr>) = ex_user"
      "dg_AgentID (ex_grant\<lparr>dg_ID := ''g2''\<rparr>) = ex_agent"
      "dg_Resource (ex_grant\<lparr>dg_ID := ''g2''\<rparr>) = ''https://api''"
    by (simp_all add: ex_grant_def zero_DelegationGrant_def)
  have "DelegationGrantByUserAgentResource ex_user ex_agent ''https://api'' ex_granted
      = Inr (ex_grant\<lparr>dg_CreatedAt := 7\<rparr>)"
    using law(1) ex_granted_found live sel by metis
  moreover have "fst (InsertDelegationGrant 9 (ex_grant\<lparr>dg_ID := ''g2''\<rparr>) ex_granted) = Inl ErrStorageNotFound"
    using law(2) ex_granted_found live sel by metis
  ultimately show ?thesis using ex_granted_reach u a by simp
qed

end
