(* ===== verification/AsTokenRuns.thy ===== *)
theory AsTokenRuns
  imports AsToken AsStoreRuns
begin

text \<open>
  Concurrent requests at the token endpoint. A task is a request that has executed some of its
  segments; a step runs the next segment of one task, so that a run is any interleaving of any
  number of requests with each other, with the issue of codes, with revocations and with whatever
  else happens to the rest of the state. The invariant says which task may still mint: one right per
  code and one per family, held by the code, by a task or by a live token.
\<close>

section \<open>What the segments touch\<close>

definition tok_part :: "v20State \<Rightarrow> (string, RefreshToken) gomap \<times> (ULID, string list) gomap
    \<times> (string, AuthorizationCode) gomap" where
  "tok_part v = (v_refreshTokens v, v_refreshTokensByF v, v_authzCodes v)"

lemma tok_part_cong:
  assumes "tok_part v = tok_part v'"
  shows "tokens_ok v = tokens_ok v'" "token_row v = token_row v'" "v_authzCodes v = v_authzCodes v'"
  using assms by (auto simp: tok_part_def tokens_ok_def token_row_def fun_eq_iff)

lemma set_v20_simps [simp]:
  "st_v20 (set_v20 v s) = v" "st_oidc (set_v20 v s) = st_oidc s"
  "st_introspect (set_v20 v s) = st_introspect s"
  by (simp_all add: set_v20_def)

lemma authenticate_v20:
  assumes "authenticate p env d req s = (r, s')" and "\<And>a. au_v20 (env a) = au_v20 a"
  shows "st_v20 s' = st_v20 s"
proof -
  obtain a where a: "AuthenticateClientFromRequest (pm_auth p) env (dr_auth d) (dr_auth_put d) (rq_ClientAssertionType req)
      (rq_ClientAssertion req) (rq_ClientID req) (rq_ClientSecret req) (st_auth s) = (r, a)" "s' = s\<lparr>st_auth := a\<rparr>"
    using assms(1) by (auto simp: authenticate_def split: prod.splits)
  show ?thesis
  proof (cases "rq_ClientAssertionType req = ClientAssertionTypeJWTBearer \<and> rq_ClientAssertion req \<noteq> []")
    case True
    with a show ?thesis by (auto simp: AuthenticateClientFromRequest_def)
  next
    case False
    with a have "AuthenticateClient (pm_auth p) env (dr_auth d) (dr_auth_put d) (rq_ClientID req)
        (rq_ClientSecret req) (st_auth s) = (r, a)"
      by (auto simp: AuthenticateClientFromRequest_def)
    then have "au_v20 a = st_v20 s"
      by (cases rule: AuthenticateClient_cases) (auto simp: assms(2))
    with a(2) show ?thesis by simp
  qed
qed

lemma oidc_get_v20 [simp]: "st_v20 (snd (oidc_get now k s)) = st_v20 s"
  by (auto simp: oidc_get_def split: option.splits prod.splits)

lemma session_v20 [simp]:
  "st_v20 (snd (exchange_session p d req inp s)) = st_v20 s"
  "st_v20 (snd (refresh_session d rt inp s)) = st_v20 s"
  by (simp_all add: exchange_session_def refresh_session_def codeSession_def familySession_def case_prod_unfold)

lemma linkFamilySession_v20 [simp]: "st_v20 (linkFamilySession p cfg now f sid c s) = st_v20 s"
  by (auto simp: linkFamilySession_def Let_def split: option.splits prod.splits)

lemma mint_finish_v20 [simp]: "st_v20 (snd (mint_finish p cfg d inp row resp s)) = st_v20 s"
  by (auto simp: mint_finish_def Let_def split: option.splits sum.splits)

lemma issueAccessToken_tok: "tok_part (st_v20 (snd (issueAccessToken p cfg d c claims s))) = tok_part (st_v20 s)"
  by (auto simp: issueAccessToken_def issueOpaqueToken_def InsertOpaqueAccessToken_def tok_part_def Let_def
      split: prod.splits sum.splits option.splits)

lemma mint_prepare_tok: "tok_part (st_v20 (snd (mint_prepare p cfg d inp s))) = tok_part (st_v20 s)"
proof -
  have "tok_part (st_v20 s1) = tok_part (st_v20 s)"
    if "issueAccessToken p cfg d c claims s = (r, s1)" for c claims r s1
    using issueAccessToken_tok [of p cfg d c claims s] that by simp
  then show ?thesis
    by (auto simp: mint_prepare_def Let_def split: sum.splits prod.splits option.splits)
qed

lemma mint_prepare_row:
  assumes "mint_prepare p cfg d inp s = (Inr (row, resp), s')"
  obtains tok where "dr_token d = Some tok" "row = mint_row p cfg d (withGrantExpiry tok (mi_GrantExpiry inp)) inp"
    "tr_RefreshToken resp = withGrantExpiry tok (mi_GrantExpiry inp)"
  using assms
  by (auto simp: mint_prepare_def Let_def split: sum.splits prod.splits option.splits if_splits)

lemma denyAccessJTI_tok [simp]: "tok_part (st_v20 (denyAccessJTI cfg now j e s)) = tok_part (st_v20 s)"
  by (simp add: denyAccessJTI_def purgeIntrospectCache_def tok_part_def DenyAccessToken_def set_v20_def)

lemma fold_denyAccessJTI_tok [simp]:
  "tok_part (st_v20 (fold (\<lambda>j. denyAccessJTI cfg now j e) js s)) = tok_part (st_v20 s)"
  by (induction js arbitrary: s) simp_all

lemma handleCodeReplay_tok:
  "tok_part (st_v20 (handleCodeReplay cfg d k s))
     = tok_part (snd (RevokeRefreshTokensByAuthCode (dr_store d) k ''authorization code replay'' (st_v20 s)))"
  by (auto simp: handleCodeReplay_def Let_def split: prod.splits)

section \<open>Tasks\<close>

datatype task =
    TExchange TokenRequest
  | TConsume TokenRequest OAuthClient
  | TReplay string
  | TExchangeMint TokenRequest mintInput
  | TRefresh TokenRequest
  | TLookup TokenRequest OAuthClient
  | TReuse ULID
  | TRotate TokenRequest RefreshToken mintInput
  | TRefreshMint RefreshToken mintInput
  | TInsert mintInput RefreshToken TokenResponse
  | TFinish mintInput RefreshToken TokenResponse
  | TDone "as_error + TokenResponse"

definition prepared ::
  "mintInput \<Rightarrow> (as_error + RefreshToken \<times> TokenResponse) \<times> AsState \<Rightarrow> task \<times> AsState" where
  "prepared inp r = (case r of (Inl e, s) \<Rightarrow> (TDone (Inl e), s) | (Inr (row, resp), s) \<Rightarrow> (TInsert inp row resp, s))"

fun task_step ::
  "token_params \<Rightarrow> (AuthState \<Rightarrow> AuthState) \<Rightarrow> Config \<Rightarrow> draws \<Rightarrow> task \<Rightarrow> AsState \<Rightarrow> task \<times> AsState" where
  "task_step p env cfg d (TExchange req) s =
     (case exchange_auth p env d req s of
        (Inl e, s) \<Rightarrow> (TDone (Inl e), s)
      | (Inr client, s) \<Rightarrow> (TConsume req client, s))"
| "task_step p env cfg d (TConsume req client) s =
     (case exchange_consume p req s of
        (Inl e, s) \<Rightarrow> (TReplay (codeStorageKey p (rq_Code req)), s)
      | (Inr codeRow, s) \<Rightarrow>
          (case exchange_check p cfg d req client codeRow of
             Inl e \<Rightarrow> (TDone (Inl e), s)
           | Inr inp \<Rightarrow> (TExchangeMint req inp, s)))"
| "task_step p env cfg d (TReplay key) s = (TDone (Inl ErrOAuthInvalidGrant), handleCodeReplay cfg d key s)"
| "task_step p env cfg d (TExchangeMint req inp) s =
     (case exchange_session p d req inp s of (inp, s) \<Rightarrow> prepared inp (mint_prepare p cfg d inp s))"
| "task_step p env cfg d (TRefresh req) s =
     (case refresh_auth p env d req s of
        (Inl e, s) \<Rightarrow> (TDone (Inl e), s)
      | (Inr client, s) \<Rightarrow> (TLookup req client, s))"
| "task_step p env cfg d (TLookup req client) s =
     (case refresh_lookup p req client s of
        Inl e \<Rightarrow> (TDone (Inl e), s)
      | Inr rt \<Rightarrow>
          if rt_RevokedAt rt \<noteq> None then (TReuse (rt_FamilyID rt), s)
          else case refresh_check p cfg d req client rt of
            Inl e \<Rightarrow> (TDone (Inl e), s)
          | Inr inp \<Rightarrow> (TRotate req rt inp, s))"
| "task_step p env cfg d (TReuse f) s = (TDone (Inl ErrOAuthInvalidGrant), refresh_reuse d f s)"
| "task_step p env cfg d (TRotate req rt inp) s =
     (case refresh_rotate p d req s of
        (Some e, s) \<Rightarrow> (TReuse (rt_FamilyID rt), s)
      | (None, s) \<Rightarrow> (TRefreshMint rt inp, s))"
| "task_step p env cfg d (TRefreshMint rt inp) s =
     (case refresh_session d rt inp s of (inp, s) \<Rightarrow> prepared inp (mint_prepare p cfg d inp s))"
| "task_step p env cfg d (TInsert inp row resp) s = (TFinish inp row resp, mint_insert row s)"
| "task_step p env cfg d (TFinish inp row resp) s =
     (case mint_finish p cfg d inp row resp s of (r, s) \<Rightarrow> (TDone r, s))"
| "task_step p env cfg d (TDone r) s = (TDone r, s)"

primrec task_run ::
  "nat \<Rightarrow> token_params \<Rightarrow> (AuthState \<Rightarrow> AuthState) \<Rightarrow> Config \<Rightarrow> draws \<Rightarrow> task \<Rightarrow> AsState \<Rightarrow> task \<times> AsState" where
  "task_run 0 p env cfg d t s = (t, s)"
| "task_run (Suc n) p env cfg d t s =
     (case task_step p env cfg d t s of (t, s) \<Rightarrow> task_run n p env cfg d t s)"

lemma task_run_Done [simp]: "task_run n p env cfg d (TDone r) s = (TDone r, s)"
  by (induction n) simp_all

text \<open>A request that is alone executes exactly its handler: the segments are the whole handler.\<close>

lemma task_run_handlers:
  "task_run 5 p env cfg d (TExchange req) s
     = (case ExchangeAuthorizationCode p env cfg d req s of (r, s) \<Rightarrow> (TDone r, s))"
  "task_run 6 p env cfg d (TRefresh req) s
     = (case RefreshAccessToken p env cfg d req s of (r, s) \<Rightarrow> (TDone r, s))"
proof -
  have "task_run (Suc (Suc (Suc (Suc (Suc 0))))) p env cfg d (TExchange req) s
      = (case ExchangeAuthorizationCode p env cfg d req s of (r, s) \<Rightarrow> (TDone r, s))"
    by (auto simp: ExchangeAuthorizationCode_def mintAccessAndRefresh_def prepared_def
        split: prod.splits sum.splits)
  then show "task_run 5 p env cfg d (TExchange req) s
      = (case ExchangeAuthorizationCode p env cfg d req s of (r, s) \<Rightarrow> (TDone r, s))"
    by (simp add: numeral_eq_Suc del: task_run.simps)
  have "task_run (Suc (Suc (Suc (Suc (Suc (Suc 0)))))) p env cfg d (TRefresh req) s
      = (case RefreshAccessToken p env cfg d req s of (r, s) \<Rightarrow> (TDone r, s))"
    by (auto simp: RefreshAccessToken_def mintAccessAndRefresh_def prepared_def
        split: prod.splits sum.splits option.splits)
  then show "task_run 6 p env cfg d (TRefresh req) s
      = (case RefreshAccessToken p env cfg d req s of (r, s) \<Rightarrow> (TDone r, s))"
    by (simp add: numeral_eq_Suc del: task_run.simps)
qed

section \<open>The right to mint\<close>

text \<open>The family, the code and the token hash that a task alone may still bring into the store.\<close>

fun fam_of :: "task \<Rightarrow> ULID option" where
  "fam_of (TRefreshMint rt inp) = mi_FamilyID inp"
| "fam_of (TInsert inp row resp) = Some (rt_FamilyID row)"
| "fam_of _ = None"

fun code_of :: "task \<Rightarrow> string option" where
  "code_of (TExchangeMint req inp) = Some (mi_AuthCodeHash inp)"
| "code_of (TInsert inp row resp) = (if rt_AuthCodeHash row = [] then None else Some (rt_AuthCodeHash row))"
| "code_of _ = None"

fun hash_of :: "task \<Rightarrow> string option" where
  "hash_of (TInsert inp row resp) = Some (rt_Hash row)"
| "hash_of _ = None"

definition uniq :: "(task \<Rightarrow> 'k option) \<Rightarrow> (nat \<Rightarrow> task) \<Rightarrow> bool" where
  "uniq key ts \<longleftrightarrow> (\<forall>i j x. key (ts i) = Some x \<longrightarrow> key (ts j) = Some x \<longrightarrow> i = j)"

lemma uniq_upd:
  assumes "uniq key ts" and "\<And>x j. key t = Some x \<Longrightarrow> j \<noteq> i \<Longrightarrow> key (ts j) \<noteq> Some x"
  shows "uniq key (ts(i := t))"
  using assms unfolding uniq_def by (auto simp: fun_upd_apply)

lemma uniq_same: "uniq key ts \<Longrightarrow> key t = None \<or> key t = key (ts i) \<Longrightarrow> uniq key (ts(i := t))"
  by (rule uniq_upd) (assumption, metis option.distinct(1) uniq_def)

text \<open>
  One token's grant covers another's: the same client, user, resource and authentication, no scope
  more, and bound to the same key if it is bound.
\<close>

definition derives :: "RefreshToken \<Rightarrow> mintInput \<Rightarrow> bool" where
  "derives r inp \<longleftrightarrow> mi_ClientID inp = rt_ClientID r \<and> mi_UserID inp = rt_UserID r
     \<and> mi_Resource inp = rt_Resource r \<and> set (mi_Scope inp) \<subseteq> set (rt_Scope r)
     \<and> (rt_DPoPJKT r \<noteq> [] \<longrightarrow> mi_DPoPJKT inp = rt_DPoPJKT r)
     \<and> mi_AuthTime inp = rt_AuthTime r \<and> mi_ACR inp = rt_ACR r \<and> mi_AMR inp = rt_AMR r"

definition covers :: "RefreshToken \<Rightarrow> RefreshToken \<Rightarrow> bool" where
  "covers r r' \<longleftrightarrow> rt_ClientID r' = rt_ClientID r \<and> rt_UserID r' = rt_UserID r
     \<and> rt_Resource r' = rt_Resource r \<and> set (rt_Scope r') \<subseteq> set (rt_Scope r)
     \<and> (rt_DPoPJKT r \<noteq> [] \<longrightarrow> rt_DPoPJKT r' = rt_DPoPJKT r)
     \<and> rt_AuthTime r' = rt_AuthTime r \<and> rt_ACR r' = rt_ACR r \<and> rt_AMR r' = rt_AMR r"

lemma covers_refl [simp]: "covers r r"
  by (simp add: covers_def)

lemma covers_derives: "covers r r' \<Longrightarrow> derives r' inp \<Longrightarrow> derives r inp"
  by (auto simp: covers_def derives_def)

lemma covers_mint_row: "covers r (mint_row p cfg d tok inp) = derives r inp"
  by (auto simp: covers_def derives_def mint_row_def)

lemma covers_revoke_row [simp]:
  "covers (revoke_row now reason r) r' = covers r r'" "covers r (revoke_row now reason r') = covers r r'"
  "derives (revoke_row now reason r) inp = derives r inp"
  by (simp_all add: covers_def derives_def revoke_row_def)

fun task_ok :: "(string \<Rightarrow> string) \<Rightarrow> (string \<Rightarrow> RefreshToken option) \<Rightarrow> task \<Rightarrow> bool" where
  "task_ok H rows (TExchangeMint req inp) \<longleftrightarrow> mi_FamilyID inp = None \<and> mi_AuthCodeHash inp \<noteq> []"
| "task_ok H rows (TRotate req rt inp) \<longleftrightarrow>
     (\<exists>r. rows (H (rq_RefreshToken req)) = Some r \<and> mi_FamilyID inp = Some (rt_FamilyID r)
        \<and> mi_AuthCodeHash inp = [] \<and> derives r inp)"
| "task_ok H rows (TRefreshMint rt inp) \<longleftrightarrow> mi_AuthCodeHash inp = [] \<and> mi_FamilyID inp \<noteq> None
     \<and> (\<forall>h r. rows h = Some r \<and> mi_FamilyID inp = Some (rt_FamilyID r) \<longrightarrow> derives r inp)"
| "task_ok H rows (TInsert inp row resp) \<longleftrightarrow> rt_RevokedAt row = None \<and> rows (rt_Hash row) = None
     \<and> (\<forall>h r. rows h = Some r \<and> rt_FamilyID r = rt_FamilyID row \<longrightarrow> covers r row)"
| "task_ok H rows t \<longleftrightarrow> True"

definition rows_ok :: "(string \<Rightarrow> RefreshToken option) \<Rightarrow> bool" where
  "rows_ok rows \<longleftrightarrow>
     (\<forall>h r h' r'. rows h = Some r \<and> rows h' = Some r' \<and> rt_FamilyID r = rt_FamilyID r' \<and> rt_RevokedAt r' = None
        \<longrightarrow> covers r r' \<and> (rt_RevokedAt r = None \<longrightarrow> h = h'))
   \<and> (\<forall>h r h' r'. rows h = Some r \<and> rows h' = Some r' \<and> rt_AuthCodeHash r = rt_AuthCodeHash r'
        \<and> rt_AuthCodeHash r \<noteq> [] \<longrightarrow> h = h')"

lemma rows_okD:
  assumes "rows_ok rows" "rows h = Some r" "rows h' = Some r'"
  shows "rt_FamilyID r = rt_FamilyID r' \<Longrightarrow> rt_RevokedAt r' = None \<Longrightarrow> covers r r'"
    and "rt_FamilyID r = rt_FamilyID r' \<Longrightarrow> rt_RevokedAt r' = None \<Longrightarrow> rt_RevokedAt r = None \<Longrightarrow> h = h'"
    and "rt_AuthCodeHash r = rt_AuthCodeHash r' \<Longrightarrow> rt_AuthCodeHash r \<noteq> [] \<Longrightarrow> h = h'"
  using assms unfolding rows_ok_def by blast+

lemma rows_ok_live: "rows_ok rows \<Longrightarrow> h \<in> live_of rows f \<Longrightarrow> live_of rows f = {h}"
  using rows_okD(2) unfolding live_of_def by fastforce

definition sys_ok :: "(string \<Rightarrow> string) \<Rightarrow> v20State \<Rightarrow> (nat \<Rightarrow> task) \<Rightarrow> bool" where
  "sys_ok H v ts \<longleftrightarrow> tokens_ok v \<and> rows_ok (token_row v)
     \<and> uniq fam_of ts \<and> uniq code_of ts \<and> uniq hash_of ts
     \<and> (\<forall>i. task_ok H (token_row v) (ts i))
     \<and> (\<forall>i f. fam_of (ts i) = Some f \<longrightarrow> live_of (token_row v) f = {})
     \<and> (\<forall>i k h r. code_of (ts i) = Some k \<longrightarrow> token_row v h = Some r \<longrightarrow> rt_AuthCodeHash r \<noteq> k)
     \<and> (\<forall>k c. gm_get (v_authzCodes v) k = Some c \<longrightarrow> k \<noteq> [] \<and> (\<forall>i. code_of (ts i) \<noteq> Some k)
          \<and> (\<forall>h r. token_row v h = Some r \<longrightarrow> rt_AuthCodeHash r \<noteq> k))"

text \<open>Revoking rows, whichever they are, keeps everything.\<close>

definition only_revoked :: "(string \<Rightarrow> RefreshToken option) \<Rightarrow> (string \<Rightarrow> RefreshToken option) \<Rightarrow> bool" where
  "only_revoked rows rows' \<longleftrightarrow> (\<forall>h. rows' h = rows h
     \<or> (\<exists>r now reason. rows h = Some r \<and> rows' h = Some (revoke_row now reason r)))"

lemma only_revokedE:
  assumes "only_revoked rows rows'" and "rows' h = Some r'"
  obtains r where "rows h = Some r" "rt_FamilyID r' = rt_FamilyID r" "rt_AuthCodeHash r' = rt_AuthCodeHash r"
    "rt_RevokedAt r' = None \<Longrightarrow> r' = r" "\<And>x. covers r' x = covers r x" "\<And>x. covers x r' = covers x r"
    "\<And>i. derives r' i = derives r i"
proof -
  from assms consider "rows h = Some r'"
    | r now reason where "rows h = Some r" "r' = revoke_row now reason r"
    unfolding only_revoked_def by (metis option.inject)
  then show thesis
  proof cases
    case 1
    then show thesis by (intro that) simp_all
  next
    case 2
    then show thesis by (intro that [of r]) simp_all
  qed
qed

lemma only_revoked_None: "only_revoked rows rows' \<Longrightarrow> rows' h = None \<longleftrightarrow> rows h = None"
  unfolding only_revoked_def by (metis option.distinct(1))

lemma only_revoked_ops:
  "tokens_ok v \<Longrightarrow> only_revoked (token_row v) (token_row (RevokeRefreshTokenFamily now f reason v))"
  "tokens_ok v \<Longrightarrow> only_revoked (token_row v) (token_row (snd (RevokeRefreshTokensByAuthCode now k reason v)))"
  "only_revoked (token_row v) (token_row (snd (RevokeRefreshToken now h reason v)))"
proof -
  show "tokens_ok v \<Longrightarrow> only_revoked (token_row v) (token_row (RevokeRefreshTokenFamily now f reason v))"
    by (auto simp: only_revoked_def rs.rev_family_row split: option.splits)
  show "only_revoked (token_row v) (token_row (snd (RevokeRefreshToken now h reason v)))"
    unfolding only_revoked_def rs.rev1_row by (cases "token_row v h") auto
  show "only_revoked (token_row v) (token_row (snd (RevokeRefreshTokensByAuthCode now k reason v)))"
    if "tokens_ok v"
  proof (cases "k = []")
    case True
    then show ?thesis by (simp add: only_revoked_def RevokeRefreshTokensByAuthCode_def)
  next
    case False
    with that show ?thesis by (auto simp: only_revoked_def rs.rev_code_row split: option.splits)
  qed
qed

lemma live_only_revoked:
  assumes "only_revoked rows rows'" shows "live_of rows' f \<subseteq> live_of rows f"
proof
  fix h assume "h \<in> live_of rows' f"
  then obtain r' where r': "rows' h = Some r'" "rt_FamilyID r' = f" "rt_RevokedAt r' = None"
    by (auto simp: live_of_def)
  from assms r'(1) show "h \<in> live_of rows f"
    by (rule only_revokedE) (use r' in \<open>auto simp: live_of_def\<close>)
qed

lemma task_ok_revoked:
  assumes rev: "only_revoked rows rows'" and ok: "task_ok H rows t"
  shows "task_ok H rows' t"
proof (cases t)
  case (TRotate req rt inp)
  with ok obtain r where r: "rows (H (rq_RefreshToken req)) = Some r" "mi_FamilyID inp = Some (rt_FamilyID r)"
    "mi_AuthCodeHash inp = []" "derives r inp" by auto
  with rev obtain r' where r': "rows' (H (rq_RefreshToken req)) = Some r'"
    unfolding only_revoked_def by (metis option.distinct(1))
  from rev r' show ?thesis
    by (rule only_revokedE) (use r r' TRotate in auto)
next
  case (TRefreshMint rt inp)
  have "derives r' inp" if "rows' h = Some r'" "mi_FamilyID inp = Some (rt_FamilyID r')" for h r'
    using rev that(1) by (rule only_revokedE) (use that ok TRefreshMint in auto)
  with ok TRefreshMint show ?thesis by auto
next
  case (TInsert inp row resp)
  have "covers r' row" if "rows' h = Some r'" "rt_FamilyID r' = rt_FamilyID row" for h r'
    using rev that(1) by (rule only_revokedE) (use that ok TInsert in auto)
  with ok TInsert rev show ?thesis by (auto simp: only_revoked_None)
qed (use ok in auto)

lemma rows_ok_revoked:
  assumes rev: "only_revoked rows rows'" and ok: "rows_ok rows"
  shows "rows_ok rows'"
proof -
  have "covers a b \<and> (rt_RevokedAt a = None \<longrightarrow> h = h')"
    if ab: "rows' h = Some a" "rows' h' = Some b" "rt_FamilyID a = rt_FamilyID b" "rt_RevokedAt b = None" for h h' a b
  proof -
    from rev ab(1) obtain a0 where a0: "rows h = Some a0" "rt_FamilyID a = rt_FamilyID a0"
      "rt_RevokedAt a = None \<Longrightarrow> a = a0" "\<And>x. covers a x = covers a0 x" by (rule only_revokedE) metis
    from rev ab(2) obtain b0 where b0: "rows h' = Some b0" "rt_RevokedAt b = None \<Longrightarrow> b = b0"
      by (rule only_revokedE) metis
    then have b: "b = b0" using ab(4) by blast
    with rows_okD(1,2) [OF ok a0(1) b0(1)] ab(3,4) a0(2)
    have "covers a0 b0 \<and> (rt_RevokedAt a0 = None \<longrightarrow> h = h')" by simp
    then show ?thesis using a0(3,4) b by auto
  qed
  moreover have "h = h'"
    if ab: "rows' h = Some a" "rows' h' = Some b" "rt_AuthCodeHash a = rt_AuthCodeHash b" "rt_AuthCodeHash a \<noteq> []" for h h' a b
  proof -
    from rev ab(1) obtain a0 where a0: "rows h = Some a0" "rt_AuthCodeHash a = rt_AuthCodeHash a0"
      by (rule only_revokedE) metis
    from rev ab(2) obtain b0 where b0: "rows h' = Some b0" "rt_AuthCodeHash b = rt_AuthCodeHash b0"
      by (rule only_revokedE) metis
    show ?thesis using rows_okD(3) [OF ok a0(1) b0(1)] a0(2) b0(2) ab(3,4) by simp
  qed
  ultimately show ?thesis unfolding rows_ok_def by blast
qed

lemma sys_ok_revoked:
  assumes ok: "sys_ok H v ts" and rev: "only_revoked (token_row v) (token_row v')"
    and "tokens_ok v'" and "v_authzCodes v' = v_authzCodes v"
  shows "sys_ok H v' ts"
proof -
  have codes: "(\<exists>r. token_row v' h = Some r \<and> rt_AuthCodeHash r = k)
      \<Longrightarrow> (\<exists>r. token_row v h = Some r \<and> rt_AuthCodeHash r = k)" for h k
    using only_revokedE [OF rev] by metis
  have live: "live_of (token_row v) f = {} \<Longrightarrow> live_of (token_row v') f = {}" for f
    using live_only_revoked [OF rev] by blast
  show ?thesis
    using ok assms(3,4) rows_ok_revoked [OF rev] task_ok_revoked [OF rev] live codes
    unfolding sys_ok_def by (smt (verit, ccfv_threshold))
qed

text \<open>The invariant in the form the steps use it.\<close>

lemma sys_okD:
  assumes "sys_ok H v ts"
  shows "tokens_ok v" "rows_ok (token_row v)" "uniq fam_of ts" "uniq code_of ts" "uniq hash_of ts"
    "task_ok H (token_row v) (ts i)"
    "fam_of (ts i) = Some f \<Longrightarrow> live_of (token_row v) f = {}"
    "code_of (ts i) = Some k \<Longrightarrow> token_row v h = Some r \<Longrightarrow> rt_AuthCodeHash r \<noteq> k"
    "gm_get (v_authzCodes v) k = Some c \<Longrightarrow> k \<noteq> []"
    "gm_get (v_authzCodes v) k = Some c \<Longrightarrow> code_of (ts i) \<noteq> Some k"
    "gm_get (v_authzCodes v) k = Some c \<Longrightarrow> token_row v h = Some r \<Longrightarrow> rt_AuthCodeHash r \<noteq> k"
  using assms unfolding sys_ok_def by blast+

lemma sys_okI:
  assumes "tokens_ok v" "rows_ok (token_row v)" "uniq fam_of ts" "uniq code_of ts" "uniq hash_of ts"
    "\<And>i. task_ok H (token_row v) (ts i)"
    "\<And>i f. fam_of (ts i) = Some f \<Longrightarrow> live_of (token_row v) f = {}"
    "\<And>i k h r. code_of (ts i) = Some k \<Longrightarrow> token_row v h = Some r \<Longrightarrow> rt_AuthCodeHash r \<noteq> k"
    "\<And>k c. gm_get (v_authzCodes v) k = Some c \<Longrightarrow> k \<noteq> []"
    "\<And>k c i. gm_get (v_authzCodes v) k = Some c \<Longrightarrow> code_of (ts i) \<noteq> Some k"
    "\<And>k c h r. gm_get (v_authzCodes v) k = Some c \<Longrightarrow> token_row v h = Some r \<Longrightarrow> rt_AuthCodeHash r \<noteq> k"
  shows "sys_ok H v ts"
  using assms unfolding sys_ok_def by blast

lemma sys_ok_cong: "tok_part v = tok_part v' \<Longrightarrow> sys_ok H v ts = sys_ok H v' ts"
  using tok_part_cong [of v v'] unfolding sys_ok_def by simp

lemma sys_ok_task:
  assumes ok: "sys_ok H v ts" and t: "task_ok H (token_row v) t"
    and "fam_of t = None \<or> fam_of t = fam_of (ts i)" "code_of t = None \<or> code_of t = code_of (ts i)"
    and "hash_of t = None \<or> hash_of t = hash_of (ts i)"
  shows "sys_ok H v (ts(i := t))"
  using assms(2-) sys_okD [OF ok] unfolding sys_ok_def
  by (intro conjI uniq_same allI impI) (auto simp: fun_upd_apply split: if_splits)

text \<open>Consuming a code hands the right to redeem it to the task.\<close>

lemma sys_ok_consume:
  assumes ok: "sys_ok H v ts" and k: "gm_get (v_authzCodes v) k = Some c"
    and t: "task_ok H (token_row v) t" "fam_of t = None" "hash_of t = None" "code_of t = None \<or> code_of t = Some k"
  shows "sys_ok H (v\<lparr>v_authzCodes := gm_del k (v_authzCodes v)\<rparr>) (ts(i := t))"
proof -
  let ?v = "v\<lparr>v_authzCodes := gm_del k (v_authzCodes v)\<rparr>"
  note D = sys_okD [OF ok]
  have eq: "tokens_ok ?v = tokens_ok v" "token_row ?v = token_row v"
    by (auto simp: tokens_ok_def token_row_def fun_eq_iff)
  have codes: "gm_get (v_authzCodes ?v) k' = Some c' \<longleftrightarrow> k' \<noteq> k \<and> gm_get (v_authzCodes v) k' = Some c'" for k' c'
    by simp
  show ?thesis
  proof (rule sys_okI, unfold eq codes)
    show "uniq code_of (ts(i := t))"
      using t(4) D(10) [OF k] by (intro uniq_upd D(4)) auto
    show "uniq fam_of (ts(i := t))" "uniq hash_of (ts(i := t))"
      using t D(3,5) by (simp_all add: uniq_same)
    show "task_ok H (token_row v) ((ts(i := t)) j)" for j using D(6) t(1) by simp
    show "live_of (token_row v) f = {}" if "fam_of ((ts(i := t)) j) = Some f" for j f
      using that t(2) D(7) by (auto split: if_splits)
    show "rt_AuthCodeHash r \<noteq> k'" if "code_of ((ts(i := t)) j) = Some k'" "token_row v h = Some r" for j k' h r
      using that t(4) D(8) D(11) [OF k] by (cases "j = i") auto
    show "code_of ((ts(i := t)) j) \<noteq> Some k'" if "k' \<noteq> k \<and> gm_get (v_authzCodes v) k' = Some c'" for j k' c'
      using that t(4) D(10) by (cases "j = i") auto
  qed (use D in blast)+
qed

text \<open>A conditional revocation that succeeds hands the right to continue the family to the task.\<close>

lemma sys_ok_rotate:
  assumes ok: "sys_ok H v ts" and i: "ts i = TRotate req rt inp"
    and win: "RevokeRefreshToken now (H (rq_RefreshToken req)) reason v = (None, v')"
  shows "sys_ok H v' (ts(i := TRefreshMint rt inp))"
proof -
  let ?h = "H (rq_RefreshToken req)"
  note D = sys_okD [OF ok]
  from D(6) [of i] i obtain r where r: "token_row v ?h = Some r" "mi_FamilyID inp = Some (rt_FamilyID r)"
    "mi_AuthCodeHash inp = []" "derives r inp" by auto
  let ?f = "rt_FamilyID r"
  have v': "v' = snd (RevokeRefreshToken now ?h reason v)" using win by simp
  have "fst (RevokeRefreshToken now ?h reason v) = None" using win by simp
  with r(1) have live: "rt_RevokedAt r = None" by (auto simp: rs.rev1_wins)
  have ok': "sys_ok H v' ts"
  proof (rule sys_ok_revoked [OF ok])
    show "only_revoked (token_row v) (token_row v')" unfolding v' by (rule only_revoked_ops(3))
    show "tokens_ok v'" unfolding v' using D(1) by (rule rs.rev1_ok)
    show "v_authzCodes v' = v_authzCodes v"
      using win by (auto simp: RevokeRefreshToken_def Let_def split: option.splits if_splits)
  qed
  note D' = sys_okD [OF ok']
  have rev: "only_revoked (token_row v) (token_row v')" unfolding v' by (rule only_revoked_ops(3))
  have "live_of (token_row v) ?f = {?h}"
    using r(1) live by (intro rows_ok_live [OF D(2)]) (simp add: live_of_def)
  then have none: "live_of (token_row v') ?f = {}" by (simp add: v' rs.live_rev1)
  have der: "derives x inp" if "token_row v' h = Some x" "rt_FamilyID x = ?f" for h x
  proof -
    from rev that(1) obtain x0 where "token_row v h = Some x0" "rt_FamilyID x = rt_FamilyID x0"
      "derives x inp = derives x0 inp" by (rule only_revokedE) metis
    moreover from this have "covers x0 r" using rows_okD(1) [OF D(2) _ r(1) _ live] that(2) by metis
    ultimately show ?thesis using r(4) covers_derives by blast
  qed
  have nofam: "fam_of (ts j) \<noteq> Some ?f" for j
    using D(7) [of j ?f] \<open>live_of (token_row v) ?f = {?h}\<close> by auto
  let ?t = "TRefreshMint rt inp"
  show ?thesis
  proof (rule sys_okI)
    show "uniq fam_of (ts(i := ?t))" using nofam r(2) by (intro uniq_upd D(3)) auto
    show "uniq code_of (ts(i := ?t))" "uniq hash_of (ts(i := ?t))"
      by (rule uniq_same [OF D(4)] uniq_same [OF D(5)], simp)+
    show "task_ok H (token_row v') ((ts(i := ?t)) j)" for j
      using D'(6) [of j] r der by (cases "j = i") auto
    show "live_of (token_row v') f = {}" if "fam_of ((ts(i := ?t)) j) = Some f" for j f
      using that none r(2) D'(7) by (cases "j = i") auto
    show "rt_AuthCodeHash x \<noteq> k" if "code_of ((ts(i := ?t)) j) = Some k" "token_row v' h = Some x" for j k h x
      using that D'(8) by (cases "j = i") auto
    show "code_of ((ts(i := ?t)) j) \<noteq> Some k" if "gm_get (v_authzCodes v') k = Some c" for j k c
      using D'(10) [OF that] by (cases "j = i") auto
  qed (use D' in blast)+
qed

text \<open>Random values are new: no row and no task has them.\<close>

definition fresh_draws :: "(string \<Rightarrow> string) \<Rightarrow> v20State \<Rightarrow> (nat \<Rightarrow> task) \<Rightarrow> draws \<Rightarrow> bool" where
  "fresh_draws H v ts d \<longleftrightarrow>
     (\<forall>tok g. dr_token d = Some tok \<longrightarrow> token_row v (H (withGrantExpiry tok g)) = None
        \<and> (\<forall>j. hash_of (ts j) \<noteq> Some (H (withGrantExpiry tok g))))
   \<and> (\<forall>j. fam_of (ts j) \<noteq> Some (dr_family d))
   \<and> (\<forall>h r. token_row v h = Some r \<longrightarrow> rt_FamilyID r \<noteq> dr_family d)"

fun mints :: "task \<Rightarrow> bool" where
  "mints (TExchangeMint req inp) = True"
| "mints (TRefreshMint rt inp) = True"
| "mints _ = False"

lemma sys_ok_prepare:
  assumes ok: "sys_ok H v ts" and d: "fresh_draws H v ts d" "dr_token d = Some tok"
    and H: "ap_digest (pm_auth p) = H"
    and t: "ts i = TRefreshMint rt inp0 \<or> ts i = TExchangeMint req inp0" and inp: "inp = inp0\<lparr>mi_SessionID := sid\<rparr>"
    and row: "row = mint_row p cfg d (withGrantExpiry tok g) inp"
  shows "sys_ok H v (ts(i := TInsert inp row resp))"
proof -
  let ?t = "TInsert inp row resp"
  note D = sys_okD [OF ok]
  have h: "rt_Hash row = H (withGrantExpiry tok g)" by (simp add: row mint_row_def H)
  have fresh: "token_row v (rt_Hash row) = None" "hash_of (ts j) \<noteq> Some (rt_Hash row)" for j
    using d h unfolding fresh_draws_def by auto
  have sel: "rt_RevokedAt row = None" "rt_AuthCodeHash row = mi_AuthCodeHash inp0"
    "rt_FamilyID row = (case mi_FamilyID inp0 of None \<Rightarrow> dr_family d | Some f \<Rightarrow> f)"
    by (simp_all add: row mint_row_def inp)
  have cov: "covers r row = derives r inp0" for r
    by (simp add: row covers_mint_row inp derives_def)
  have tok: "task_ok H (token_row v) ?t"
    using fresh sel cov t D(6) [of i] d(1) unfolding fresh_draws_def by (auto split: option.splits)
  have fam: "fam_of (ts i) = Some (rt_FamilyID row) \<or> (\<forall>j. fam_of (ts j) \<noteq> Some (rt_FamilyID row))"
    using t sel(3) D(6) [of i] d(1) unfolding fresh_draws_def by auto
  have code: "code_of ?t = None \<or> code_of ?t = code_of (ts i)"
    using t sel(2) D(6) [of i] by auto
  have none: "live_of (token_row v) (rt_FamilyID row) = {}"
  proof (cases "fam_of (ts i) = Some (rt_FamilyID row)")
    case True
    then show ?thesis by (rule D(7))
  next
    case False
    with t sel(3) D(6) [of i] have "rt_FamilyID row = dr_family d" by auto
    with d(1) show ?thesis unfolding fresh_draws_def live_of_def by auto
  qed
  show ?thesis
  proof (rule sys_okI)
    show "uniq fam_of (ts(i := ?t))"
    proof (rule uniq_upd [OF D(3)])
      show "fam_of (ts j) \<noteq> Some x" if "fam_of ?t = Some x" "j \<noteq> i" for x j
        using that fam D(3) unfolding uniq_def by auto
    qed
    show "uniq code_of (ts(i := ?t))" using code by (rule uniq_same [OF D(4)])
    show "uniq hash_of (ts(i := ?t))" using fresh by (intro uniq_upd [OF D(5)]) auto
    show "task_ok H (token_row v) ((ts(i := ?t)) j)" for j
      using D(6) [of j] tok by (simp del: task_ok.simps)
    show "live_of (token_row v) f = {}" if "fam_of ((ts(i := ?t)) j) = Some f" for j f
      using that none D(7) by (cases "j = i") auto
    show "rt_AuthCodeHash x \<noteq> k" if "code_of ((ts(i := ?t)) j) = Some k" "token_row v h = Some x" for j k h x
      using that code D(8) by (cases "j = i") (auto simp del: code_of.simps)
    show "code_of ((ts(i := ?t)) j) \<noteq> Some k" if "gm_get (v_authzCodes v) k = Some c" for j k c
      using code D(10) [OF that] by (cases "j = i") (auto simp del: code_of.simps)
  qed (use D in blast)+
qed

lemma sys_ok_insert:
  assumes ok: "sys_ok H v ts" and i: "ts i = TInsert inp row resp"
  shows "sys_ok H (InsertRefreshToken row v) (ts(i := TFinish inp row resp))"
proof -
  let ?v = "InsertRefreshToken row v" and ?t = "TFinish inp row resp"
  note D = sys_okD [OF ok]
  from D(6) [of i] i have r: "rt_RevokedAt row = None" "token_row v (rt_Hash row) = None"
    "\<And>h x. token_row v h = Some x \<Longrightarrow> rt_FamilyID x = rt_FamilyID row \<Longrightarrow> covers x row" by auto
  have rows: "token_row ?v h = (if h = rt_Hash row then Some row else token_row v h)" for h
    by (simp add: rs.ins_row)
  have none: "live_of (token_row v) (rt_FamilyID row) = {}" using D(7) [of i] i by simp
  have codes: "v_authzCodes ?v = v_authzCodes v" by (simp add: InsertRefreshToken_def Let_def)
  have fam: "fam_of (ts j) \<noteq> Some (rt_FamilyID row)" if "j \<noteq> i" for j
    using D(3) i that unfolding uniq_def by (metis fam_of.simps(2))
  have hash: "hash_of (ts j) \<noteq> Some (rt_Hash row)" if "j \<noteq> i" for j
    using D(5) i that unfolding uniq_def by (metis hash_of.simps(1))
  have code: "code_of (ts j) \<noteq> Some (rt_AuthCodeHash row)" if "j \<noteq> i" for j
  proof (cases "rt_AuthCodeHash row = []")
    case True
    with D(6) [of j] show ?thesis by (cases "ts j") auto
  next
    case False
    then show ?thesis using D(4) i that unfolding uniq_def by (metis code_of.simps(2))
  qed
  show ?thesis
  proof (rule sys_okI, unfold codes)
    show "tokens_ok ?v" using D(1) r(2) by (rule rs.ins_ok)
    have "rt_AuthCodeHash x \<noteq> rt_AuthCodeHash row" if "token_row v h = Some x" "rt_AuthCodeHash row \<noteq> []" for h x
      using D(8) [of i _ h x] i that by auto
    moreover have "rt_RevokedAt x \<noteq> None" if "token_row v h = Some x" "rt_FamilyID x = rt_FamilyID row" for h x
      using none that by (auto simp: live_of_def)
    ultimately show "rows_ok (token_row ?v)"
      using D(2) r unfolding rows_ok_def rows by (smt (verit) covers_refl option.inject)
    show "task_ok H (token_row ?v) ((ts(i := ?t)) j)" for j
    proof (cases "j = i")
      case False
      then show ?thesis
        using D(6) [of j] fam [OF False] hash [OF False] by (cases "ts j") (auto simp: rows r(2))
    qed simp
    show "live_of (token_row ?v) f = {}" if "fam_of ((ts(i := ?t)) j) = Some f" for j f
    proof -
      from that have j: "j \<noteq> i" "fam_of (ts j) = Some f" by (auto split: if_splits)
      with D(7) [OF j(2)] fam [OF j(1)] show ?thesis by (auto simp: live_of_def rows split: if_splits)
    qed
    show "rt_AuthCodeHash x \<noteq> k" if "code_of ((ts(i := ?t)) j) = Some k" "token_row ?v h = Some x" for j k h x
    proof -
      from that have j: "j \<noteq> i" "code_of (ts j) = Some k" by (auto split: if_splits)
      with D(8) [OF j(2)] code [OF j(1)] that(2) show ?thesis by (auto simp: rows split: if_splits)
    qed
    show "rt_AuthCodeHash x \<noteq> k" if "gm_get (v_authzCodes v) k = Some c" "token_row ?v h = Some x" for k c h x
      using D(9) [OF that(1)] D(10) [OF that(1), of i] D(11) [OF that(1)] that(2) i
      by (auto simp: rows split: if_splits)
    show "code_of ((ts(i := ?t)) j) \<noteq> Some k" if "gm_get (v_authzCodes v) k = Some c" for j k c
      using D(10) [OF that] by (cases "j = i") auto
    show "uniq fam_of (ts(i := ?t))" "uniq code_of (ts(i := ?t))" "uniq hash_of (ts(i := ?t))"
      by (rule uniq_same [OF D(3)] uniq_same [OF D(4)] uniq_same [OF D(5)], simp)+
  qed (use D in blast)+
qed

section \<open>Runs\<close>

lemma exchange_check_Inr:
  assumes "exchange_check p cfg d req client c = Inr inp"
  shows "ac_ClientID c = oc_ClientID client" "dr_check d < ac_ExpiresAt c"
    "rq_RedirectURI req \<noteq> []"
    "rq_RedirectURI req = ac_RedirectURI c \<or> cc_LoopbackAnyPort (cf_ClientCompat cfg)
       \<and> loopbackEquivalent (ap_parse (pm_auth p)) cfg (rq_RedirectURI req) (ac_RedirectURI c)"
    "ac_CodeChallengeMethod c = ''S256''" "pm_challenge p (rq_CodeVerifier req) = ac_CodeChallenge c"
    "mi_ClientID inp = oc_ClientID client" "mi_UserID inp = Some (ac_UserID c)" "mi_Scope inp = ac_Scope c"
    "\<exists>res. resolveResource (ap_parse (pm_auth p)) cfg (ac_Resource c) = Inr (res, mi_Resource inp)"
    "mi_FamilyID inp = None" "mi_AuthCodeHash inp = codeStorageKey p (rq_Code req)"
    "mi_GrantExpiry inp = splitGrantExpiry (rq_Code req)"
    "mi_AuthTime inp = ac_AuthTime c" "mi_ACR inp = ac_ACR c" "mi_AMR inp = ac_AMR c"
  using assms by (auto simp: exchange_check_def Let_def split: if_splits sum.splits)

lemma refresh_check_Inr:
  assumes "refresh_check p cfg d req client rt = Inr inp" and "rt_ClientID rt = oc_ClientID client"
  shows "derives rt inp" "mi_FamilyID inp = Some (rt_FamilyID rt)" "mi_AuthCodeHash inp = []"
    "mi_GrantExpiry inp = splitGrantExpiry (rq_RefreshToken req)" "dr_check d < rt_ExpiresAt rt"
    "rq_Resource req = [] \<or> resourceMatchesGrant (ap_parse (pm_auth p)) cfg (rq_Resource req) (rt_Resource rt)"
  using assms narrowRefreshScopes_Inr [of cfg "rq_Scope req" "rt_Scope rt"]
  by (auto simp: refresh_check_def derives_def jktEqual_def split: if_splits sum.splits)

lemma refresh_lookup_Inr:
  assumes "refresh_lookup p req client s = Inr rt" and "tokens_ok (st_v20 s)"
  shows "token_row (st_v20 s) (HashToken p (rq_RefreshToken req)) = Some rt" "rt_ClientID rt = oc_ClientID client"
  using assms by (auto simp: refresh_lookup_def rs.by_hash_row split: sum.splits option.splits if_splits)

inductive sys_run :: "(string \<Rightarrow> string) \<Rightarrow> Config \<Rightarrow> AsState \<Rightarrow> (nat \<Rightarrow> task) \<Rightarrow> bool" for H cfg where
  start: "st_v20 s = ensureV20 \<Longrightarrow> sys_run H cfg s (\<lambda>_. TDone r)"
| arrive: "sys_run H cfg s ts \<Longrightarrow> ts i = TDone r \<Longrightarrow> t = TExchange req \<or> t = TRefresh req \<Longrightarrow>
    sys_run H cfg s (ts(i := t))"
| step: "sys_run H cfg s ts \<Longrightarrow> ap_digest (pm_auth p) = H \<Longrightarrow> (\<And>a. au_v20 (env a) = au_v20 a) \<Longrightarrow>
    (mints (ts i) \<longrightarrow> fresh_draws H (st_v20 s) ts d) \<Longrightarrow> task_step p env cfg d (ts i) s = (t, s') \<Longrightarrow>
    sys_run H cfg s' (ts(i := t))"
| issue: "sys_run H cfg s ts \<Longrightarrow> ac_Code c \<noteq> [] \<Longrightarrow> (\<And>j. code_of (ts j) \<noteq> Some (ac_Code c)) \<Longrightarrow>
    (\<And>h r. token_row (st_v20 s) h = Some r \<Longrightarrow> rt_AuthCodeHash r \<noteq> ac_Code c) \<Longrightarrow>
    sys_run H cfg (set_v20 (InsertAuthorizationCode now c (st_v20 s)) s) ts"
| revoke: "sys_run H cfg s ts \<Longrightarrow> (\<And>a. au_v20 (env a) = au_v20 a) \<Longrightarrow>
    sys_run H cfg (snd (RevokeToken p env cfg d token hint clientID secret s)) ts"
| other: "sys_run H cfg s ts \<Longrightarrow> tok_part (st_v20 s') = tok_part (st_v20 s) \<Longrightarrow> sys_run H cfg s' ts"

lemma sys_ok_issue:
  assumes ok: "sys_ok H v ts" and c: "ac_Code c \<noteq> []" "\<And>j. code_of (ts j) \<noteq> Some (ac_Code c)"
    "\<And>h r. token_row v h = Some r \<Longrightarrow> rt_AuthCodeHash r \<noteq> ac_Code c"
  shows "sys_ok H (InsertAuthorizationCode now c v) ts"
proof -
  let ?v = "InsertAuthorizationCode now c v"
  note D = sys_okD [OF ok]
  have eq: "tokens_ok ?v = tokens_ok v" "token_row ?v = token_row v"
    by (auto simp: tokens_ok_def token_row_def InsertAuthorizationCode_def Let_def fun_eq_iff)
  have codes: "k = ac_Code c \<or> gm_get (v_authzCodes v) k \<noteq> None" if "gm_get (v_authzCodes ?v) k = Some c'" for k c'
    using that by (auto simp: InsertAuthorizationCode_def Let_def split: if_splits)
  show ?thesis
  proof (rule sys_okI, unfold eq)
    show "k \<noteq> []" if "gm_get (v_authzCodes ?v) k = Some c'" for k c'
      using codes [OF that] c(1) D(9) [of k] by (cases "gm_get (v_authzCodes v) k") auto
    show "code_of (ts i) \<noteq> Some k" if "gm_get (v_authzCodes ?v) k = Some c'" for k c' i
      using codes [OF that] c(2) D(10) [of k] by (cases "gm_get (v_authzCodes v) k") auto
    show "rt_AuthCodeHash r \<noteq> k" if "gm_get (v_authzCodes ?v) k = Some c'" "token_row v h = Some r" for k c' h r
      using codes [OF that(1)] c(3) [OF that(2)] D(11) [of k _ h r] that(2)
      by (cases "gm_get (v_authzCodes v) k") auto
  qed (use D in blast)+
qed

lemma sys_ok_prepared:
  assumes ok: "sys_ok H (st_v20 s) ts" and H: "ap_digest (pm_auth p) = H" and d: "fresh_draws H (st_v20 s) ts d"
    and t: "ts i = TRefreshMint rt inp0 \<or> ts i = TExchangeMint req inp0"
    and inp: "inp = inp0\<lparr>mi_SessionID := sid\<rparr>" and s1: "st_v20 s1 = st_v20 s"
    and step: "prepared inp (mint_prepare p cfg d inp s1) = (t', s')"
  shows "sys_ok H (st_v20 s') (ts(i := t'))"
proof -
  obtain r where m: "mint_prepare p cfg d inp s1 = (r, s')"
    using step by (auto simp: prepared_def split: prod.splits sum.splits)
  then have tok: "tok_part (st_v20 s') = tok_part (st_v20 s)"
    using mint_prepare_tok [of p cfg d inp s1] s1 by simp
  show ?thesis
  proof (cases r)
    case (Inl e)
    with step m have "t' = TDone (Inl e)" by (simp add: prepared_def)
    with ok have "sys_ok H (st_v20 s) (ts(i := t'))" by (intro sys_ok_task) simp_all
    then show ?thesis using sys_ok_cong [OF tok] by simp
  next
    case (Inr rr)
    obtain row resp where rr: "rr = (row, resp)" by (cases rr)
    with Inr m obtain tok where tk: "dr_token d = Some tok"
      "row = mint_row p cfg d (withGrantExpiry tok (mi_GrantExpiry inp)) inp" by (auto elim: mint_prepare_row)
    from step m Inr rr have "t' = TInsert inp row resp" by (simp add: prepared_def)
    with sys_ok_prepare [OF ok d tk(1) H t inp tk(2)] have "sys_ok H (st_v20 s) (ts(i := t'))" by simp
    then show ?thesis using sys_ok_cong [OF tok] by simp
  qed
qed

lemma sys_ok_task_step:
  assumes ok: "sys_ok H (st_v20 s) ts" and H: "ap_digest (pm_auth p) = H"
    and env: "\<And>a. au_v20 (env a) = au_v20 a" and d: "mints (ts i) \<longrightarrow> fresh_draws H (st_v20 s) ts d"
    and step: "task_step p env cfg d (ts i) s = (t', s')"
  shows "sys_ok H (st_v20 s') (ts(i := t'))"
proof (cases "ts i")
  case (TExchange req)
  obtain r s1 where a: "authenticate p env d req s = (r, s1)" by (cases "authenticate p env d req s")
  have "st_v20 s1 = st_v20 s" by (rule authenticate_v20 [OF a env])
  moreover have "s' = s1" and "fam_of t' = None" "code_of t' = None" "hash_of t' = None" "task_ok H rows t'" for rows
    using step TExchange a by (auto simp: exchange_auth_def split: sum.splits if_splits)
  ultimately show ?thesis using ok by (auto intro: sys_ok_task)
next
  case (TRefresh req)
  obtain r s1 where a: "authenticate p env d req s = (r, s1)" by (cases "authenticate p env d req s")
  have "st_v20 s1 = st_v20 s" by (rule authenticate_v20 [OF a env])
  moreover have "s' = s1" and "fam_of t' = None" "code_of t' = None" "hash_of t' = None" "task_ok H rows t'" for rows
    using step TRefresh a by (auto simp: refresh_auth_def split: sum.splits if_splits)
  ultimately show ?thesis using ok by (auto intro: sys_ok_task)
next
  case (TConsume req client)
  let ?k = "codeStorageKey p (rq_Code req)"
  show ?thesis
  proof (cases "gm_get (v_authzCodes (st_v20 s)) ?k")
    case None
    with step TConsume have "t' = TReplay ?k" "st_v20 s' = st_v20 s"
      by (auto simp: exchange_consume_def ConsumeAuthorizationCode_def)
    with ok show ?thesis by (simp add: sys_ok_task)
  next
    case (Some c)
    with step TConsume have "st_v20 s' = (st_v20 s)\<lparr>v_authzCodes := gm_del ?k (v_authzCodes (st_v20 s))\<rparr>"
      and t: "(case exchange_check p cfg d req client c of Inl e \<Rightarrow> t' = TDone (Inl e)
          | Inr inp \<Rightarrow> t' = TExchangeMint req inp)"
      by (auto simp: exchange_consume_def ConsumeAuthorizationCode_def split: sum.splits)
    moreover have "?k \<noteq> []" by (rule sys_okD(9) [OF ok Some])
    with t have "task_ok H (token_row (st_v20 s)) t'" "fam_of t' = None" "hash_of t' = None"
      "code_of t' = None \<or> code_of t' = Some ?k"
      using exchange_check_Inr(11,12) [of p cfg d req client c] by (auto split: sum.splits)
    ultimately show ?thesis using sys_ok_consume [OF ok Some] by simp
  qed
next
  case (TReplay k)
  let ?v = "snd (RevokeRefreshTokensByAuthCode (dr_store d) k ''authorization code replay'' (st_v20 s))"
  have "sys_ok H ?v ts"
  proof (rule sys_ok_revoked [OF ok only_revoked_ops(2)])
    show "tokens_ok (st_v20 s)" by (rule sys_okD(1) [OF ok])
    then show "tokens_ok ?v" by (rule rs.rev_code_ok)
    show "v_authzCodes ?v = v_authzCodes (st_v20 s)"
      by (simp add: RevokeRefreshTokensByAuthCode_def Let_def split: prod.splits)
  qed
  then have "sys_ok H ?v (ts(i := t'))" using step TReplay by (auto intro: sys_ok_task)
  then show ?thesis using step TReplay sys_ok_cong [OF handleCodeReplay_tok [of cfg d k s]] by auto
next
  case (TExchangeMint req inp)
  obtain inp1 s1 where e: "exchange_session p d req inp s = (inp1, s1)" by (cases "exchange_session p d req inp s")
  then have "st_v20 s1 = st_v20 s" "\<exists>sid. inp1 = inp\<lparr>mi_SessionID := sid\<rparr>"
    using session_v20(1) [of p d req inp s] by (auto simp: exchange_session_def split: prod.splits)
  then show ?thesis
    using step TExchangeMint e d by (auto intro: sys_ok_prepared [OF ok H])
next
  case (TLookup req client)
  note D = sys_okD [OF ok]
  have "s' = s" using step TLookup by (auto split: sum.splits if_splits)
  moreover have "fam_of t' = None" "code_of t' = None" "hash_of t' = None"
    using step TLookup by (auto split: sum.splits if_splits)
  moreover have "task_ok H (token_row (st_v20 s)) t'"
  proof (cases "\<exists>rt inp. refresh_lookup p req client s = Inr rt \<and> t' = TRotate req rt inp
      \<and> refresh_check p cfg d req client rt = Inr inp")
    case True
    then obtain rt inp where *: "refresh_lookup p req client s = Inr rt" "t' = TRotate req rt inp"
      "refresh_check p cfg d req client rt = Inr inp" by blast
    from refresh_lookup_Inr [OF *(1) D(1)] refresh_check_Inr [OF *(3)] show ?thesis
      by (simp add: *(2) H)
  next
    case False
    with step TLookup show ?thesis by (auto split: sum.splits if_splits)
  qed
  ultimately show ?thesis using ok by (auto intro: sys_ok_task)
next
  case (TReuse f)
  have "sys_ok H (RevokeRefreshTokenFamily (dr_store d) f ''reuse detected'' (st_v20 s)) ts"
  proof (rule sys_ok_revoked [OF ok only_revoked_ops(1)])
    show "tokens_ok (st_v20 s)" by (rule sys_okD(1) [OF ok])
    then show "tokens_ok (RevokeRefreshTokenFamily (dr_store d) f ''reuse detected'' (st_v20 s))" by (rule rs.rev_family_ok)
  qed (simp add: RevokeRefreshTokenFamily_def split: option.splits)
  then show ?thesis using step TReuse by (auto simp: refresh_reuse_def intro: sys_ok_task)
next
  case (TRotate req rt inp)
  obtain r v' where e: "RevokeRefreshToken (dr_store d) (H (rq_RefreshToken req)) ''rotated'' (st_v20 s) = (r, v')"
    by (cases "RevokeRefreshToken (dr_store d) (H (rq_RefreshToken req)) ''rotated'' (st_v20 s)")
  show ?thesis
  proof (cases r)
    case None
    with step TRotate e H have "t' = TRefreshMint rt inp" "st_v20 s' = v'" by (auto simp: refresh_rotate_def)
    with sys_ok_rotate [OF ok TRotate] e None show ?thesis by simp
  next
    case (Some x)
    with step TRotate e H have "t' = TReuse (rt_FamilyID rt)" "st_v20 s' = v'" by (auto simp: refresh_rotate_def)
    moreover have "v' = st_v20 s"
      using e Some by (auto simp: RevokeRefreshToken_def Let_def split: option.splits if_splits)
    ultimately show ?thesis using ok by (simp add: sys_ok_task)
  qed
next
  case (TRefreshMint rt inp)
  obtain inp1 s1 where e: "refresh_session d rt inp s = (inp1, s1)" by (cases "refresh_session d rt inp s")
  then have "st_v20 s1 = st_v20 s" "\<exists>sid. inp1 = inp\<lparr>mi_SessionID := sid\<rparr>"
    using session_v20(2) [of d rt inp s] by (auto simp: refresh_session_def split: prod.splits)
  then show ?thesis
    using step TRefreshMint e d by (auto intro: sys_ok_prepared [OF ok H])
next
  case (TInsert inp row resp)
  with step have "t' = TFinish inp row resp" "st_v20 s' = InsertRefreshToken row (st_v20 s)"
    by (auto simp: mint_insert_def)
  with sys_ok_insert [OF ok TInsert] show ?thesis by simp
next
  case (TFinish inp row resp)
  from step TFinish obtain r where m: "mint_finish p cfg d inp row resp s = (r, s')" "t' = TDone r"
    by (auto split: prod.splits)
  moreover have "st_v20 s' = st_v20 s" using mint_finish_v20 [of p cfg d inp row resp s] unfolding m by simp
  ultimately show ?thesis using ok by (simp add: sys_ok_task)
next
  case (TDone r)
  with step ok show ?thesis by (auto intro: sys_ok_task)
qed

lemma RevokeToken_ok:
  assumes ok: "sys_ok H (st_v20 s) ts" and env: "\<And>a. au_v20 (env a) = au_v20 a"
  shows "sys_ok H (st_v20 (snd (RevokeToken p env cfg d token hint clientID secret s))) ts"
proof -
  obtain r a where a: "AuthenticateClient (pm_auth p) env (dr_auth d) (dr_auth_put d) clientID secret (st_auth s) = (r, a)"
    by (cases "AuthenticateClient (pm_auth p) env (dr_auth d) (dr_auth_put d) clientID secret (st_auth s)")
  then have v: "au_v20 a = st_v20 s" by (cases rule: AuthenticateClient_cases) (auto simp: env)
  have access: "tok_part (st_v20 (revokeAccessToken p cfg d token c s1)) = tok_part (st_v20 s1)" for c s1
    by (auto simp: revokeAccessToken_def split: sum.splits)
  have opq: "tok_part (st_v20 (snd (revokeOpaqueAccessToken d h c s1))) = tok_part (st_v20 s1)" for h c s1
    by (auto simp: revokeOpaqueAccessToken_def purgeIntrospectCache_def RevokeOpaqueAccessToken_def tok_part_def
        set_v20_def Let_def split: sum.splits option.splits)
  have fam: "sys_ok H (st_v20 (revokeRefreshFamily d h c s1)) ts" if s1: "sys_ok H (st_v20 s1) ts" for h c s1
  proof -
    note D = sys_okD [OF s1]
    have "sys_ok H (RevokeRefreshTokenFamily (dr_store d) f x (st_v20 s1)) ts" for f x
      by (rule sys_ok_revoked [OF s1 only_revoked_ops(1) [OF D(1)] rs.rev_family_ok [OF D(1)]])
        (simp add: RevokeRefreshTokenFamily_def split: option.splits)
    with s1 show ?thesis by (auto simp: revokeRefreshFamily_def split: sum.splits)
  qed
  have s1: "sys_ok H (st_v20 (s\<lparr>st_auth := a\<rparr>)) ts" using ok v by simp
  have opq': "sys_ok H (st_v20 s2) ts" if "revokeOpaqueAccessToken d h c (s\<lparr>st_auth := a\<rparr>) = (b, s2)" for h c b s2
    using s1 sys_ok_cong [OF opq [of h c "s\<lparr>st_auth := a\<rparr>"]] that by simp
  show ?thesis
    using s1 a opq' fam sys_ok_cong [OF access [of _ "s\<lparr>st_auth := a\<rparr>"]]
    by (auto simp: RevokeToken_def Let_def split: sum.splits prod.splits bool.splits)
qed

lemma sys_run_ok: "sys_run H cfg s ts \<Longrightarrow> sys_ok H (st_v20 s) ts"
proof (induction rule: sys_run.induct)
  case (start s r)
  then show ?case
    by (intro sys_okI) (auto simp: ensureV20_def tokens_ok_def rows_ok_def token_row_def uniq_def live_of_def gm_read_def)
next
  case (arrive s ts i r t req)
  then show ?case by (intro sys_ok_task) auto
next
  case (step s ts p env d i t s')
  then show ?case by (intro sys_ok_task_step [OF step.IH]) auto
next
  case (issue s ts c now)
  then show ?case by (simp add: sys_ok_issue)
next
  case (revoke s ts env p d token hint clientID secret)
  then show ?case by (intro RevokeToken_ok)
next
  case (other s ts s')
  then show ?case using sys_ok_cong by blast
qed

text \<open>A handler that runs alone from start to end is such a run, for new random values.\<close>

fun early :: "task \<Rightarrow> bool" where
  "early (TExchange req) = True"
| "early (TConsume req client) = True"
| "early (TExchangeMint req inp) = True"
| "early (TRefresh req) = True"
| "early (TLookup req client) = True"
| "early (TRotate req rt inp) = True"
| "early (TRefreshMint rt inp) = True"
| "early _ = False"

lemma fresh_draws_step:
  assumes ok: "sys_ok H (st_v20 s) ts" and H: "ap_digest (pm_auth p) = H"
    and env: "\<And>a. au_v20 (env a) = au_v20 a" and d: "fresh_draws H (st_v20 s) ts d"
    and step: "task_step p env cfg d (ts i) s = (t', s')" and e: "early (ts i)" "early t'"
  shows "fresh_draws H (st_v20 s') (ts(i := t')) d"
proof -
  have rows: "only_revoked (token_row (st_v20 s)) (token_row (st_v20 s'))
      \<and> (fam_of t' = None \<or> (\<exists>h r. token_row (st_v20 s) h = Some r \<and> fam_of t' = Some (rt_FamilyID r)))"
  proof (cases "ts i")
    case (TExchange req)
    obtain r s1 where a: "authenticate p env d req s = (r, s1)" by (cases "authenticate p env d req s")
    from step TExchange a have "s' = s1" "fam_of t' = None"
      by (auto simp: exchange_auth_def split: sum.splits if_splits)
    then show ?thesis using authenticate_v20 [OF a env] by (simp add: only_revoked_def)
  next
    case (TRefresh req)
    obtain r s1 where a: "authenticate p env d req s = (r, s1)" by (cases "authenticate p env d req s")
    from step TRefresh a have "s' = s1" "fam_of t' = None"
      by (auto simp: refresh_auth_def split: sum.splits if_splits)
    then show ?thesis using authenticate_v20 [OF a env] by (simp add: only_revoked_def)
  next
    case (TConsume req client)
    with step e(2) show ?thesis
      by (auto simp: exchange_consume_def ConsumeAuthorizationCode_def only_revoked_def token_row_def
          split: option.splits sum.splits)
  next
    case (TExchangeMint req inp)
    with step e(2) show ?thesis by (auto simp: prepared_def split: prod.splits sum.splits)
  next
    case (TLookup req client)
    with step show ?thesis by (auto simp: only_revoked_def split: sum.splits if_splits)
  next
    case (TRotate req rt inp)
    obtain x v' where x: "RevokeRefreshToken (dr_store d) (H (rq_RefreshToken req)) ''rotated'' (st_v20 s) = (x, v')"
      by (cases "RevokeRefreshToken (dr_store d) (H (rq_RefreshToken req)) ''rotated'' (st_v20 s)")
    with step TRotate e(2) H have "st_v20 s' = v'" "t' = TRefreshMint rt inp"
      by (auto simp: refresh_rotate_def split: option.splits)
    moreover have "only_revoked (token_row (st_v20 s)) (token_row v')"
      using only_revoked_ops(3) [of "st_v20 s" "dr_store d" "H (rq_RefreshToken req)" "''rotated''"] x by simp
    ultimately show ?thesis using sys_okD(6) [OF ok, of i] TRotate by auto
  next
    case (TRefreshMint rt inp)
    with step e(2) show ?thesis by (auto simp: prepared_def split: prod.splits sum.splits)
  qed (use e(1) in auto)
  have "rt_FamilyID r \<noteq> dr_family d" if "token_row (st_v20 s') h = Some r" for h r
    using only_revokedE [OF conjunct1 [OF rows] that] d unfolding fresh_draws_def by metis
  moreover have "fam_of t' \<noteq> Some (dr_family d)"
    using rows d unfolding fresh_draws_def by auto
  moreover have "hash_of t' = None" using e(2) by (cases t') auto
  ultimately show ?thesis
    using d only_revoked_None [OF conjunct1 [OF rows]] unfolding fresh_draws_def by auto
qed

lemma sys_run_task_run:
  assumes "sys_run H cfg s (ts(i := t))" and "ap_digest (pm_auth p) = H"
    and "\<And>a. au_v20 (env a) = au_v20 a" and "early t \<Longrightarrow> fresh_draws H (st_v20 s) (ts(i := t)) d"
    and "task_run n p env cfg d t s = (t', s')"
  shows "sys_run H cfg s' (ts(i := t'))"
  using assms
proof (induction n arbitrary: t s)
  case 0
  then show ?case by auto
next
  case (Suc n)
  obtain t1 s1 where st: "task_step p env cfg d t s = (t1, s1)" by (cases "task_step p env cfg d t s")
  have "mints t \<Longrightarrow> early t" by (cases t) auto
  then have run: "sys_run H cfg s1 (ts(i := t1))"
    using sys_run.step [OF Suc.prems(1-3), where d = d and i = i and t = t1 and s' = s1] Suc.prems(4) st
    by (simp only: fun_upd_upd fun_upd_same) blast
  have "fresh_draws H (st_v20 s1) (ts(i := t1)) d" if e1: "early t1"
  proof -
    have e: "early t" using st e1 by (cases t) (auto split: prod.splits)
    from fresh_draws_step [OF sys_run_ok [OF Suc.prems(1)] Suc.prems(2,3) Suc.prems(4) [OF e], where cfg = cfg and i = i and t' = t1 and s' = s1] st e e1
    show ?thesis by (simp only: fun_upd_upd fun_upd_same)
  qed
  moreover have "task_run n p env cfg d t1 s1 = (t', s')" using Suc.prems(5) st by simp
  ultimately show ?case by (intro Suc.IH [OF run Suc.prems(2,3)])
qed

lemma sys_run_handlers:
  assumes run: "sys_run H cfg s ts" and i: "ts i = TDone x" and H: "ap_digest (pm_auth p) = H"
    and env: "\<And>a. au_v20 (env a) = au_v20 a" and d: "fresh_draws H (st_v20 s) ts d"
  shows "sys_run H cfg (snd (ExchangeAuthorizationCode p env cfg d req s))
      (ts(i := TDone (fst (ExchangeAuthorizationCode p env cfg d req s))))"
    and "sys_run H cfg (snd (RefreshAccessToken p env cfg d req s))
      (ts(i := TDone (fst (RefreshAccessToken p env cfg d req s))))"
proof -
  have fresh: "fresh_draws H (st_v20 s) (ts(i := t)) d" if "t = TExchange req \<or> t = TRefresh req" for t
    using d that unfolding fresh_draws_def by auto
  have arr: "sys_run H cfg s (ts(i := t))" if "t = TExchange req \<or> t = TRefresh req" for t
    by (rule sys_run.arrive [OF run i that])
  show "sys_run H cfg (snd (ExchangeAuthorizationCode p env cfg d req s))
      (ts(i := TDone (fst (ExchangeAuthorizationCode p env cfg d req s))))"
    by (rule sys_run_task_run [OF arr H env fresh, where n = 5 and t = "TExchange req"])
      (simp_all add: task_run_handlers split: prod.splits)
  show "sys_run H cfg (snd (RefreshAccessToken p env cfg d req s))
      (ts(i := TDone (fst (RefreshAccessToken p env cfg d req s))))"
    by (rule sys_run_task_run [OF arr H env fresh, where n = 6 and t = "TRefresh req"])
      (simp_all add: task_run_handlers split: prod.splits)
qed

end
