(* ===== verification/AsTokenProps.thy ===== *)
theory AsTokenProps
  imports AsTokenRuns
begin

text \<open>
  What the token endpoint promises: codes are redeemed once and under their conditions, refresh
  tokens rotate without widening the grant, a replayed token takes its family down, the expiry a
  user put on a grant caps every token minted from it, and clients cannot revoke each other's tokens.
\<close>

section \<open>Redemption\<close>

lemma mintAccessAndRefresh_Inr:
  assumes "mintAccessAndRefresh p cfg d inp s = (Inr resp, s')"
  obtains tok row where "dr_token d = Some tok" "tr_RefreshToken resp = withGrantExpiry tok (mi_GrantExpiry inp)"
    "row = mint_row p cfg d (tr_RefreshToken resp) inp"
    "dr_mint d < capped (mi_GrantExpiry inp) (dr_mint d + cf_AccessTokenTTL cfg)"
    "tr_ExpiresIn resp = time_sub (capped (mi_GrantExpiry inp) (dr_mint d + cf_AccessTokenTTL cfg)) (dr_mint d) div second"
    "tok_part (st_v20 s') = tok_part (InsertRefreshToken row (st_v20 s))"
proof -
  obtain row r1 s1 where m: "mint_prepare p cfg d inp s = (Inr (row, r1), s1)"
    and f: "mint_finish p cfg d inp row r1 (mint_insert row s1) = (Inr resp, s')"
    using assms by (auto simp: mintAccessAndRefresh_def split: prod.splits sum.splits)
  have v: "st_v20 s' = InsertRefreshToken row (st_v20 s1)"
    using mint_finish_v20 [of p cfg d inp row r1 "mint_insert row s1"] unfolding f by (simp add: mint_insert_def)
  have t: "tok_part (st_v20 s1) = tok_part (st_v20 s)" using mint_prepare_tok [of p cfg d inp s] m by simp
  have "tr_RefreshToken resp = tr_RefreshToken r1" "tr_ExpiresIn resp = tr_ExpiresIn r1"
    using f by (auto simp: mint_finish_def Let_def split: option.splits sum.splits if_splits)
  moreover from m obtain tok where "dr_token d = Some tok"
    "row = mint_row p cfg d (withGrantExpiry tok (mi_GrantExpiry inp)) inp"
    "tr_RefreshToken r1 = withGrantExpiry tok (mi_GrantExpiry inp)" by (rule mint_prepare_row)
  moreover have "dr_mint d < capped (mi_GrantExpiry inp) (dr_mint d + cf_AccessTokenTTL cfg)"
    "tr_ExpiresIn r1 = time_sub (capped (mi_GrantExpiry inp) (dr_mint d + cf_AccessTokenTTL cfg)) (dr_mint d) div second"
    using m by (auto simp: mint_prepare_def Let_def split: if_splits sum.splits prod.splits option.splits)
  moreover have "tok_part (st_v20 s') = tok_part (InsertRefreshToken row (st_v20 s))"
    using t unfolding v by (simp add: tok_part_def InsertRefreshToken_def Let_def)
  ultimately show thesis using that by metis
qed

lemma ExchangeAuthorizationCode_Inr:
  assumes "ExchangeAuthorizationCode p env cfg d req s = (Inr resp, s')" and "\<And>a. au_v20 (env a) = au_v20 a"
  obtains client s1 c inp inp' s2 where "authenticate p env d req s = (Inr client, s1)" "st_v20 s1 = st_v20 s"
    "rq_Code req \<noteq> []" "rq_CodeVerifier req \<noteq> []"
    "gm_get (v_authzCodes (st_v20 s)) (codeStorageKey p (rq_Code req)) = Some c"
    "exchange_check p cfg d req client c = Inr inp" "\<exists>sid. inp' = inp\<lparr>mi_SessionID := sid\<rparr>"
    "st_v20 s2 = (st_v20 s)\<lparr>v_authzCodes := gm_del (codeStorageKey p (rq_Code req)) (v_authzCodes (st_v20 s))\<rparr>"
    "mintAccessAndRefresh p cfg d inp' s2 = (Inr resp, s')"
proof -
  obtain client s1 where a: "authenticate p env d req s = (Inr client, s1)" "exchange_auth p env d req s = (Inr client, s1)"
    "rq_Code req \<noteq> []" "rq_CodeVerifier req \<noteq> []"
    using assms(1) by (auto simp: ExchangeAuthorizationCode_def exchange_auth_def split: prod.splits sum.splits if_splits)
  note v1 = authenticate_v20 [OF a(1) assms(2)]
  obtain c s2 inp where c: "exchange_consume p req s1 = (Inr c, s2)" "exchange_check p cfg d req client c = Inr inp"
    "(case exchange_session p d req inp s2 of (inp, s) \<Rightarrow> mintAccessAndRefresh p cfg d inp s) = (Inr resp, s')"
    using assms(1) a(2) by (auto simp: ExchangeAuthorizationCode_def split: prod.splits sum.splits)
  obtain inp' s3 where e: "exchange_session p d req inp s2 = (inp', s3)" by (cases "exchange_session p d req inp s2")
  have "st_v20 s3 = st_v20 s2" using session_v20(1) [of p d req inp s2] e by simp
  moreover have "gm_get (v_authzCodes (st_v20 s)) (codeStorageKey p (rq_Code req)) = Some c"
    "st_v20 s2 = (st_v20 s)\<lparr>v_authzCodes := gm_del (codeStorageKey p (rq_Code req)) (v_authzCodes (st_v20 s))\<rparr>"
    using c(1) v1 by (auto simp: exchange_consume_def ConsumeAuthorizationCode_def split: option.splits)
  moreover have "\<exists>sid. inp' = inp\<lparr>mi_SessionID := sid\<rparr>"
    using e by (auto simp: exchange_session_def split: prod.splits)
  ultimately show thesis using that [of client s1 c inp inp' s3] a v1 c e by simp
qed

lemma ExchangeAuthorizationCode_gone:
  assumes env: "\<And>a. au_v20 (env a) = au_v20 a"
    and "gm_get (v_authzCodes (st_v20 s)) (codeStorageKey p (rq_Code req)) = None"
  shows "isl (fst (ExchangeAuthorizationCode p env cfg d req s))"
proof (cases "fst (ExchangeAuthorizationCode p env cfg d req s)")
  case (Inr resp)
  then have "ExchangeAuthorizationCode p env cfg d req s = (Inr resp, snd (ExchangeAuthorizationCode p env cfg d req s))"
    by (metis prod.collapse)
  then show ?thesis by (rule ExchangeAuthorizationCode_Inr [OF _ env]) (use assms(2) in simp)
qed simp

text \<open>C2: a code is redeemed only under its conditions, and then it is spent. When redemption succeeds,
  the code was stored and not expired, the authenticated client is the one it was issued to, the
  redirect URI is that of the authorization request (or differs from it in the port of a loopback
  address, where that is enabled), the method is S256 and the presented verifier hashes to the stored
  challenge. The refresh token handed out is stored for that client, user, scope, audience and
  authentication, tied to the code, and the code is gone: presenting it again fails, whoever presents
  it and with whatever verifier.
\<close>

theorem code_redemption:
  assumes "ExchangeAuthorizationCode p env cfg d req s = (Inr resp, s')" and "\<And>a. au_v20 (env a) = au_v20 a"
    and "tokens_ok (st_v20 s)" and "token_row (st_v20 s) (HashToken p (tr_RefreshToken resp)) = None"
  shows "\<exists>c client row. gm_get (v_authzCodes (st_v20 s)) (codeStorageKey p (rq_Code req)) = Some c
    \<and> fst (authenticate p env d req s) = Inr client \<and> ac_ClientID c = oc_ClientID client
    \<and> dr_check d < ac_ExpiresAt c
    \<and> (rq_RedirectURI req = ac_RedirectURI c \<or> cc_LoopbackAnyPort (cf_ClientCompat cfg)
         \<and> loopbackEquivalent (ap_parse (pm_auth p)) cfg (rq_RedirectURI req) (ac_RedirectURI c))
    \<and> ac_CodeChallengeMethod c = ''S256'' \<and> pm_challenge p (rq_CodeVerifier req) = ac_CodeChallenge c
    \<and> RefreshTokenByHash (HashToken p (tr_RefreshToken resp)) (st_v20 s') = Inr row
    \<and> rt_RevokedAt row = None \<and> rt_ClientID row = oc_ClientID client \<and> rt_UserID row = Some (ac_UserID c)
    \<and> rt_Scope row = ac_Scope c \<and> rt_AuthCodeHash row = codeStorageKey p (rq_Code req)
    \<and> (\<exists>res. resolveResource (ap_parse (pm_auth p)) cfg (ac_Resource c) = Inr (res, rt_Resource row))
    \<and> rt_AuthTime row = ac_AuthTime c \<and> rt_ACR row = ac_ACR c \<and> rt_AMR row = ac_AMR c
    \<and> (\<forall>cfg' d' req'. rq_Code req' = rq_Code req \<longrightarrow>
         isl (fst (ExchangeAuthorizationCode p env cfg' d' req' s')))"
proof -
  obtain client s1 c inp inp' s2 where a: "authenticate p env d req s = (Inr client, s1)"
    and c: "gm_get (v_authzCodes (st_v20 s)) (codeStorageKey p (rq_Code req)) = Some c"
    and chk: "exchange_check p cfg d req client c = Inr inp" and inp': "\<exists>sid. inp' = inp\<lparr>mi_SessionID := sid\<rparr>"
    and s2: "st_v20 s2 = (st_v20 s)\<lparr>v_authzCodes := gm_del (codeStorageKey p (rq_Code req)) (v_authzCodes (st_v20 s))\<rparr>"
    and m: "mintAccessAndRefresh p cfg d inp' s2 = (Inr resp, s')"
    by (rule ExchangeAuthorizationCode_Inr [OF assms(1,2)])
  note chk' = exchange_check_Inr [OF chk]
  from m obtain row where row: "row = mint_row p cfg d (tr_RefreshToken resp) inp'"
    and tp: "tok_part (st_v20 s') = tok_part (InsertRefreshToken row (st_v20 s2))"
    by (rule mintAccessAndRefresh_Inr) metis
  have s2_ok: "tokens_ok (st_v20 s2)" "token_row (st_v20 s2) = token_row (st_v20 s)"
    using assms(3) by (auto simp: s2 tokens_ok_def token_row_def fun_eq_iff)
  have h: "rt_Hash row = HashToken p (tr_RefreshToken resp)" by (simp add: row mint_row_def)
  have ok: "tokens_ok (st_v20 s')" and tr: "token_row (st_v20 s') (rt_Hash row) = Some row"
    using tok_part_cong(1,2) [OF tp] rs.ins_ok [OF s2_ok(1), of row] assms(4) s2_ok(2) h by (simp_all add: rs.ins_row)
  have "RefreshTokenByHash (HashToken p (tr_RefreshToken resp)) (st_v20 s') = Inr row"
    using tr by (simp add: rs.by_hash_row [OF ok] h)
  moreover have "gm_get (v_authzCodes (st_v20 s')) (codeStorageKey p (rq_Code req)) = None"
    using tok_part_cong(3) [OF tp] by (simp add: InsertRefreshToken_def Let_def s2)
  then have "isl (fst (ExchangeAuthorizationCode p env cfg' d' req' s'))" if "rq_Code req' = rq_Code req" for cfg' d' req'
    using ExchangeAuthorizationCode_gone [OF assms(2), of s' p req' cfg' d'] that by simp
  moreover have "rt_RevokedAt row = None" "rt_ClientID row = oc_ClientID client" "rt_UserID row = Some (ac_UserID c)"
    "rt_Scope row = ac_Scope c" "rt_AuthCodeHash row = codeStorageKey p (rq_Code req)"
    "rt_Resource row = mi_Resource inp" "rt_AuthTime row = ac_AuthTime c" "rt_ACR row = ac_ACR c" "rt_AMR row = ac_AMR c"
    using chk' inp' by (auto simp: row mint_row_def)
  ultimately show ?thesis using c a chk' by (metis fst_conv)
qed

section \<open>Rotation\<close>

text \<open>C3: over every interleaving of requests a rotation family has at most one refresh token that is not
  revoked, and that token never exceeds any token the family ever had: it belongs to the same client
  and user, names the same resource and the same authentication, has no scope that the other lacks,
  and is bound to the same DPoP key if the other is bound.
\<close>

theorem refresh_family:
  assumes "sys_run H cfg s ts"
    and "RefreshTokenByHash h (st_v20 s) = Inr r" and "RefreshTokenByHash h' (st_v20 s) = Inr r'"
    and "rt_FamilyID r = rt_FamilyID r'" and "rt_RevokedAt r' = None"
  shows "covers r r' \<and> (rt_RevokedAt r = None \<longrightarrow> h = h')"
proof -
  have ok: "tokens_ok (st_v20 s)" "rows_ok (token_row (st_v20 s))" using sys_okD(1,2) [OF sys_run_ok [OF assms(1)]] .
  have "token_row (st_v20 s) h = Some r" "token_row (st_v20 s) h' = Some r'"
    using assms(2,3) by (simp_all add: rs.by_hash_row [OF ok(1)] split: option.splits)
  from rows_okD(1,2) [OF ok(2) this assms(4,5)] show ?thesis by blast
qed

text \<open>C8: over every interleaving of requests an authorization code yields at most one refresh token.
  Two stored tokens of one code are the same token, and while a code is still stored nothing has been
  minted from it.
\<close>

theorem code_redeemed_once:
  assumes "sys_run H cfg s ts" and "RefreshTokenByHash h (st_v20 s) = Inr r" and "rt_AuthCodeHash r \<noteq> []"
  shows "gm_get (v_authzCodes (st_v20 s)) (rt_AuthCodeHash r) = None
    \<and> (\<forall>h' r'. RefreshTokenByHash h' (st_v20 s) = Inr r' \<and> rt_AuthCodeHash r' = rt_AuthCodeHash r \<longrightarrow> h' = h)"
proof -
  note D = sys_okD [OF sys_run_ok [OF assms(1)]]
  have row: "token_row (st_v20 s) h = Some r \<longleftrightarrow> RefreshTokenByHash h (st_v20 s) = Inr r" for h r
    by (simp add: rs.by_hash_row [OF D(1)] split: option.splits)
  from assms(2) have r: "token_row (st_v20 s) h = Some r" by (simp add: row)
  have "gm_get (v_authzCodes (st_v20 s)) (rt_AuthCodeHash r) = None"
    using D(11) [OF _ r] by (cases "gm_get (v_authzCodes (st_v20 s)) (rt_AuthCodeHash r)") auto
  moreover have "h' = h" if "RefreshTokenByHash h' (st_v20 s) = Inr r'" "rt_AuthCodeHash r' = rt_AuthCodeHash r" for h' r'
    using rows_okD(3) [OF D(2) r, of h' r'] that assms(3) by (simp add: row)
  ultimately show ?thesis by blast
qed

text \<open>C9: presenting a refresh token that was already revoked is refused and takes the whole family down:
  afterwards no token of the family is live, and no token of any other family has changed.
\<close>

theorem refresh_reuse_detected:
  assumes "tokens_ok (st_v20 s)" and "\<And>a. au_v20 (env a) = au_v20 a" and "rq_RefreshToken req \<noteq> []"
    and "RefreshTokenByHash (HashToken p (rq_RefreshToken req)) (st_v20 s) = Inr r" and "rt_RevokedAt r \<noteq> None"
    and "fst (authenticate p env d req s) = Inr client" and "rt_ClientID r = oc_ClientID client"
    and "RefreshAccessToken p env cfg d req s = (res, s')"
  shows "res = Inl ErrOAuthInvalidGrant
    \<and> (\<forall>h x. RefreshTokenByHash h (st_v20 s') = Inr x \<and> rt_FamilyID x = rt_FamilyID r \<longrightarrow> rt_RevokedAt x \<noteq> None)
    \<and> (\<forall>h x. RefreshTokenByHash h (st_v20 s) = Inr x \<and> rt_FamilyID x \<noteq> rt_FamilyID r \<longrightarrow>
         RefreshTokenByHash h (st_v20 s') = Inr x)"
proof -
  obtain s1 where a: "authenticate p env d req s = (Inr client, s1)"
    using assms(6) by (cases "authenticate p env d req s") auto
  have v: "st_v20 s1 = st_v20 s" by (rule authenticate_v20 [OF a assms(2)])
  have "refresh_lookup p req client s1 = Inr r" using assms(4,7) by (simp add: refresh_lookup_def v)
  then have res: "res = Inl ErrOAuthInvalidGrant" "s' = refresh_reuse d (rt_FamilyID r) s1"
    using assms(3,5,8) a by (auto simp: RefreshAccessToken_def refresh_auth_def)
  then have v': "st_v20 s' = RevokeRefreshTokenFamily (dr_store d) (rt_FamilyID r) ''reuse detected'' (st_v20 s)"
    by (simp add: refresh_reuse_def v)
  have ok: "tokens_ok (st_v20 s')" unfolding v' using assms(1) by (rule rs.rev_family_ok)
  have rows: "token_row (st_v20 s') h = (case token_row (st_v20 s) h of None \<Rightarrow> None
      | Some t \<Rightarrow> Some (if rt_FamilyID t = rt_FamilyID r then revoke_row (dr_store d) ''reuse detected'' t else t))" for h
    unfolding v' by (rule rs.rev_family_row [OF assms(1)])
  show ?thesis
    using res(1) by (auto simp: rs.by_hash_row [OF ok] rs.by_hash_row [OF assms(1)] rows split: option.splits if_splits)
qed

section \<open>Grant expiry\<close>

lemma ParseInt_range: "ParseInt t = Some n \<Longrightarrow> n \<le> max_i64"
  by (auto simp: ParseInt_def Let_def split: prod.splits option.splits if_splits)

lemma splitGrantExpiry_carried:
  assumes "0 < splitGrantExpiry tok" shows "carried_expiry (splitGrantExpiry tok)"
proof -
  obtain n where n: "splitGrantExpiry tok = time_Unix n" "0 < n" "n \<le> max_i64"
    using assms ParseInt_range by (auto simp: splitGrantExpiry_def split: option.splits if_splits)
  have "n + unix_offset \<le> max_i64"
  proof (rule ccontr)
    assume "\<not> n + unix_offset \<le> max_i64"
    then have "(n + unix_offset + 2 ^ 63) mod 2 ^ 64 = n + unix_offset + 2 ^ 63 - 2 ^ 64"
      using n(2,3) by (intro int_mod_pos_eq [where q = 1]) (simp_all add: max_i64_def unix_offset_def)
    then have "i64 (n + unix_offset) = n + unix_offset - 2 ^ 64" by (simp add: i64_def)
    with assms n show False by (simp add: time_Unix_def max_i64_def unix_offset_def)
  qed
  with n(2) have "i64 (n + unix_offset) = n + unix_offset"
    by (intro i64_id) (simp_all add: min_i64_def unix_offset_def)
  then show ?thesis using n(1,2) \<open>n + unix_offset \<le> max_i64\<close>
    by (simp add: carried_expiry_def time_Unix_def to_Unix_def)
qed

lemma mint_grant_expiry:
  assumes m: "mintAccessAndRefresh p cfg d inp s = (Inr resp, s')" and g: "mi_GrantExpiry inp = splitGrantExpiry tok0"
    and nz: "\<not> IsZero (splitGrantExpiry tok0)" and now: "0 \<le> dr_mint d"
    and tok: "\<And>tok. dr_token d = Some tok \<Longrightarrow> grantExpirySep \<notin> set tok"
  shows "splitGrantExpiry (tr_RefreshToken resp) = splitGrantExpiry tok0"
    and "dr_mint d + tr_ExpiresIn resp * second \<le> splitGrantExpiry tok0"
    and "\<exists>row. rt_Hash row = HashToken p (tr_RefreshToken resp) \<and> rt_ExpiresAt row \<le> splitGrantExpiry tok0
      \<and> token_row (st_v20 s') (rt_Hash row) = Some row"
proof -
  let ?g = "splitGrantExpiry tok0"
  from m obtain t row where r: "dr_token d = Some t" "tr_RefreshToken resp = withGrantExpiry t ?g"
    "row = mint_row p cfg d (tr_RefreshToken resp) inp"
    "dr_mint d < capped ?g (dr_mint d + cf_AccessTokenTTL cfg)"
    "tr_ExpiresIn resp = time_sub (capped ?g (dr_mint d + cf_AccessTokenTTL cfg)) (dr_mint d) div second"
    "tok_part (st_v20 s') = tok_part (InsertRefreshToken row (st_v20 s))"
    by (rule mintAccessAndRefresh_Inr) (simp add: g)
  have le: "capped ?g x \<le> ?g" for x using nz by (simp add: capped_def)
  then have "0 < ?g" using r(4) now by (meson less_le_trans le_less_trans)
  then have "carried_expiry ?g" by (rule splitGrantExpiry_carried)
  with tok [OF r(1)] r(2) show "splitGrantExpiry (tr_RefreshToken resp) = ?g" by (simp add: split_with_expiry)
  have "time_sub (capped ?g x) (dr_mint d) \<le> ?g - dr_mint d" if "dr_mint d < capped ?g x" for x
    using le [of x] that by (auto simp: time_sub_def max_i64_def min_i64_def)
  moreover have "x div second * second \<le> x" for x :: int by presburger
  ultimately show "dr_mint d + tr_ExpiresIn resp * second \<le> ?g"
    unfolding r(5) using r(4) by (smt (verit))
  have "rt_ExpiresAt row \<le> ?g" using le by (simp add: r(3) mint_row_def g)
  moreover have "token_row (st_v20 s') (rt_Hash row) = Some row"
    using tok_part_cong(2) [OF r(6)] by (simp add: rs.ins_row)
  ultimately show "\<exists>row. rt_Hash row = HashToken p (tr_RefreshToken resp) \<and> rt_ExpiresAt row \<le> ?g
      \<and> token_row (st_v20 s') (rt_Hash row) = Some row"
    by (intro exI [of _ row]) (simp add: r(3) mint_row_def)
qed

lemma RefreshAccessToken_Inr:
  assumes "RefreshAccessToken p env cfg d req s = (Inr resp, s')" and "\<And>a. au_v20 (env a) = au_v20 a"
  obtains client s1 r inp inp' s2 where "authenticate p env d req s = (Inr client, s1)" "st_v20 s1 = st_v20 s"
    "refresh_lookup p req client s1 = Inr r" "rt_RevokedAt r = None" "refresh_check p cfg d req client r = Inr inp"
    "\<exists>sid. inp' = inp\<lparr>mi_SessionID := sid\<rparr>"
    "RevokeRefreshToken (dr_store d) (HashToken p (rq_RefreshToken req)) ''rotated'' (st_v20 s) = (None, st_v20 s2)"
    "mintAccessAndRefresh p cfg d inp' s2 = (Inr resp, s')"
proof -
  obtain client s1 where a: "authenticate p env d req s = (Inr client, s1)" "refresh_auth p env d req s = (Inr client, s1)"
    using assms(1) by (auto simp: RefreshAccessToken_def refresh_auth_def split: prod.splits sum.splits if_splits)
  note v1 = authenticate_v20 [OF a(1) assms(2)]
  obtain r inp s2 where c: "refresh_lookup p req client s1 = Inr r" "rt_RevokedAt r = None"
    "refresh_check p cfg d req client r = Inr inp" "refresh_rotate p d req s1 = (None, s2)"
    "(case refresh_session d r inp s2 of (inp, s) \<Rightarrow> mintAccessAndRefresh p cfg d inp s) = (Inr resp, s')"
    using assms(1) a(2) by (auto simp: RefreshAccessToken_def split: prod.splits sum.splits if_splits option.splits)
  obtain inp' s3 where e: "refresh_session d r inp s2 = (inp', s3)" by (cases "refresh_session d r inp s2")
  have "st_v20 s3 = st_v20 s2" using session_v20(2) [of d r inp s2] e by simp
  moreover have "\<exists>sid. inp' = inp\<lparr>mi_SessionID := sid\<rparr>"
    using e by (auto simp: refresh_session_def split: prod.splits)
  moreover have "RevokeRefreshToken (dr_store d) (HashToken p (rq_RefreshToken req)) ''rotated'' (st_v20 s) = (None, st_v20 s2)"
    using c(4) v1 by (auto simp: refresh_rotate_def split: prod.splits)
  ultimately show thesis using that [of client s1 r inp inp' s3] a v1 c e by simp
qed


section \<open>Revocation\<close>


section \<open>A run\<close>

text \<open>
  A public client redeems a code whose grant ends 1500 seconds after 1970, rotates the refresh token
  and presents the old one again. Hashes are the texts themselves.
\<close>

definition ex_code :: AuthorizationCode where
  "ex_code = \<lparr>ac_Code = codeStorageKey ex_tp ''k~1500'', ac_ClientID = ''cli'', ac_UserID = ''u'', ac_OrganizationID = None,
     ac_RedirectURI = ''cb'', ac_Scope = [''read'', ''write''], ac_Resource = ''api'', ac_CodeChallenge = ''v'',
     ac_CodeChallengeMethod = ''S256'', ac_Nonce = [], ac_AuthorizationDetails = [], ac_AuthTime = ex_now, ac_ACR = [],
     ac_AMR = [], ac_ExpiresAt = ex_now + minute, ac_CreatedAt = ex_now\<rparr>"

definition ex_as1 :: AsState where
  "ex_as1 = set_v20 (snd (InsertOAuthClient 1 (zero_OAuthClient\<lparr>oc_ClientID := ''cli'',
     oc_TokenEndpointAuthMethod := ClientAuthNone\<rparr>) (st_v20 ex_as0))) ex_as0"

definition ex_as2 :: AsState where
  "ex_as2 = set_v20 (InsertAuthorizationCode ex_now ex_code (st_v20 ex_as1)) ex_as1"

definition ex_req :: TokenRequest where
  "ex_req = \<lparr>rq_GrantType = [], rq_ClientID = ''cli'', rq_ClientSecret = [], rq_Code = ''k~1500'', rq_CodeVerifier = ''v'',
     rq_RedirectURI = ''cb'', rq_RefreshToken = ''t1~1500'', rq_Resource = [], rq_Scope = [''read''],
     rq_AuthorizationDetails = [], rq_DPoPProof = [], rq_HTTPMethod = [], rq_HTTPURL = [], rq_ClientAssertionType = [],
     rq_ClientAssertion = [], rq_Assertion = []\<rparr>"

definition ex_redeem :: "(as_error + TokenResponse) \<times> AsState" where
  "ex_redeem = ExchangeAuthorizationCode ex_tp (\<lambda>a. a) ex_cfg (ex_d ''t1'') ex_req ex_as2"

definition ex_rotated :: "(as_error + TokenResponse) \<times> AsState" where
  "ex_rotated = RefreshAccessToken ex_tp (\<lambda>a. a) ex_cfg (ex_d ''t2'') ex_req (snd ex_redeem)"

lemma ex_values:
  "(case ex_redeem of (Inl _, s) \<Rightarrow> False | (Inr x, s) \<Rightarrow>
      tr_RefreshToken x = ''t1~1500''
      \<and> gm_keys (v_refreshTokens (st_v20 s)) = [bytesHexKey ''t1~1500'']
      \<and> map (\<lambda>(k, r). (rt_FamilyID r, rt_AuthCodeHash r)) (v_refreshTokens (st_v20 s))
          = [(''ft1'', codeStorageKey ex_tp ''k~1500'')]
      \<and> (case RefreshAccessToken ex_tp (\<lambda>a. a) ex_cfg (ex_d ''t2'') ex_req s of (Inl _, s) \<Rightarrow> False | (Inr y, s) \<Rightarrow>
           (case RefreshTokenByHash ''t1~1500'' (st_v20 s) of Inl _ \<Rightarrow> False
               | Inr r \<Rightarrow> rt_RevokedAt r \<noteq> None \<and> rt_FamilyID r = ''ft1'' \<and> rt_ClientID r = ''cli'')
           \<and> (case RefreshTokenByHash ''t2~1500'' (st_v20 s) of Inl _ \<Rightarrow> False
               | Inr r \<Rightarrow> rt_RevokedAt r = None \<and> rt_FamilyID r = ''ft1'' \<and> rt_Scope r = [''read''])
           \<and> (case fst (authenticate ex_tp (\<lambda>a. a) (ex_d ''t3'') ex_req s) of Inl _ \<Rightarrow> False
               | Inr c \<Rightarrow> oc_ClientID c = ''cli'')
           \<and> v_opaque (st_v20 s) = []))"
  unfolding ex_redeem_def by code_simp

lemma ex_redeemD:
  obtains x r where "fst ex_redeem = Inr x" "tr_RefreshToken x = ''t1~1500''"
    "v_refreshTokens (st_v20 (snd ex_redeem)) = [(bytesHexKey ''t1~1500'', r)]"
    "rt_FamilyID r = ''ft1''" "rt_AuthCodeHash r = codeStorageKey ex_tp ''k~1500''"
  using that ex_values unfolding case_prod_unfold by (auto split: sum.splits)

lemma ex_rotatedD:
  obtains y r1 r2 c where "fst ex_rotated = Inr y" "RefreshTokenByHash ''t1~1500'' (st_v20 (snd ex_rotated)) = Inr r1"
    "rt_RevokedAt r1 \<noteq> None" "rt_FamilyID r1 = ''ft1''" "rt_ClientID r1 = ''cli''"
    "RefreshTokenByHash ''t2~1500'' (st_v20 (snd ex_rotated)) = Inr r2" "rt_RevokedAt r2 = None" "rt_FamilyID r2 = ''ft1''"
    "rt_Scope r2 = [''read'']"
    "fst (authenticate ex_tp (\<lambda>a. a) (ex_d ''t3'') ex_req (snd ex_rotated)) = Inr c" "oc_ClientID c = ''cli''"
    "v_opaque (st_v20 (snd ex_rotated)) = []"
  using that ex_values unfolding ex_rotated_def case_prod_unfold by (auto split: sum.splits)

text \<open>Both calls belong to a run.\<close>

lemma ex_run:
  obtains ts ts' where "sys_run (\<lambda>x. x) ex_cfg (snd ex_redeem) ts" and "sys_run (\<lambda>x. x) ex_cfg (snd ex_rotated) ts'"
proof -
  let ?H = "\<lambda>x :: string. x" and ?ts = "\<lambda>_ :: nat. TDone (Inl ErrOAuthInvalidGrant)"
  have H: "ap_digest (pm_auth ex_tp) = ?H" by (simp add: ex_tp_def)
  have run0: "sys_run ?H ex_cfg ex_as0 ?ts" by (rule sys_run.start) (simp add: ex_as0_def)
  have tp: "tok_part (st_v20 ex_as1) = tok_part (st_v20 ex_as0)" and nil: "v_refreshTokens (st_v20 ex_as1) = []"
    by (simp_all add: ex_as1_def ex_as0_def InsertOAuthClient_def tok_part_def ensureV20_def Let_def)
  have run1: "sys_run ?H ex_cfg ex_as1 ?ts" using run0 tp by (rule sys_run.other)
  have "ac_Code ex_code \<noteq> []" by code_simp
  then have run2: "sys_run ?H ex_cfg ex_as2 ?ts"
    unfolding ex_as2_def using nil by (intro sys_run.issue [OF run1]) (simp_all add: token_row_def)
  have "token_row (st_v20 ex_as2) h = None" for h
    using nil by (simp add: ex_as2_def InsertAuthorizationCode_def token_row_def Let_def)
  then have fresh2: "fresh_draws ?H (st_v20 ex_as2) ?ts (ex_d ''t1'')" by (simp add: fresh_draws_def)
  have run3: "sys_run ?H ex_cfg (snd ex_redeem) (?ts(0 := TDone (fst ex_redeem)))"
    unfolding ex_redeem_def by (rule sys_run_handlers(1) [OF run2 _ H _ fresh2]) simp_all
  obtain r where e: "v_refreshTokens (st_v20 (snd ex_redeem)) = [(bytesHexKey ''t1~1500'', r)]" "rt_FamilyID r = ''ft1''"
    by (rule ex_redeemD)
  have row: "token_row (st_v20 (snd ex_redeem)) h = (if h = ''t1~1500'' then Some r else None)" for h
    using e(1) by (auto simp: token_row_def bytesHexKey_inj)
  have "withGrantExpiry ''t2'' g \<noteq> ''t1~1500''" for g by (simp add: withGrantExpiry_def)
  then have fresh3: "fresh_draws ?H (st_v20 (snd ex_redeem)) (?ts(0 := TDone (fst ex_redeem))) (ex_d ''t2'')"
    unfolding fresh_draws_def row using e(2) by (auto simp: ex_d_def)
  have "sys_run ?H ex_cfg (snd ex_rotated) ((?ts(0 := TDone (fst ex_redeem)))(0 := TDone (fst ex_rotated)))"
    unfolding ex_rotated_def by (rule sys_run_handlers(2) [OF run3 _ H _ fresh3]) simp_all
  with run3 show thesis by (rule that)
qed

lemma ex_as2_ok: "tokens_ok (st_v20 ex_as2)" "token_row (st_v20 ex_as2) h = None"
proof -
  have "v_refreshTokens (st_v20 ex_as2) = []" "v_refreshTokensByF (st_v20 ex_as2) = []"
    by (simp_all add: ex_as2_def ex_as1_def ex_as0_def InsertAuthorizationCode_def InsertOAuthClient_def ensureV20_def Let_def)
  then show "tokens_ok (st_v20 ex_as2)" "token_row (st_v20 ex_as2) h = None"
    by (simp_all add: tokens_ok_def token_row_def gm_read_def)
qed

lemma ex_rotated_ok: "tokens_ok (st_v20 (snd ex_rotated))"
proof -
  obtain ts' where "sys_run (\<lambda>x. x) ex_cfg (snd ex_rotated) ts'" by (rule ex_run)
  then show ?thesis by (rule sys_okD(1) [OF sys_run_ok])
qed

theorem code_redemption_witness:
  "\<not> isl (fst ex_redeem)
   \<and> isl (fst (ExchangeAuthorizationCode ex_tp (\<lambda>a. a) ex_cfg (ex_d ''t3'') ex_req (snd ex_redeem)))"
proof -
  obtain x where e: "fst ex_redeem = Inr x" by (rule ex_redeemD)
  then have r: "ExchangeAuthorizationCode ex_tp (\<lambda>a. a) ex_cfg (ex_d ''t1'') ex_req ex_as2 = (Inr x, snd ex_redeem)"
    unfolding ex_redeem_def by (metis prod.collapse)
  from code_redemption [OF r _ ex_as2_ok] e show ?thesis by auto
qed

theorem refresh_family_witness:
  "\<exists>r r'. RefreshTokenByHash ''t1~1500'' (st_v20 (snd ex_rotated)) = Inr r
     \<and> RefreshTokenByHash ''t2~1500'' (st_v20 (snd ex_rotated)) = Inr r'
     \<and> rt_RevokedAt r \<noteq> None \<and> rt_RevokedAt r' = None \<and> covers r r' \<and> rt_Scope r' = [''read'']"
proof -
  obtain r1 r2 where e: "RefreshTokenByHash ''t1~1500'' (st_v20 (snd ex_rotated)) = Inr r1"
    "rt_RevokedAt r1 \<noteq> None" "rt_FamilyID r1 = ''ft1''" "RefreshTokenByHash ''t2~1500'' (st_v20 (snd ex_rotated)) = Inr r2"
    "rt_RevokedAt r2 = None" "rt_FamilyID r2 = ''ft1''" "rt_Scope r2 = [''read'']" by (rule ex_rotatedD)
  obtain ts' where "sys_run (\<lambda>x. x) ex_cfg (snd ex_rotated) ts'" by (rule ex_run)
  from refresh_family [OF this e(1,4)] e show ?thesis by auto
qed

theorem code_redeemed_once_witness:
  "\<exists>r. RefreshTokenByHash ''t1~1500'' (st_v20 (snd ex_redeem)) = Inr r
     \<and> rt_AuthCodeHash r = codeStorageKey ex_tp ''k~1500''
     \<and> gm_get (v_authzCodes (st_v20 (snd ex_redeem))) (codeStorageKey ex_tp ''k~1500'') = None"
proof -
  obtain r where e: "v_refreshTokens (st_v20 (snd ex_redeem)) = [(bytesHexKey ''t1~1500'', r)]"
    "rt_AuthCodeHash r = codeStorageKey ex_tp ''k~1500''" by (rule ex_redeemD)
  have k: "codeStorageKey ex_tp ''k~1500'' \<noteq> []" by code_simp
  have r: "RefreshTokenByHash ''t1~1500'' (st_v20 (snd ex_redeem)) = Inr r"
    using e(1) by (simp add: RefreshTokenByHash_def)
  obtain ts where "sys_run (\<lambda>x. x) ex_cfg (snd ex_redeem) ts" by (rule ex_run)
  from code_redeemed_once [OF this r] k e(2) r show ?thesis by auto
qed

theorem refresh_reuse_detected_witness:
  "fst (RefreshAccessToken ex_tp (\<lambda>a. a) ex_cfg (ex_d ''t3'') ex_req (snd ex_rotated)) = Inl ErrOAuthInvalidGrant
   \<and> (\<exists>r. RefreshTokenByHash ''t2~1500'' (st_v20 (snd ex_rotated)) = Inr r \<and> rt_RevokedAt r = None)
   \<and> (\<nexists>r. RefreshTokenByHash ''t2~1500'' (st_v20 (snd (RefreshAccessToken ex_tp (\<lambda>a. a) ex_cfg (ex_d ''t3'') ex_req
        (snd ex_rotated)))) = Inr r \<and> rt_FamilyID r = ''ft1'' \<and> rt_RevokedAt r = None)"
proof -
  obtain r1 r2 c where e: "RefreshTokenByHash ''t1~1500'' (st_v20 (snd ex_rotated)) = Inr r1"
    "rt_RevokedAt r1 \<noteq> None" "rt_FamilyID r1 = ''ft1''" "rt_ClientID r1 = ''cli''"
    "RefreshTokenByHash ''t2~1500'' (st_v20 (snd ex_rotated)) = Inr r2" "rt_RevokedAt r2 = None"
    "fst (authenticate ex_tp (\<lambda>a. a) (ex_d ''t3'') ex_req (snd ex_rotated)) = Inr c" "oc_ClientID c = ''cli''"
    by (rule ex_rotatedD)
  have h: "HashToken ex_tp (rq_RefreshToken ex_req) = ''t1~1500''" "rq_RefreshToken ex_req \<noteq> []"
    by (simp_all add: ex_req_def ex_tp_def)
  have row: "RefreshTokenByHash (HashToken ex_tp (rq_RefreshToken ex_req)) (st_v20 (snd ex_rotated)) = Inr r1"
    unfolding h by (rule e(1))
  have own: "rt_ClientID r1 = oc_ClientID c" using e(4,8) by simp
  from refresh_reuse_detected [OF ex_rotated_ok _ h(2) row e(2) e(7) own prod.collapse [symmetric], of ex_cfg] e
  show ?thesis by auto
qed



text \<open>
  Two refreshes of one token, interleaved: both read the row before either revokes it. The loser
  treats the lost revoke as reuse and revokes the family, but the winner has not inserted its
  successor yet, and inserts it afterwards: the family in which reuse was detected keeps a live token.
\<close>

definition ex_race :: "task \<times> task \<times> AsState" where
  "ex_race =
     (let r = task_run 2 ex_tp (\<lambda>a. a) ex_cfg (ex_d ''t2'') (TRefresh ex_req) (snd ex_redeem);
          q = task_run 2 ex_tp (\<lambda>a. a) ex_cfg (ex_d ''t3'') (TRefresh ex_req) (snd r);
          r = task_run 2 ex_tp (\<lambda>a. a) ex_cfg (ex_d ''t2'') (fst r) (snd q);
          q = task_run 2 ex_tp (\<lambda>a. a) ex_cfg (ex_d ''t3'') (fst q) (snd r);
          r = task_run 2 ex_tp (\<lambda>a. a) ex_cfg (ex_d ''t2'') (fst r) (snd q)
      in (fst r, fst q, snd r))"

lemma refresh_race_keeps_live_token:
  "(case ex_race of (winner, loser, s) \<Rightarrow>
      (case winner of TDone (Inr resp) \<Rightarrow> tr_RefreshToken resp = ''t2~1500'' | _ \<Rightarrow> False)
      \<and> (case loser of TDone (Inl e) \<Rightarrow> e = ErrOAuthInvalidGrant | _ \<Rightarrow> False)
      \<and> (case (RefreshTokenByHash ''t1~1500'' (st_v20 s), RefreshTokenByHash ''t2~1500'' (st_v20 s)) of
           (Inr old, Inr new) \<Rightarrow> rt_RevokedAt old \<noteq> None \<and> rt_FamilyID new = rt_FamilyID old \<and> rt_RevokedAt new = None
         | _ \<Rightarrow> False))"
  unfolding ex_race_def ex_redeem_def by code_simp

end
