(* ===== verification/JwksRuns.thy ===== *)
theory JwksRuns
  imports Jwks
begin

text \<open>
  Runs of the key service: what the snapshot answers in terms of the stored rows, the effect of minting
  and of a rotation on the rows, and the invariant that every algorithm in use has exactly one
  current and one next key.
\<close>

section \<open>Generated keys\<close>

text \<open>
  What the libraries promise about one draw: the JSON of a key reads back, decryption undoes
  encryption, and the private bytes belong to the drawn public key.
\<close>

definition draw_pair :: "key_lib \<Rightarrow> key_draw \<Rightarrow> string \<Rightarrow> bool" where
  "draw_pair lib d alg \<longleftrightarrow>
     (\<forall>j t. kl_jwk_json lib j = Some t \<longrightarrow> kl_jwk lib t = Some j)
   \<and> (\<forall>x e. kd_enc d x = Some e \<longrightarrow> kl_decrypt lib e = Some x)
   \<and> (alg = AlgEdDSA \<longrightarrow> (\<forall>pub seed. kd_ed d = Some (pub, seed) \<longrightarrow>
        length pub = PublicKeySize \<and> length seed = 32 \<and> sg_Public (kl_seed lib seed) = EdKey pub))
   \<and> (alg = AlgES256 \<longrightarrow> (\<forall>x y der. kd_ec d = Some (x, y, der) \<longrightarrow>
        kl_point lib (CHR 0x04 # be_bytes 32 x @ be_bytes 32 y)
        \<and> (\<exists>sg. kl_pkcs8 lib der = Some sg \<and> sg_Public sg = EcKey ''P-256'' x y)))
   \<and> (alg = AlgRS256 \<longrightarrow> (\<forall>n e der. kd_rsa d = Some (n, e, der) \<longrightarrow>
        n \<noteq> 0 \<and> e \<noteq> 0 \<and> int e \<le> max_i64 \<and> (\<exists>sg. kl_pkcs8 lib der = Some sg \<and> sg_Public sg = RsaKey n e)))"

text \<open>A stored key whose private half loads and matches its published half.\<close>

definition key_sound :: "key_lib \<Rightarrow> JWKSKey \<Rightarrow> bool" where
  "key_sound lib k \<longleftrightarrow>
     (\<exists>sg. loadPrivateKey lib k = Inr sg \<and> parsePublicJWK lib (jk_PublicJWK k) = Some (jk_Alg k, sg_Public sg))"

lemma alg_distinct [simp]:
  "AlgEdDSA \<noteq> AlgES256" "AlgEdDSA \<noteq> AlgRS256" "AlgES256 \<noteq> AlgRS256" "AlgES256 \<noteq> AlgEdDSA" "AlgRS256 \<noteq> AlgEdDSA"
  "AlgRS256 \<noteq> AlgES256" "AlgEdDSA \<noteq> []" "AlgES256 \<noteq> []" "AlgRS256 \<noteq> []"
  by (simp_all add: AlgEdDSA_def AlgES256_def AlgRS256_def)

lemma jwk_dec_Encode [simp]: "jwk_dec (EncodeToString b) = (if b = [] then None else Some b)"
  by (simp add: jwk_dec_def)

lemma FillBytes_be: "FillBytes k n = Some b \<Longrightarrow> b = be_bytes k n \<and> n < 256 ^ k"
  by (simp add: FillBytes_def split: if_splits)

lemma generateKeypair_fields:
  assumes "generateKeypair lib d alg st = Inr k"
  shows "jk_KID k = kd_kid d" "jk_Alg k = alg" "jk_State k = st" "jk_CreatedAt k = kd_now d"
  using assms by (auto simp: generateKeypair_def split: sum.splits option.splits)

lemma generateKeypair_sound:
  assumes g: "generateKeypair lib d alg st = Inr k" and p: "draw_pair lib d alg"
  shows "key_sound lib k"
proof -
  from g obtain j secret t e where j: "new_jwk alg d = Inr (j, secret)" "kl_jwk_json lib j = Some t" "kd_enc d secret = Some e"
    "jk_PublicJWK k = t" "jk_PrivateEnc k = e" "jk_Alg k = alg"
    by (auto simp: generateKeypair_def split: sum.splits option.splits)
  have lib: "kl_jwk lib t = Some j" "kl_decrypt lib e = Some secret" using p j by (auto simp: draw_pair_def)
  consider (ed) "alg = AlgEdDSA" | (ec) "alg = AlgES256" | (rsa) "alg = AlgRS256"
    using j(1) by (auto simp: new_jwk_def Let_def split: if_splits)
  then show ?thesis
  proof cases
    case ed
    with j(1) obtain pub where pub: "kd_ed d = Some (pub, secret)" "j_Kty j = ''OKP''" "j_X j = EncodeToString pub"
      by (auto simp: new_jwk_def Let_def split: option.splits)
    have "length pub = PublicKeySize" "length secret = 32" "sg_Public (kl_seed lib secret) = EdKey pub"
      using p ed pub(1) by (auto simp: draw_pair_def)
    moreover from this have "pub \<noteq> []" by (auto simp: PublicKeySize_def)
    ultimately show ?thesis using pub lib ed j(4-6) by (simp add: key_sound_def loadPrivateKey_def parsePublicJWK_def)
  next
    case ec
    with j(1) obtain x y bx by' where xy: "kd_ec d = Some (x, y, secret)" "FillBytes 32 x = Some bx" "FillBytes 32 y = Some by'"
      "j_Kty j = ''EC''" "j_Crv j = ''P-256''" "j_X j = EncodeToString bx" "j_Y j = EncodeToString by'"
      by (auto simp: new_jwk_def Let_def split: option.splits)
    obtain sg where sg: "kl_point lib (CHR 0x04 # be_bytes 32 x @ be_bytes 32 y)" "kl_pkcs8 lib secret = Some sg"
      "sg_Public sg = EcKey ''P-256'' x y" using p ec xy(1) unfolding draw_pair_def by blast
    have b: "bx \<noteq> []" "by' \<noteq> []" "length bx = 32" "length by' = 32" "SetBytes bx = x" "SetBytes by' = y"
      using SetBytes_FillBytes [OF xy(2)] SetBytes_FillBytes [OF xy(3)] by auto
    show ?thesis using xy sg b lib ec j(4-6) by (simp add: key_sound_def loadPrivateKey_def parsePublicJWK_def)
  next
    case rsa
    with j(1) obtain n e' where ne: "kd_rsa d = Some (n, e', secret)" "j_Kty j = ''RSA''"
      "j_N j = EncodeToString (Int_Bytes n)" "j_E j = EncodeToString (Int_Bytes e')"
      by (auto simp: new_jwk_def Let_def split: option.splits)
    obtain sg where sg: "n \<noteq> 0" "e' \<noteq> 0" "int e' \<le> max_i64" "kl_pkcs8 lib secret = Some sg" "sg_Public sg = RsaKey n e'"
      using p rsa ne(1) unfolding draw_pair_def by blast
    have "i64 (int e') = int e'" using sg(3) by (intro i64_id) (simp_all add: min_i64_def)
    then show ?thesis using ne sg lib rsa j(4-6) Int_Bytes_nonempty [OF sg(1)] Int_Bytes_nonempty [OF sg(2)]
      by (simp add: key_sound_def loadPrivateKey_def parsePublicJWK_def)
  qed
qed

section \<open>The snapshot in terms of the rows\<close>

abbreviation key_row :: "v20State \<Rightarrow> string \<Rightarrow> JWKSKey option" where
  "key_row v kid \<equiv> gm_get (v_jwksKeys v) kid"

lemma snapshot_key_sel [simp]:
  "ks_v20 (snapshot_key lib k s) = ks_v20 s" "ks_keys (snapshot_key lib k s) = ks_keys s"
  "ks_keyMap (snapshot_key lib k s) = gm_put (jk_KID k) k (ks_keyMap s)"
  "gm_get (ks_pub (snapshot_key lib k s)) kid =
     (if kid = jk_KID k then (case parsePublicJWK lib (jk_PublicJWK k) of None \<Rightarrow> gm_get (ks_pub s) kid | r \<Rightarrow> r)
      else gm_get (ks_pub s) kid)"
  "gm_get (ks_priv (snapshot_key lib k s)) kid =
     (if kid = jk_KID k \<and> jk_State k \<noteq> JWKSStateRetired
      then (case loadPrivateKey lib k of Inl _ \<Rightarrow> gm_get (ks_priv s) kid | Inr sg \<Rightarrow> Some sg)
      else gm_get (ks_priv s) kid)"
  by (auto simp: snapshot_key_def Let_def split: option.splits sum.splits)

lemma fold_snapshot_frame:
  "ks_v20 (foldl (\<lambda>s k. snapshot_key lib k s) s ks) = ks_v20 s"
  "ks_keys (foldl (\<lambda>s k. snapshot_key lib k s) s ks) = ks_keys s"
  "kid \<notin> jk_KID ` set ks \<Longrightarrow> gm_get (ks_keyMap (foldl (\<lambda>s k. snapshot_key lib k s) s ks)) kid = gm_get (ks_keyMap s) kid"
  "kid \<notin> jk_KID ` set ks \<Longrightarrow> gm_get (ks_pub (foldl (\<lambda>s k. snapshot_key lib k s) s ks)) kid = gm_get (ks_pub s) kid"
  "kid \<notin> jk_KID ` set ks \<Longrightarrow> gm_get (ks_priv (foldl (\<lambda>s k. snapshot_key lib k s) s ks)) kid = gm_get (ks_priv s) kid"
  by (induction ks arbitrary: s) simp_all

lemma fold_snapshot:
  assumes "distinct (map jk_KID ks)" and "k \<in> set ks"
    and "\<And>k'. k' \<in> set ks \<Longrightarrow> gm_get (ks_pub s) (jk_KID k') = None \<and> gm_get (ks_priv s) (jk_KID k') = None"
  shows "gm_get (ks_keyMap (foldl (\<lambda>s k. snapshot_key lib k s) s ks)) (jk_KID k) = Some k
    \<and> gm_get (ks_pub (foldl (\<lambda>s k. snapshot_key lib k s) s ks)) (jk_KID k) = parsePublicJWK lib (jk_PublicJWK k)
    \<and> gm_get (ks_priv (foldl (\<lambda>s k. snapshot_key lib k s) s ks)) (jk_KID k) =
        (if jk_State k = JWKSStateRetired then None
         else case loadPrivateKey lib k of Inl _ \<Rightarrow> None | Inr sg \<Rightarrow> Some sg)"
  using assms
proof (induction ks arbitrary: s)
  case (Cons a ks)
  show ?case
  proof (cases "k = a")
    case True
    have "jk_KID a \<notin> jk_KID ` set ks" using Cons.prems(1) by simp
    with True Cons.prems(3) [of a] show ?thesis by (auto simp: fold_snapshot_frame split: option.splits sum.splits)
  next
    case False
    then have k: "k \<in> set ks" using Cons.prems(2) by simp
    have "jk_KID k' \<noteq> jk_KID a" if "k' \<in> set ks" for k' using Cons.prems(1) imageI [OF that, of jk_KID] by auto
    then show ?thesis using Cons.IH [OF _ k, of "snapshot_key lib a s"] Cons.prems(1,3) by simp
  qed
qed simp

text \<open>
  A snapshot is faithful when it was built from stored keys, every key that is not retired among
  them.
\<close>

definition snap_ok :: "key_lib \<Rightarrow> KeyService \<Rightarrow> bool" where
  "snap_ok lib s \<longleftrightarrow> (\<exists>ks. s = refreshJWKSSnapshot lib ks s \<and> distinct (map jk_KID ks)
     \<and> (\<forall>k \<in> set ks. key_row (ks_v20 s) (jk_KID k) = Some k)
     \<and> (\<forall>kid k. key_row (ks_v20 s) kid = Some k \<and> jk_State k \<noteq> JWKSStateRetired \<longrightarrow> k \<in> set ks))"

lemma refresh_sel [simp]:
  "ks_v20 (refreshJWKSSnapshot lib ks s) = ks_v20 s" "ks_keys (refreshJWKSSnapshot lib ks s) = sort_key state_order ks"
  by (simp_all add: refreshJWKSSnapshot_def Let_def fold_snapshot_frame)

lemma refresh_cong: "ks_v20 s = ks_v20 t \<Longrightarrow> refreshJWKSSnapshot lib ks s = refreshJWKSSnapshot lib ks t"
  unfolding refreshJWKSSnapshot_def Let_def by (rule arg_cong [where f = "\<lambda>s. foldl _ s _"]) simp

lemma refresh_get:
  assumes "distinct (map jk_KID ks)"
  shows "k \<in> set ks \<Longrightarrow> gm_get (ks_keyMap (refreshJWKSSnapshot lib ks s)) (jk_KID k) = Some k"
    and "k \<in> set ks \<Longrightarrow> gm_get (ks_pub (refreshJWKSSnapshot lib ks s)) (jk_KID k) = parsePublicJWK lib (jk_PublicJWK k)"
    and "k \<in> set ks \<Longrightarrow> gm_get (ks_priv (refreshJWKSSnapshot lib ks s)) (jk_KID k) =
        (if jk_State k = JWKSStateRetired then None
         else case loadPrivateKey lib k of Inl _ \<Rightarrow> None | Inr sg \<Rightarrow> Some sg)"
    and "kid \<notin> jk_KID ` set ks \<Longrightarrow> gm_get (ks_keyMap (refreshJWKSSnapshot lib ks s)) kid = None"
proof -
  have d: "distinct (map jk_KID (sort_key state_order ks))"
    using assms by (simp add: distinct_map)
  show "k \<in> set ks \<Longrightarrow> gm_get (ks_keyMap (refreshJWKSSnapshot lib ks s)) (jk_KID k) = Some k"
    and "k \<in> set ks \<Longrightarrow> gm_get (ks_pub (refreshJWKSSnapshot lib ks s)) (jk_KID k) = parsePublicJWK lib (jk_PublicJWK k)"
    and "k \<in> set ks \<Longrightarrow> gm_get (ks_priv (refreshJWKSSnapshot lib ks s)) (jk_KID k) =
        (if jk_State k = JWKSStateRetired then None
         else case loadPrivateKey lib k of Inl _ \<Rightarrow> None | Inr sg \<Rightarrow> Some sg)"
    using fold_snapshot [OF d, of k] by (simp_all add: refreshJWKSSnapshot_def Let_def)
  show "kid \<notin> jk_KID ` set ks \<Longrightarrow> gm_get (ks_keyMap (refreshJWKSSnapshot lib ks s)) kid = None"
    using fold_snapshot_frame(3) [of kid "sort_key state_order ks"] by (simp add: refreshJWKSSnapshot_def Let_def)
qed

section \<open>The invariant\<close>

text \<open>
  Every key is stored under its identifier and is sound; an algorithm has at most one current, one
  next and one previous key, and an algorithm with any key has a current and a next one.
\<close>

definition live_states :: "string set" where
  "live_states = {JWKSStateCurrent, JWKSStateNext, JWKSStatePrevious}"

definition keyset_ok :: "key_lib \<Rightarrow> v20State \<Rightarrow> bool" where
  "keyset_ok lib v \<longleftrightarrow> gm_ok (v_jwksKeys v)
   \<and> (\<forall>kid k. key_row v kid = Some k \<longrightarrow> jk_KID k = kid \<and> kid \<noteq> [] \<and> key_sound lib k
        \<and> (jk_State k \<in> live_states \<or> jk_State k = JWKSStateRetired))
   \<and> (\<forall>kid k kid' k'. key_row v kid = Some k \<and> key_row v kid' = Some k' \<and> jk_Alg k = jk_Alg k'
        \<and> jk_State k = jk_State k' \<and> jk_State k \<noteq> JWKSStateRetired \<longrightarrow> kid = kid')
   \<and> (\<forall>kid k st. key_row v kid = Some k \<and> st \<in> {JWKSStateCurrent, JWKSStateNext} \<longrightarrow>
        (\<exists>kid' k'. key_row v kid' = Some k' \<and> jk_Alg k' = jk_Alg k \<and> jk_State k' = st))"

lemma states_distinct [simp]:
  "JWKSStateCurrent \<noteq> JWKSStateNext" "JWKSStateCurrent \<noteq> JWKSStatePrevious" "JWKSStateCurrent \<noteq> JWKSStateRetired"
  "JWKSStateNext \<noteq> JWKSStateCurrent" "JWKSStateNext \<noteq> JWKSStatePrevious" "JWKSStateNext \<noteq> JWKSStateRetired"
  "JWKSStatePrevious \<noteq> JWKSStateCurrent" "JWKSStatePrevious \<noteq> JWKSStateNext" "JWKSStatePrevious \<noteq> JWKSStateRetired"
  "JWKSStateRetired \<noteq> JWKSStateCurrent" "JWKSStateRetired \<noteq> JWKSStateNext" "JWKSStateRetired \<noteq> JWKSStatePrevious"
  by (simp_all add: JWKSStateCurrent_def JWKSStateNext_def JWKSStatePrevious_def JWKSStateRetired_def)

lemma keyset_okD:
  assumes "keyset_ok lib v"
  shows "gm_ok (v_jwksKeys v)"
    and "key_row v kid = Some k \<Longrightarrow> jk_KID k = kid"
    and "key_row v kid = Some k \<Longrightarrow> kid \<noteq> []"
    and "key_row v kid = Some k \<Longrightarrow> key_sound lib k"
    and "key_row v kid = Some k \<Longrightarrow> jk_State k \<in> live_states \<or> jk_State k = JWKSStateRetired"
    and "key_row v kid = Some k \<Longrightarrow> key_row v kid' = Some k' \<Longrightarrow> jk_Alg k = jk_Alg k' \<Longrightarrow>
      jk_State k = jk_State k' \<Longrightarrow> jk_State k \<noteq> JWKSStateRetired \<Longrightarrow> kid = kid'"
    and "key_row v kid = Some k \<Longrightarrow> st \<in> {JWKSStateCurrent, JWKSStateNext} \<Longrightarrow>
      \<exists>kid' k'. key_row v kid' = Some k' \<and> jk_Alg k' = jk_Alg k \<and> jk_State k' = st"
  using assms unfolding keyset_ok_def by blast+

lemma distinct_map_sort: "distinct (map f (sort_key g xs)) \<longleftrightarrow> distinct (map f xs)"
  by (simp add: distinct_map)

lemma JWKSKeysAll_set:
  assumes "keyset_ok lib v"
  shows "k \<in> set (JWKSKeysAll v) \<longleftrightarrow> key_row v (jk_KID k) = Some k" "distinct (map jk_KID (JWKSKeysAll v))"
proof -
  have m: "(kid, k) \<in> set (v_jwksKeys v) \<longleftrightarrow> key_row v kid = Some k" for kid k
    using gm_get_Some_iff [OF keyset_okD(1) [OF assms]] by blast
  show "k \<in> set (JWKSKeysAll v) \<longleftrightarrow> key_row v (jk_KID k) = Some k"
  proof
    assume "k \<in> set (JWKSKeysAll v)"
    then obtain kid where "key_row v kid = Some k" by (auto simp: JWKSKeysAll_def m)
    with keyset_okD(2) [OF assms this] show "key_row v (jk_KID k) = Some k" by simp
  next
    assume "key_row v (jk_KID k) = Some k"
    then have "(jk_KID k, k) \<in> set (v_jwksKeys v)" by (simp add: m)
    then show "k \<in> set (JWKSKeysAll v)" by (force simp: JWKSKeysAll_def)
  qed
  have "map jk_KID (map snd (v_jwksKeys v)) = map fst (v_jwksKeys v)"
    using keyset_okD(2) [OF assms] iffD1 [OF m] by (auto simp del: map_of_eq_Some_iff)
  moreover have "distinct (map fst (v_jwksKeys v))" using keyset_okD(1) [OF assms] by (simp add: gm_ok_def)
  ultimately have "distinct (map jk_KID (map snd (v_jwksKeys v)))" by (simp only:)
  then show "distinct (map jk_KID (JWKSKeysAll v))" unfolding JWKSKeysAll_def distinct_map_sort .
qed

lemma snap_ok_refresh:
  assumes "keyset_ok lib (ks_v20 s)" and "\<And>k. P k \<or> jk_State k = JWKSStateRetired"
  shows "snap_ok lib (refreshJWKSSnapshot lib (filter P (JWKSKeysAll (ks_v20 s))) s)"
proof -
  let ?ks = "filter P (JWKSKeysAll (ks_v20 s))"
  have "refreshJWKSSnapshot lib ?ks s = refreshJWKSSnapshot lib ?ks (refreshJWKSSnapshot lib ?ks s)"
    by (rule refresh_cong) simp
  moreover have "distinct (map jk_KID ?ks)" using JWKSKeysAll_set(2) [OF assms(1)] by (rule distinct_map_filter)
  moreover have "k \<in> set ?ks" if "key_row (ks_v20 s) kid = Some k" "jk_State k \<noteq> JWKSStateRetired" for kid k
    using that keyset_okD(2) [OF assms(1) that(1)] assms(2) by (auto simp: JWKSKeysAll_set(1) [OF assms(1)])
  ultimately show ?thesis
    unfolding snap_ok_def by (intro exI [of _ ?ks]) (auto simp: JWKSKeysAll_set(1) [OF assms(1)])
qed

lemma snap_keys:
  assumes "snap_ok lib s"
  shows "k \<in> set (ks_keys s) \<Longrightarrow> key_row (ks_v20 s) (jk_KID k) = Some k"
    and "key_row (ks_v20 s) kid = Some k \<Longrightarrow> jk_State k \<noteq> JWKSStateRetired \<Longrightarrow> k \<in> set (ks_keys s)"
    and "distinct (map jk_KID (ks_keys s))"
    and "k \<in> set (ks_keys s) \<Longrightarrow> gm_get (ks_keyMap s) (jk_KID k) = Some k"
    and "k \<in> set (ks_keys s) \<Longrightarrow> gm_get (ks_pub s) (jk_KID k) = parsePublicJWK lib (jk_PublicJWK k)"
    and "k \<in> set (ks_keys s) \<Longrightarrow> gm_get (ks_priv s) (jk_KID k) =
        (if jk_State k = JWKSStateRetired then None
         else case loadPrivateKey lib k of Inl _ \<Rightarrow> None | Inr sg \<Rightarrow> Some sg)"
    and "kid \<notin> jk_KID ` set (ks_keys s) \<Longrightarrow> gm_get (ks_keyMap s) kid = None"
proof -
  from assms obtain ks where ks: "s = refreshJWKSSnapshot lib ks s" "distinct (map jk_KID ks)"
    "\<forall>k \<in> set ks. key_row (ks_v20 s) (jk_KID k) = Some k"
    "\<forall>kid k. key_row (ks_v20 s) kid = Some k \<and> jk_State k \<noteq> JWKSStateRetired \<longrightarrow> k \<in> set ks"
    unfolding snap_ok_def by blast
  have keys: "ks_keys s = sort_key state_order ks" by (subst ks(1)) simp
  have set: "set (ks_keys s) = set ks" by (simp add: keys)
  note g = refresh_get [OF ks(2), where lib = lib and s = s, folded ks(1)]
  show "distinct (map jk_KID (ks_keys s))" using ks(2) by (simp add: keys distinct_map)
  show "k \<in> set (ks_keys s) \<Longrightarrow> key_row (ks_v20 s) (jk_KID k) = Some k"
    "key_row (ks_v20 s) kid = Some k \<Longrightarrow> jk_State k \<noteq> JWKSStateRetired \<Longrightarrow> k \<in> set (ks_keys s)"
    "k \<in> set (ks_keys s) \<Longrightarrow> gm_get (ks_keyMap s) (jk_KID k) = Some k"
    "k \<in> set (ks_keys s) \<Longrightarrow> gm_get (ks_pub s) (jk_KID k) = parsePublicJWK lib (jk_PublicJWK k)"
    "k \<in> set (ks_keys s) \<Longrightarrow> gm_get (ks_priv s) (jk_KID k) =
        (if jk_State k = JWKSStateRetired then None
         else case loadPrivateKey lib k of Inl _ \<Rightarrow> None | Inr sg \<Rightarrow> Some sg)"
    "kid \<notin> jk_KID ` set (ks_keys s) \<Longrightarrow> gm_get (ks_keyMap s) kid = None"
    unfolding set using ks(3,4) g by blast+
qed

lemma snap_verification:
  assumes "snap_ok lib s" and "keyset_ok lib (ks_v20 s)"
  shows "VerificationKey s kid =
    (case key_row (ks_v20 s) kid of
       None \<Rightarrow> None
     | Some k \<Rightarrow> if jk_State k = JWKSStateRetired then None else parsePublicJWK lib (jk_PublicJWK k))"
proof (cases "kid \<in> jk_KID ` set (ks_keys s)")
  case True
  then obtain k where k: "k \<in> set (ks_keys s)" "kid = jk_KID k" by blast
  then show ?thesis using snap_keys(1,4,5) [OF assms(1) k(1)] by (simp add: VerificationKey_def)
next
  case False
  have "jk_State k = JWKSStateRetired" if "key_row (ks_v20 s) kid = Some k" for k
    using False snap_keys(2) [OF assms(1) that] keyset_okD(2) [OF assms(2) that] by blast
  with snap_keys(7) [OF assms(1) False] show ?thesis by (auto simp: VerificationKey_def split: option.splits)
qed

text \<open>The signing key of an algorithm is its current row with the matching private key.\<close>

lemma snap_current:
  assumes "snap_ok lib s" and "keyset_ok lib (ks_v20 s)"
  shows "currentKeyForAlg lib alg s = Inr (k, sg) \<Longrightarrow> key_row (ks_v20 s) (jk_KID k) = Some k
      \<and> jk_State k = JWKSStateCurrent \<and> jk_Alg k = alg \<and> loadPrivateKey lib k = Inr sg"
    and "hasCurrentKey alg s \<longleftrightarrow> (\<exists>kid k. key_row (ks_v20 s) kid = Some k \<and> jk_Alg k = alg)"
    and "hasCurrentKey alg s \<longleftrightarrow> \<not> isl (currentKeyForAlg lib alg s)"
proof -
  let ?P = "\<lambda>k. jk_State k = JWKSStateCurrent \<and> jk_Alg k = alg"
  have sound: "key_row (ks_v20 s) (jk_KID k) = Some k \<and> (\<exists>sg. loadPrivateKey lib k = Inr sg \<and> gm_get (ks_priv s) (jk_KID k) = Some sg)"
    if "k \<in> set (ks_keys s)" "?P k" for k
  proof -
    have r: "key_row (ks_v20 s) (jk_KID k) = Some k" by (rule snap_keys(1) [OF assms(1) that(1)])
    moreover from keyset_okD(4) [OF assms(2) r] obtain sg where "loadPrivateKey lib k = Inr sg" by (auto simp: key_sound_def)
    ultimately show ?thesis using snap_keys(6) [OF assms(1) that(1)] that(2) by simp
  qed
  have found: "k \<in> set (ks_keys s) \<and> ?P k" if "find ?P (ks_keys s) = Some k" for k
    using find_Some_iff_hd [OF that] by blast
  show "key_row (ks_v20 s) (jk_KID k) = Some k \<and> jk_State k = JWKSStateCurrent \<and> jk_Alg k = alg \<and> loadPrivateKey lib k = Inr sg"
    if "currentKeyForAlg lib alg s = Inr (k, sg)"
  proof -
    from that obtain k' where f: "find ?P (ks_keys s) = Some k'" by (auto simp: currentKeyForAlg_def split: option.splits)
    with sound [of k'] found [OF f] that show ?thesis by (auto simp: currentKeyForAlg_def)
  qed
  show h: "hasCurrentKey alg s \<longleftrightarrow> (\<exists>kid k. key_row (ks_v20 s) kid = Some k \<and> jk_Alg k = alg)"
  proof
    assume "\<exists>kid k. key_row (ks_v20 s) kid = Some k \<and> jk_Alg k = alg"
    then obtain kid k where "key_row (ks_v20 s) kid = Some k" "jk_Alg k = alg" by blast
    with keyset_okD(7) [OF assms(2) this(1), of JWKSStateCurrent] obtain kid' k' where
      "key_row (ks_v20 s) kid' = Some k'" "jk_Alg k' = alg" "jk_State k' = JWKSStateCurrent" by auto
    with snap_keys(2) [OF assms(1) this(1)] show "hasCurrentKey alg s" by (auto simp: hasCurrentKey_def list_ex_iff)
  qed (use snap_keys(1) [OF assms(1)] in \<open>auto simp: hasCurrentKey_def list_ex_iff\<close>)
  show "hasCurrentKey alg s \<longleftrightarrow> \<not> isl (currentKeyForAlg lib alg s)"
  proof (cases "find ?P (ks_keys s)")
    case None
    then have "currentKeyForAlg lib alg s = Inl JwksNoCurrent" by (simp add: currentKeyForAlg_def)
    with None show ?thesis by (auto simp: hasCurrentKey_def list_ex_iff find_None_iff)
  next
    case (Some k)
    obtain sg where "gm_get (ks_priv s) (jk_KID k) = Some sg" using sound [of k] found [OF Some] by blast
    with Some have "currentKeyForAlg lib alg s = Inr (k, sg)" by (simp add: currentKeyForAlg_def)
    with found [OF Some] show ?thesis by (auto simp: hasCurrentKey_def list_ex_iff)
  qed
qed

section \<open>What minting and rotation do to the rows\<close>

definition set_state :: "string \<Rightarrow> time \<Rightarrow> JWKSKey \<Rightarrow> JWKSKey" where
  "set_state state at k =
     (let k = k\<lparr>jk_State := state\<rparr>
      in if state = JWKSStateCurrent then k\<lparr>jk_PromotedAt := Some at\<rparr>
         else if state = JWKSStateRetired then k\<lparr>jk_RetiredAt := Some at\<rparr> else k)"

text \<open>One step of a key's life.\<close>

definition advance :: "time \<Rightarrow> JWKSKey \<Rightarrow> JWKSKey" where
  "advance now k =
     (if jk_State k = JWKSStateNext then set_state JWKSStateCurrent now k
      else if jk_State k = JWKSStateCurrent then set_state JWKSStatePrevious now k
      else if jk_State k = JWKSStatePrevious then set_state JWKSStateRetired now k
      else k)"

lemma set_state_sel [simp]:
  "jk_KID (set_state st at k) = jk_KID k" "jk_Alg (set_state st at k) = jk_Alg k" "jk_State (set_state st at k) = st"
  "jk_PublicJWK (set_state st at k) = jk_PublicJWK k" "jk_PrivateEnc (set_state st at k) = jk_PrivateEnc k"
  by (simp_all add: set_state_def Let_def)

lemma advance_sel [simp]:
  "jk_KID (advance now k) = jk_KID k" "jk_Alg (advance now k) = jk_Alg k"
  "jk_PublicJWK (advance now k) = jk_PublicJWK k" "jk_PrivateEnc (advance now k) = jk_PrivateEnc k"
  by (simp_all add: advance_def)

definition next_state :: "string \<Rightarrow> string" where
  "next_state st = (if st = JWKSStateNext then JWKSStateCurrent else if st = JWKSStateCurrent then JWKSStatePrevious
     else if st = JWKSStatePrevious then JWKSStateRetired else st)"

lemma advance_state [simp]: "jk_State (advance now k) = next_state (jk_State k)"
  by (simp add: advance_def next_state_def)

lemma next_state_simps [simp]:
  "next_state JWKSStateNext = JWKSStateCurrent" "next_state JWKSStateCurrent = JWKSStatePrevious"
  "next_state JWKSStatePrevious = JWKSStateRetired" "next_state JWKSStateRetired = JWKSStateRetired"
  by (simp_all add: next_state_def)

lemma next_state_live:
  assumes "st \<in> live_states \<or> st = JWKSStateRetired"
  shows "next_state st \<in> live_states \<or> next_state st = JWKSStateRetired" "next_state st \<noteq> JWKSStateNext"
  using assms by (auto simp: live_states_def)

lemma next_state_inj:
  assumes "st \<in> live_states \<or> st = JWKSStateRetired" "st' \<in> live_states \<or> st' = JWKSStateRetired"
    and "next_state st = next_state st'" "next_state st \<noteq> JWKSStateRetired"
  shows "st = st'" "st \<noteq> JWKSStateRetired"
  using assms by (auto simp: live_states_def)

lemma loadPrivateKey_cong:
  "jk_Alg k' = jk_Alg k \<Longrightarrow> jk_PrivateEnc k' = jk_PrivateEnc k \<Longrightarrow> loadPrivateKey lib k' = loadPrivateKey lib k"
  by (simp add: loadPrivateKey_def split: option.split)

lemma key_sound_cong:
  "jk_Alg k' = jk_Alg k \<Longrightarrow> jk_PrivateEnc k' = jk_PrivateEnc k \<Longrightarrow> jk_PublicJWK k' = jk_PublicJWK k \<Longrightarrow>
    key_sound lib k' = key_sound lib k"
  unfolding key_sound_def by (simp add: loadPrivateKey_cong [of k' k])

lemma UpdateJWKSKeyState_row:
  assumes "key_row v kid = Some k"
  obtains v' where "UpdateJWKSKeyState kid st now v = (None, v')" "gm_ok (v_jwksKeys v) \<Longrightarrow> gm_ok (v_jwksKeys v')"
    "\<And>x. key_row v' x = (if x = kid then Some (set_state st now k) else key_row v x)"
  using assms that by (auto simp: UpdateJWKSKeyState_def set_state_def Let_def)

lemma InsertJWKSKey_row:
  assumes "generateKeypair lib d alg st = Inr k" and "key_row v (kd_kid d) = None"
  obtains v' where "InsertJWKSKey (kd_now d) k v = (None, v')" "gm_ok (v_jwksKeys v) \<Longrightarrow> gm_ok (v_jwksKeys v')"
    "\<And>x. key_row v' x = (if x = kd_kid d then Some k else key_row v x)"
  using assms that by (auto simp: InsertJWKSKey_def Let_def generateKeypair_fields [OF assms(1)])

lemma update_states_row:
  assumes "distinct kids" and "\<And>x. x \<in> set kids \<Longrightarrow> key_row v x \<noteq> None"
  obtains v' where "update_states kids st now v = (None, v')" "gm_ok (v_jwksKeys v) \<Longrightarrow> gm_ok (v_jwksKeys v')"
    "\<And>x. key_row v' x = (if x \<in> set kids then map_option (set_state st now) (key_row v x) else key_row v x)"
  using assms
proof (induction kids arbitrary: v thesis)
  case (Cons kid kids)
  from Cons.prems(3) [of kid] obtain k where k: "key_row v kid = Some k" by auto
  obtain v1 where v1: "UpdateJWKSKeyState kid st now v = (None, v1)" "gm_ok (v_jwksKeys v) \<Longrightarrow> gm_ok (v_jwksKeys v1)"
    "\<And>x. key_row v1 x = (if x = kid then Some (set_state st now k) else key_row v x)"
    using UpdateJWKSKeyState_row [OF k, of st now] by blast
  obtain v2 where v2: "update_states kids st now v1 = (None, v2)" "gm_ok (v_jwksKeys v1) \<Longrightarrow> gm_ok (v_jwksKeys v2)"
    "\<And>x. key_row v2 x = (if x \<in> set kids then map_option (set_state st now) (key_row v1 x) else key_row v1 x)"
  proof (rule Cons.IH [of v1])
    show "distinct kids" using Cons.prems(2) by simp
    show "key_row v1 x \<noteq> None" if "x \<in> set kids" for x using Cons.prems(3) [of x] that by (simp add: v1(3))
  qed (rule that)
  show ?case
    by (rule Cons.prems(1) [of v2]) (use v1 v2 k Cons.prems(2) in auto)
qed simp

lemma last_kid_unique:
  assumes "k \<in> set ks" and "jk_State k = st" and "\<And>k'. k' \<in> set ks \<Longrightarrow> jk_State k' = st \<Longrightarrow> jk_KID k' = jk_KID k"
  shows "last_kid st ks = jk_KID k"
  using assms
proof (induction ks rule: rev_induct)
  case (snoc a ks)
  show ?case
  proof (cases "jk_State a = st")
    case True
    have "jk_KID a = jk_KID k" by (rule snoc.prems(3)) (simp_all add: True)
    with True show ?thesis by (simp add: last_kid_def)
  next
    case False
    have "k \<in> set ks" using snoc.prems(1,2) False by auto
    moreover have "jk_KID k' = jk_KID k" if "k' \<in> set ks" "jk_State k' = st" for k'
      by (rule snoc.prems(3)) (use that in simp_all)
    ultimately have "last_kid st ks = jk_KID k" using snoc.prems(2) by (intro snoc.IH)
    with False show ?thesis by (simp add: last_kid_def)
  qed
qed simp

lemma keyset_ok_advance:
  assumes ok: "keyset_ok lib v" and old: "key_row v kid0 = Some k0" "jk_Alg k0 = alg"
    and new: "key_row v kid = None" "kid \<noteq> []" "jk_KID fresh = kid" "jk_Alg fresh = alg" "jk_State fresh = JWKSStateNext" "key_sound lib fresh"
    and v': "gm_ok (v_jwksKeys v')"
      "\<And>x. key_row v' x = (if x = kid then Some fresh
         else map_option (\<lambda>k. if jk_Alg k = alg then advance now k else k) (key_row v x))"
  shows "keyset_ok lib v'"
proof -
  note D = keyset_okD [OF ok]
  let ?adv = "\<lambda>k. if jk_Alg k = alg then advance now k else k"
  have row: "x = kid \<and> k = fresh \<or> x \<noteq> kid \<and> (\<exists>k1. key_row v x = Some k1 \<and> k = ?adv k1)" if "key_row v' x = Some k" for x k
    using that unfolding v'(2) by (auto split: if_splits)
  have row': "key_row v' x = Some (?adv k1)" if "key_row v x = Some k1" for x k1
    using that new(1) unfolding v'(2) by auto
  have alg: "jk_Alg (?adv k) = jk_Alg k" for k by simp
  have key: "jk_KID k = x \<and> x \<noteq> [] \<and> key_sound lib k \<and> (jk_State k \<in> live_states \<or> jk_State k = JWKSStateRetired)"
    if "key_row v' x = Some k" for x k
    using row [OF that]
  proof (elim disjE conjE exE)
    fix k1 assume k1: "key_row v x = Some k1" "k = ?adv k1"
    have "key_sound lib (?adv k1) = key_sound lib k1" by (rule key_sound_cong) simp_all
    moreover have "jk_State (?adv k1) \<in> live_states \<or> jk_State (?adv k1) = JWKSStateRetired"
      using D(5) [OF k1(1)] next_state_live(1) by simp
    ultimately show ?thesis using D(2-4) [OF k1(1)] k1(2) by simp
  qed (use new in \<open>simp add: live_states_def\<close>)
  have uniq: "x = x'" if r: "key_row v' x = Some k" "key_row v' x' = Some k'" "jk_Alg k = jk_Alg k'" "jk_State k = jk_State k'"
      "jk_State k \<noteq> JWKSStateRetired" for x k x' k'
  proof -
    have fr: "jk_State (?adv k1) \<noteq> JWKSStateNext" if "key_row v y = Some k1" "jk_Alg k1 = alg" for y k1
      using next_state_live(2) [OF D(5) [OF that(1)]] that(2) by simp
    have st: "jk_State k1 = jk_State k2 \<and> jk_State k1 \<noteq> JWKSStateRetired" if "key_row v y = Some k1" "key_row v y' = Some k2"
        "jk_Alg k1 = jk_Alg k2" "jk_State (?adv k1) = jk_State (?adv k2)" "jk_State (?adv k1) \<noteq> JWKSStateRetired" for y k1 y' k2
      using that(3-5) next_state_inj [OF D(5) [OF that(1)] D(5) [OF that(2)]] by (cases "jk_Alg k1 = alg") simp_all
    from row [OF r(1)] row [OF r(2)] show ?thesis
    proof (elim disjE conjE exE)
      fix k1 k2 assume k: "key_row v x = Some k1" "k = ?adv k1" "key_row v x' = Some k2" "k' = ?adv k2"
      have "jk_Alg k1 = jk_Alg k2" using r(3) alg k(2,4) by simp
      then show ?thesis using D(6) [OF k(1,3)] st [OF k(1,3)] r(4,5) k(2,4) by blast
    next
      fix k1 assume k: "key_row v x' = Some k1" "k' = ?adv k1" "k = fresh"
      then show ?thesis using fr [OF k(1)] r(3,4) new(4,5) alg [of k1] by simp
    next
      fix k1 assume k: "key_row v x = Some k1" "k = ?adv k1" "k' = fresh"
      then show ?thesis using fr [OF k(1)] r(3,4) new(4,5) alg [of k1] by simp
    qed simp
  qed
  have ex: "\<exists>x' k'. key_row v' x' = Some k' \<and> jk_Alg k' = jk_Alg k \<and> jk_State k' = st"
    if r: "key_row v' x = Some k" "st \<in> {JWKSStateCurrent, JWKSStateNext}" for x k st
  proof (cases "jk_Alg k = alg")
    case True
    show ?thesis
    proof (cases "st = JWKSStateNext")
      case True
      then show ?thesis using \<open>jk_Alg k = alg\<close> new v'(2) [of kid] by auto
    next
      case False
      with r(2) have st: "st = JWKSStateCurrent" by simp
      from D(7) [OF old(1), of JWKSStateNext] old(2) obtain y k1 where y: "key_row v y = Some k1" "jk_Alg k1 = alg" "jk_State k1 = JWKSStateNext"
        by auto
      from row' [OF y(1)] y st True show ?thesis by (intro exI [of _ y] exI [of _ "?adv k1"]) simp
    qed
  next
    case False
    with row [OF r(1)] new(4) obtain k1 where k1: "key_row v x = Some k1" "k = ?adv k1" by blast
    then have "k = k1" using False alg [of k1] by auto
    from D(7) [OF k1(1) r(2)] obtain y k2 where y: "key_row v y = Some k2" "jk_Alg k2 = jk_Alg k1" "jk_State k2 = st" by blast
    with row' [OF y(1)] False \<open>k = k1\<close> show ?thesis by auto
  qed
  show ?thesis unfolding keyset_ok_def using v'(1) key uniq ex by blast
qed

text \<open>A draw that the generator turns into a key pair under a fresh identifier.\<close>

definition draw_ok :: "key_lib \<Rightarrow> v20State \<Rightarrow> string \<Rightarrow> key_draw \<Rightarrow> bool" where
  "draw_ok lib v alg d \<longleftrightarrow> kd_kid d \<noteq> [] \<and> key_row v (kd_kid d) = None \<and> draw_pair lib d alg
     \<and> (\<exists>k. generateKeypair lib d alg JWKSStateNext = Inr k)"

definition drawn :: "key_lib \<Rightarrow> string \<Rightarrow> string \<Rightarrow> key_draw \<Rightarrow> JWKSKey" where
  "drawn lib alg st d = projr (generateKeypair lib d alg st)"

lemma draw_okD:
  assumes "draw_ok lib v alg d"
  shows "generateKeypair lib d alg st = Inr (drawn lib alg st d)" "jk_KID (drawn lib alg st d) = kd_kid d"
    "jk_Alg (drawn lib alg st d) = alg" "jk_State (drawn lib alg st d) = st" "key_sound lib (drawn lib alg st d)"
    "kd_kid d \<noteq> []" "key_row v (kd_kid d) = None"
proof -
  from assms obtain k where "generateKeypair lib d alg JWKSStateNext = Inr k" by (auto simp: draw_ok_def)
  then have "\<not> isl (generateKeypair lib d alg st)"
    by (auto simp: generateKeypair_def split: sum.splits option.splits)
  then show g: "generateKeypair lib d alg st = Inr (drawn lib alg st d)"
    by (auto simp: drawn_def isl_def split: sum.splits)
  show "jk_KID (drawn lib alg st d) = kd_kid d" "jk_Alg (drawn lib alg st d) = alg" "jk_State (drawn lib alg st d) = st"
    using generateKeypair_fields [OF g] by simp_all
  show "key_sound lib (drawn lib alg st d)" using generateKeypair_sound [OF g] assms by (simp add: draw_ok_def)
qed (use assms in \<open>simp_all add: draw_ok_def\<close>)

text \<open>
  The keys that a rotation of one algorithm is given: rows of that algorithm, with all live ones among
  them.
\<close>

definition alg_view :: "v20State \<Rightarrow> string \<Rightarrow> JWKSKey list \<Rightarrow> bool" where
  "alg_view v alg ks \<longleftrightarrow> distinct (map jk_KID ks)
     \<and> (\<forall>k \<in> set ks. key_row v (jk_KID k) = Some k \<and> jk_Alg k = alg)
     \<and> (\<forall>kid k. key_row v kid = Some k \<and> jk_Alg k = alg \<and> jk_State k \<noteq> JWKSStateRetired \<longrightarrow> k \<in> set ks)"

lemma rotateAlg_row:
  assumes ok: "keyset_ok lib v" and view: "alg_view v alg ks" and ne: "key_row v kid0 = Some k0" "jk_Alg k0 = alg"
    and d: "draw_ok lib v alg d"
  obtains v' where "rotateAlg lib d alg ks now v = (None, v')" "keyset_ok lib v'"
    "\<And>x. key_row v' x = (if x = kd_kid d then Some (drawn lib alg JWKSStateNext d)
       else map_option (\<lambda>k. if jk_Alg k = alg then advance now k else k) (key_row v x))"
proof -
  note D = keyset_okD [OF ok] and dd = draw_okD [OF d]
  have inks: "key_row v (jk_KID k) = Some k" "jk_Alg k = alg" if "k \<in> set ks" for k using view that by (auto simp: alg_view_def)
  have live: "k \<in> set ks" if "key_row v x = Some k" "jk_Alg k = alg" "jk_State k \<noteq> JWKSStateRetired" for x k
    using view that unfolding alg_view_def by blast
  have one: "jk_KID k' = jk_KID k" if "k \<in> set ks" "k' \<in> set ks" "jk_State k = st" "jk_State k' = st" "st \<noteq> JWKSStateRetired" for k k' st
    using D(6) [OF inks(1) [OF that(2)] inks(1) [OF that(1)]] inks(2) that by simp
  obtain c where c: "c \<in> set ks" "jk_State c = JWKSStateCurrent" using D(7) [OF ne(1), of JWKSStateCurrent] ne(2) live by fastforce
  obtain n where n: "n \<in> set ks" "jk_State n = JWKSStateNext" using D(7) [OF ne(1), of JWKSStateNext] ne(2) live by fastforce
  have lc: "last_kid JWKSStateCurrent ks = jk_KID c" by (rule last_kid_unique [OF c]) (use one [OF c(1) _ c(2)] in simp)
  have ln: "last_kid JWKSStateNext ks = jk_KID n" by (rule last_kid_unique [OF n]) (use one [OF n(1) _ n(2)] in simp)
  have "c \<noteq> n" using c(2) n(2) by auto
  then have cn: "jk_KID c \<noteq> []" "jk_KID n \<noteq> []" "jk_KID c \<noteq> jk_KID n"
    using D(3) [OF inks(1) [OF c(1)]] D(3) [OF inks(1) [OF n(1)]] inks(1) [OF c(1)] inks(1) [OF n(1)] by auto
  define prev where "prev = map jk_KID (filter (\<lambda>k. jk_State k = JWKSStatePrevious) ks)"
  have dp: "distinct prev" using view by (simp add: prev_def alg_view_def distinct_map_filter)
  have pr: "x \<in> set prev \<longleftrightarrow> (\<exists>k. key_row v x = Some k \<and> jk_Alg k = alg \<and> jk_State k = JWKSStatePrevious)" for x
  proof
    assume "x \<in> set prev"
    then obtain k where "k \<in> set ks" "jk_State k = JWKSStatePrevious" "x = jk_KID k" by (auto simp: prev_def)
    with inks [OF this(1)] show "\<exists>k. key_row v x = Some k \<and> jk_Alg k = alg \<and> jk_State k = JWKSStatePrevious" by blast
  next
    assume "\<exists>k. key_row v x = Some k \<and> jk_Alg k = alg \<and> jk_State k = JWKSStatePrevious"
    then obtain k where k: "key_row v x = Some k" "jk_Alg k = alg" "jk_State k = JWKSStatePrevious" by blast
    with live [OF k(1,2)] D(2) [OF k(1)] show "x \<in> set prev" by (auto simp: prev_def)
  qed
  obtain v1 where v1: "update_states prev JWKSStateRetired now v = (None, v1)" "gm_ok (v_jwksKeys v) \<Longrightarrow> gm_ok (v_jwksKeys v1)"
    "\<And>x. key_row v1 x = (if x \<in> set prev then map_option (set_state JWKSStateRetired now) (key_row v x) else key_row v x)"
  proof (rule update_states_row [OF dp, of v JWKSStateRetired now])
    show "key_row v x \<noteq> None" if "x \<in> set prev" for x using pr [of x] that by auto
  qed (rule that)
  have notprev: "jk_KID c \<notin> set prev" "jk_KID n \<notin> set prev"
    using pr [of "jk_KID c"] pr [of "jk_KID n"] inks(1) [OF c(1)] inks(1) [OF n(1)] c(2) n(2) by auto
  have c1: "key_row v1 (jk_KID c) = Some c" using notprev inks(1) [OF c(1)] by (simp add: v1(3))
  obtain v2 where v2: "UpdateJWKSKeyState (jk_KID c) JWKSStatePrevious now v1 = (None, v2)" "gm_ok (v_jwksKeys v1) \<Longrightarrow> gm_ok (v_jwksKeys v2)"
    "\<And>x. key_row v2 x = (if x = jk_KID c then Some (set_state JWKSStatePrevious now c) else key_row v1 x)"
    using UpdateJWKSKeyState_row [OF c1] by blast
  have n2: "key_row v2 (jk_KID n) = Some n" using notprev cn inks(1) [OF n(1)] by (simp add: v1(3) v2(3))
  obtain v3 where v3: "UpdateJWKSKeyState (jk_KID n) JWKSStateCurrent now v2 = (None, v3)" "gm_ok (v_jwksKeys v2) \<Longrightarrow> gm_ok (v_jwksKeys v3)"
    "\<And>x. key_row v3 x = (if x = jk_KID n then Some (set_state JWKSStateCurrent now n) else key_row v2 x)"
    using UpdateJWKSKeyState_row [OF n2] by blast
  have fresh: "kd_kid d \<noteq> jk_KID c" "kd_kid d \<noteq> jk_KID n" "kd_kid d \<notin> set prev"
    using dd(7) inks(1) [OF c(1)] inks(1) [OF n(1)] pr [of "kd_kid d"] by auto
  have r3: "key_row v3 x = map_option (\<lambda>k. if jk_Alg k = alg then advance now k else k) (key_row v x)" for x
  proof (cases "key_row v x")
    case None
    then have "x \<noteq> jk_KID c" "x \<noteq> jk_KID n" "x \<notin> set prev" using inks(1) [OF c(1)] inks(1) [OF n(1)] pr [of x] by auto
    with None show ?thesis by (simp add: v1(3) v2(3) v3(3))
  next
    case (Some k)
    have ident: "x = jk_KID k" using D(2) [OF Some] by simp
    show ?thesis
    proof (cases "jk_Alg k = alg \<and> jk_State k \<noteq> JWKSStateRetired")
      case False
      then have "x \<noteq> jk_KID c" "x \<noteq> jk_KID n" "x \<notin> set prev"
        using inks [OF c(1)] inks [OF n(1)] c(2) n(2) pr [of x] Some by auto
      moreover have "advance now k = k" if "jk_Alg k = alg" using False that by (simp add: advance_def)
      ultimately show ?thesis using Some by (simp add: v1(3) v2(3) v3(3))
    next
      case True
      then have k: "k \<in> set ks" using live [OF Some] by blast
      consider "jk_State k = JWKSStateCurrent" | "jk_State k = JWKSStateNext" | "jk_State k = JWKSStatePrevious"
        using D(5) [OF Some] True by (auto simp: live_states_def)
      then show ?thesis
      proof cases
        case 1
        then have "x = jk_KID c" using one [OF c(1) k c(2)] ident by simp
        then have "k = c" using Some inks(1) [OF c(1)] by simp
        with \<open>x = jk_KID c\<close> Some True 1 cn show ?thesis by (simp add: v2(3) v3(3) advance_def)
      next
        case 2
        then have "x = jk_KID n" using one [OF n(1) k n(2)] ident by simp
        then have "k = n" using Some inks(1) [OF n(1)] by simp
        with \<open>x = jk_KID n\<close> Some True 2 show ?thesis by (simp add: v3(3) advance_def)
      next
        case 3
        then have "x \<in> set prev" using pr Some True by blast
        moreover from this have "x \<noteq> jk_KID c" "x \<noteq> jk_KID n" using notprev by metis+
        ultimately show ?thesis using Some True 3 by (simp add: v1(3) v2(3) v3(3) advance_def)
      qed
    qed
  qed
  have d3: "key_row v3 (kd_kid d) = None" using dd(7) by (simp add: r3)
  obtain v4 where v4: "InsertJWKSKey (kd_now d) (drawn lib alg JWKSStateNext d) v3 = (None, v4)" "gm_ok (v_jwksKeys v3) \<Longrightarrow> gm_ok (v_jwksKeys v4)"
    "\<And>x. key_row v4 x = (if x = kd_kid d then Some (drawn lib alg JWKSStateNext d) else key_row v3 x)"
    using InsertJWKSKey_row [OF dd(1) d3] by blast
  have rot: "rotateAlg lib d alg ks now v = (None, v4)"
    unfolding rotateAlg_def lc ln Let_def prev_def [symmetric] using cn dd(1) [of JWKSStateNext] v1(1) v2(1) v3(1) v4(1) by (simp)
  have row4: "key_row v4 x = (if x = kd_kid d then Some (drawn lib alg JWKSStateNext d)
       else map_option (\<lambda>k. if jk_Alg k = alg then advance now k else k) (key_row v x))" for x
    by (simp add: v4(3) r3)
  have gm: "gm_ok (v_jwksKeys v4)" using v1(2) v2(2) v3(2) v4(2) D(1) by blast
  have "keyset_ok lib v4"
    by (rule keyset_ok_advance [OF ok ne dd(7,6) dd(2) dd(3) dd(4) dd(5) gm row4])
  from that [OF rot this row4] show thesis .
qed

lemma alg_view_other:
  assumes "alg_view v alg' ks" and "alg' \<noteq> alg" and "jk_Alg fresh = alg" and "key_row v kid = None"
    and "\<And>x. key_row v' x = (if x = kid then Some fresh
       else map_option (\<lambda>k. if jk_Alg k = alg then advance now k else k) (key_row v x))"
  shows "alg_view v' alg' ks"
proof -
  have same: "key_row v' x = Some k \<longleftrightarrow> key_row v x = Some k" if "jk_Alg k = alg'" for x k
  proof (cases "key_row v x")
    case None
    with assms(2,3) that show ?thesis by (auto simp: assms(5))
  next
    case (Some k1)
    then have "x \<noteq> kid" using assms(4) by auto
    with Some assms(2) that show ?thesis by (auto simp: assms(5))
  qed
  show ?thesis using assms(1) iffD1 [OF same] iffD2 [OF same] unfolding alg_view_def by blast
qed

lemma rotate_algs_row:
  assumes "keyset_ok lib v" and "distinct algs" and "inj_on (\<lambda>a. kd_kid (d a)) (set algs)"
    and "\<And>alg. alg \<in> set algs \<Longrightarrow> alg_view v alg (filter (\<lambda>k. jk_Alg k = alg) keys)"
    and "\<And>alg. alg \<in> set algs \<Longrightarrow> \<exists>x k. key_row v x = Some k \<and> jk_Alg k = alg"
    and "\<And>alg. alg \<in> set algs \<Longrightarrow> draw_ok lib v alg (d alg)"
  obtains v' where "rotate_algs lib d keys now algs v = ([], v')" "keyset_ok lib v'"
    "\<And>alg. alg \<in> set algs \<Longrightarrow> key_row v' (kd_kid (d alg)) = Some (drawn lib alg JWKSStateNext (d alg))"
    "\<And>x. x \<notin> (\<lambda>a. kd_kid (d a)) ` set algs \<Longrightarrow>
       key_row v' x = map_option (\<lambda>k. if jk_Alg k \<in> set algs then advance now k else k) (key_row v x)"
  using assms
proof (induction algs arbitrary: v thesis)
  case Nil
  show ?case by (rule Nil.prems(1) [of v]) (simp_all add: Nil.prems(2) option.map_ident)
next
  case (Cons alg algs)
  note prem = Cons.prems(2-)
  obtain x0 k0 where k0: "key_row v x0 = Some k0" "jk_Alg k0 = alg" using prem(5) [of alg] by auto
  have d0: "draw_ok lib v alg (d alg)" using prem(6) by simp
  have view0: "alg_view v alg (filter (\<lambda>k. jk_Alg k = alg) keys)" using prem(4) by simp
  from rotateAlg_row [OF prem(1) view0 k0 d0, of now] obtain v1
    where v1: "rotateAlg lib (d alg) alg (filter (\<lambda>k. jk_Alg k = alg) keys) now v = (None, v1)" "keyset_ok lib v1"
    and r1: "\<And>x. key_row v1 x = (if x = kd_kid (d alg) then Some (drawn lib alg JWKSStateNext (d alg))
       else map_option (\<lambda>k. if jk_Alg k = alg then advance now k else k) (key_row v x))" by blast
  note dd = draw_okD [OF d0]
  have ne: "a \<noteq> alg" "kd_kid (d a) \<noteq> kd_kid (d alg)" if "a \<in> set algs" for a
    using prem(2,3) that by (auto simp: inj_on_def)
  have view: "alg_view v1 a (filter (\<lambda>k. jk_Alg k = a) keys)" if "a \<in> set algs" for a
    by (rule alg_view_other [OF prem(4) ne(1) [OF that] dd(3) dd(7) r1]) (use that in simp)
  have some: "\<exists>x k. key_row v1 x = Some k \<and> jk_Alg k = a" if a: "a \<in> set algs" for a
  proof -
    from prem(5) [of a] a obtain x k where x: "key_row v x = Some k" "jk_Alg k = a" by auto
    then have "x \<noteq> kd_kid (d alg)" using dd(7) by auto
    with x ne(1) [OF a] have "key_row v1 x = Some k" by (simp add: r1)
    with x(2) show ?thesis by blast
  qed
  have draws: "draw_ok lib v1 a (d a)" if "a \<in> set algs" for a
    using prem(6) [of a] ne(2) [OF that] that by (simp add: draw_ok_def r1)
  obtain v2 where v2: "rotate_algs lib d keys now algs v1 = ([], v2)" "keyset_ok lib v2"
    "\<And>a. a \<in> set algs \<Longrightarrow> key_row v2 (kd_kid (d a)) = Some (drawn lib a JWKSStateNext (d a))"
    "\<And>x. x \<notin> (\<lambda>a. kd_kid (d a)) ` set algs \<Longrightarrow>
       key_row v2 x = map_option (\<lambda>k. if jk_Alg k \<in> set algs then advance now k else k) (key_row v1 x)"
  proof (rule Cons.IH [OF _ v1(2) _ _ view some draws])
    show "distinct algs" "inj_on (\<lambda>a. kd_kid (d a)) (set algs)" using prem(2,3) by simp_all
  qed (rule that)
  have a: "alg \<notin> set algs" "kd_kid (d alg) \<notin> (\<lambda>a. kd_kid (d a)) ` set algs" using prem(2) ne(2) by force+
  show ?case
  proof (rule Cons.prems(1) [of v2])
    show "rotate_algs lib d keys now (alg # algs) v = ([], v2)" by (simp add: v1(1) v2(1))
    show "keyset_ok lib v2" by (rule v2(2))
    show "key_row v2 (kd_kid (d a)) = Some (drawn lib a JWKSStateNext (d a))" if "a \<in> set (alg # algs)" for a
    proof (cases "a = alg")
      case True
      with v2(4) [OF a(2)] a(1) show ?thesis by (simp add: r1 dd(3))
    qed (use that v2(3) [of a] in simp)
    show "key_row v2 x = map_option (\<lambda>k. if jk_Alg k \<in> set (alg # algs) then advance now k else k) (key_row v x)"
      if "x \<notin> (\<lambda>a. kd_kid (d a)) ` set (alg # algs)" for x
    proof -
      have x: "x \<notin> (\<lambda>a. kd_kid (d a)) ` set algs" "x \<noteq> kd_kid (d alg)" using that by auto
      show ?thesis unfolding v2(4) [OF x(1)] r1 using x(2) a(1) by (cases "key_row v x") auto
    qed
  qed
qed

text \<open>
  The whole rotation: every stored key advances one state, and every algorithm gets a fresh next
  key. A service without keys refuses.
\<close>

definition service_ok :: "key_lib \<Rightarrow> KeyService \<Rightarrow> bool" where
  "service_ok lib s \<longleftrightarrow> snap_ok lib s \<and> keyset_ok lib (ks_v20 s)"

definition rotation_ok :: "key_lib \<Rightarrow> (string \<Rightarrow> key_draw) \<Rightarrow> KeyService \<Rightarrow> bool" where
  "rotation_ok lib d s \<longleftrightarrow> inj_on (\<lambda>a. kd_kid (d a)) (jk_Alg ` set (ks_keys s))
     \<and> (\<forall>alg \<in> jk_Alg ` set (ks_keys s). draw_ok lib (ks_v20 s) alg (d alg))"

lemma RotateSigningKey_row:
  assumes ok: "service_ok lib s" and d: "rotation_ok lib d s" and ne: "ks_keys s \<noteq> []"
  obtains s' where "RotateSigningKey lib ret d now s = ([], s')" "service_ok lib s'"
    "\<And>x k. key_row (ks_v20 s) x = Some k \<Longrightarrow> key_row (ks_v20 s') x = Some (advance now k)"
    "\<And>x k. key_row (ks_v20 s') x = Some k \<Longrightarrow> key_row (ks_v20 s) x = None \<Longrightarrow> jk_State k = JWKSStateNext"
proof -
  have ok': "snap_ok lib s" "keyset_ok lib (ks_v20 s)" using ok by (simp_all add: service_ok_def)
  note K = snap_keys [OF ok'(1)] and D = keyset_okD [OF ok'(2)]
  let ?algs = "remdups (sort (map jk_Alg (ks_keys s)))"
  have algs: "set ?algs = jk_Alg ` set (ks_keys s)" by simp
  have all: "jk_Alg k \<in> set ?algs" if row: "key_row (ks_v20 s) x = Some k" for x k
  proof -
    from D(7) [OF row, of JWKSStateCurrent] obtain y k' where
      k': "key_row (ks_v20 s) y = Some k'" "jk_Alg k' = jk_Alg k" "jk_State k' = JWKSStateCurrent" by auto
    then have "k' \<in> set (ks_keys s)" by (intro K(2)) simp_all
    then have "jk_Alg k' \<in> jk_Alg ` set (ks_keys s)" by (rule imageI)
    with k'(2) show ?thesis unfolding algs by simp
  qed
  have view: "alg_view (ks_v20 s) alg (filter (\<lambda>k. jk_Alg k = alg) (ks_keys s))" for alg
    unfolding alg_view_def using K(1,2,3) by (auto simp: distinct_map_filter)
  have some: "\<exists>x k. key_row (ks_v20 s) x = Some k \<and> jk_Alg k = alg" if "alg \<in> set ?algs" for alg
    using that K(1) unfolding algs by blast
  have inj: "inj_on (\<lambda>a. kd_kid (d a)) (set ?algs)" and dr: "\<And>alg. alg \<in> set ?algs \<Longrightarrow> draw_ok lib (ks_v20 s) alg (d alg)"
    using d unfolding rotation_ok_def algs by blast+
  obtain v' where v': "rotate_algs lib d (ks_keys s) now ?algs (ks_v20 s) = ([], v')" "keyset_ok lib v'"
    "\<And>alg. alg \<in> set ?algs \<Longrightarrow> key_row v' (kd_kid (d alg)) = Some (drawn lib alg JWKSStateNext (d alg))"
    "\<And>x. x \<notin> (\<lambda>a. kd_kid (d a)) ` set ?algs \<Longrightarrow>
       key_row v' x = map_option (\<lambda>k. if jk_Alg k \<in> set ?algs then advance now k else k) (key_row (ks_v20 s) x)"
  proof (rule rotate_algs_row [OF ok'(2) distinct_remdups inj view, where now = now])
    show "\<exists>x k. key_row (ks_v20 s) x = Some k \<and> jk_Alg k = alg" "draw_ok lib (ks_v20 s) alg (d alg)"
      if "alg \<in> set ?algs" for alg using some [OF that] dr [OF that] .
  qed (rule that)
  let ?keep = "\<lambda>k. \<not> (jk_State k = JWKSStateRetired \<and> (case jk_RetiredAt k of None \<Rightarrow> False | Some t \<Rightarrow> t < now - ret))"
  let ?s = "refreshJWKSSnapshot lib (filter ?keep (JWKSKeysAll v')) (s\<lparr>ks_v20 := v'\<rparr>)"
  have "set ?algs \<noteq> {}" using ne unfolding algs by simp
  then have "?algs \<noteq> []" by (metis empty_set)
  then have rot: "RotateSigningKey lib ret d now s = ([], ?s)" by (simp add: RotateSigningKey_def v'(1) Let_def)
  have sn: "service_ok lib ?s"
    using snap_ok_refresh [of lib "s\<lparr>ks_v20 := v'\<rparr>" ?keep] v'(2) by (simp add: service_ok_def)
  have fr: "x \<notin> (\<lambda>a. kd_kid (d a)) ` set ?algs" if "key_row (ks_v20 s) x = Some k" for x k
  proof
    assume "x \<in> (\<lambda>a. kd_kid (d a)) ` set ?algs"
    then obtain a where a: "a \<in> set ?algs" "x = kd_kid (d a)" by blast
    with draw_okD(7) [OF dr [OF a(1)]] that show False by simp
  qed
  show thesis
  proof (rule that [OF rot sn])
    show "key_row (ks_v20 ?s) x = Some (advance now k)" if r: "key_row (ks_v20 s) x = Some k" for x k
      using v'(4) [OF fr [OF r]] all [OF r] r by simp
    show "jk_State k = JWKSStateNext" if r: "key_row (ks_v20 ?s) x = Some k" "key_row (ks_v20 s) x = None" for x k
    proof (cases "x \<in> (\<lambda>a. kd_kid (d a)) ` set ?algs")
      case True
      then obtain alg where a: "alg \<in> set ?algs" "x = kd_kid (d alg)" by blast
      with v'(3) [OF a(1)] r(1) draw_okD(4) [OF dr [OF a(1)], of JWKSStateNext] show ?thesis by simp
    next
      case False
      with v'(4) [OF False] r show ?thesis by simp
    qed
  qed
qed

end
