(* ===== verification/JwksProps.thy ===== *)
theory JwksProps
  imports JwksRuns
begin

text \<open>
  The life of a signing key over any run of the service: minting on first use, restarts, rotations and
  other writes to the store. A token signed by the service verifies until the second rotation after
  its signing key was current, and a key signs only after it was published for a whole period.
\<close>

section \<open>Minting\<close>

definition minting_ok :: "key_lib \<Rightarrow> string \<Rightarrow> key_draw \<Rightarrow> key_draw \<Rightarrow> KeyService \<Rightarrow> bool" where
  "minting_ok lib alg dc dn s \<longleftrightarrow> draw_ok lib (ks_v20 s) alg dc \<and> draw_ok lib (ks_v20 s) alg dn \<and> kd_kid dc \<noteq> kd_kid dn"

lemma keyset_ok_mint:
  assumes ok: "keyset_ok lib v" and none: "\<And>x k. key_row v x = Some k \<Longrightarrow> jk_Alg k \<noteq> alg"
    and c: "draw_ok lib v alg dc" and n: "draw_ok lib v alg dn" and ne: "kd_kid dc \<noteq> kd_kid dn"
    and v': "gm_ok (v_jwksKeys v')"
      "\<And>x. key_row v' x = (if x = kd_kid dn then Some (drawn lib alg JWKSStateNext dn)
         else if x = kd_kid dc then Some (drawn lib alg JWKSStateCurrent dc) else key_row v x)"
  shows "keyset_ok lib v'"
proof -
  note D = keyset_okD [OF ok] and dc = draw_okD [OF c] and dn = draw_okD [OF n]
  have row: "x = kd_kid dn \<and> k = drawn lib alg JWKSStateNext dn \<or> x = kd_kid dc \<and> k = drawn lib alg JWKSStateCurrent dc
      \<or> key_row v x = Some k \<and> jk_Alg k \<noteq> alg" if "key_row v' x = Some k" for x k
    using that none unfolding v'(2) by (auto split: if_splits)
  have old: "key_row v' x = Some k" if "key_row v x = Some k" for x k
    using that dc(7) dn(7) by (auto simp: v'(2))
  have key: "jk_KID k = x \<and> x \<noteq> [] \<and> key_sound lib k \<and> (jk_State k \<in> live_states \<or> jk_State k = JWKSStateRetired)"
    if "key_row v' x = Some k" for x k
    using row [OF that] dc dn D(2-5) [of x k] by (auto simp: live_states_def)
  have uniq: "x = x'" if r: "key_row v' x = Some k" "key_row v' x' = Some k'" "jk_Alg k = jk_Alg k'" "jk_State k = jk_State k'"
      "jk_State k \<noteq> JWKSStateRetired" for x k x' k'
    using row [OF r(1)] row [OF r(2)] r(3-5) dc(3,4) dn(3,4) D(6) [of x k x' k'] by auto
  have ex: "\<exists>x' k'. key_row v' x' = Some k' \<and> jk_Alg k' = jk_Alg k \<and> jk_State k' = st"
    if r: "key_row v' x = Some k" "st \<in> {JWKSStateCurrent, JWKSStateNext}" for x k st
  proof (cases "jk_Alg k = alg")
    case True
    have "key_row v' (kd_kid dc) = Some (drawn lib alg JWKSStateCurrent dc)" "key_row v' (kd_kid dn) = Some (drawn lib alg JWKSStateNext dn)"
      using ne by (simp_all add: v'(2))
    then show ?thesis using r(2) True dc(3,4) dn(3,4) by blast
  next
    case False
    with row [OF r(1)] dc(3) dn(3) have "key_row v x = Some k" by auto
    from D(7) [OF this r(2)] old show ?thesis by blast
  qed
  show ?thesis unfolding keyset_ok_def using v'(1) key uniq ex by blast
qed

lemma ensureKeysetLocked_row:
  assumes ok: "service_ok lib s" and m: "minting_ok lib alg dc dn s"
  obtains s' where "ensureKeysetLocked lib dc dn alg s = (None, s')" "service_ok lib s'" "hasCurrentKey alg s'"
    "\<And>x k. key_row (ks_v20 s) x = Some k \<Longrightarrow> key_row (ks_v20 s') x = Some k"
proof (cases "hasCurrentKey alg s")
  case True
  with ok that [of s] show thesis by (simp add: ensureKeysetLocked_def)
next
  case False
  have ok': "snap_ok lib s" "keyset_ok lib (ks_v20 s)" using ok by (simp_all add: service_ok_def)
  have dr: "draw_ok lib (ks_v20 s) alg dc" "draw_ok lib (ks_v20 s) alg dn" "kd_kid dc \<noteq> kd_kid dn"
    using m by (simp_all add: minting_ok_def)
  note dc = draw_okD [OF dr(1)] and dn = draw_okD [OF dr(2)]
  have none: "jk_Alg k \<noteq> alg" if "key_row (ks_v20 s) x = Some k" for x k
    using False that unfolding snap_current(2) [OF ok'] by blast
  obtain v1 where v1: "InsertJWKSKey (kd_now dc) (drawn lib alg JWKSStateCurrent dc) (ks_v20 s) = (None, v1)"
    "gm_ok (v_jwksKeys (ks_v20 s)) \<Longrightarrow> gm_ok (v_jwksKeys v1)"
    "\<And>x. key_row v1 x = (if x = kd_kid dc then Some (drawn lib alg JWKSStateCurrent dc) else key_row (ks_v20 s) x)"
    using InsertJWKSKey_row [OF dc(1,7)] by blast
  have "key_row v1 (kd_kid dn) = None" using dr(3) dn(7) by (simp add: v1(3))
  from InsertJWKSKey_row [OF dn(1) this] obtain v2 where
    v2: "InsertJWKSKey (kd_now dn) (drawn lib alg JWKSStateNext dn) v1 = (None, v2)" "gm_ok (v_jwksKeys v1) \<Longrightarrow> gm_ok (v_jwksKeys v2)"
    "\<And>x. key_row v2 x = (if x = kd_kid dn then Some (drawn lib alg JWKSStateNext dn) else key_row v1 x)" by blast
  have r2: "key_row v2 x = (if x = kd_kid dn then Some (drawn lib alg JWKSStateNext dn)
      else if x = kd_kid dc then Some (drawn lib alg JWKSStateCurrent dc) else key_row (ks_v20 s) x)" for x
    by (simp add: v1(3) v2(3))
  have gm: "gm_ok (v_jwksKeys v2)" using v1(2) v2(2) keyset_okD(1) [OF ok'(2)] by blast
  have k2: "keyset_ok lib v2" by (rule keyset_ok_mint [OF ok'(2) none dr gm r2])
  let ?s = "refreshJWKSSnapshot lib (JWKSKeysAll v2) (s\<lparr>ks_v20 := v2\<rparr>)"
  have e: "ensureKeysetLocked lib dc dn alg s = (None, ?s)"
    using False dc(1) [of JWKSStateCurrent] dn(1) [of JWKSStateNext] v1(1) v2(1) by (simp add: ensureKeysetLocked_def Let_def)
  have sv: "service_ok lib ?s"
    using snap_ok_refresh [of lib "s\<lparr>ks_v20 := v2\<rparr>" "\<lambda>_. True"] k2 by (simp add: service_ok_def)
  have "key_row (ks_v20 ?s) (kd_kid dc) = Some (drawn lib alg JWKSStateCurrent dc)" using dr(3) by (simp add: r2)
  with dc(3) snap_current(2) [of lib ?s alg] sv have h: "hasCurrentKey alg ?s" unfolding service_ok_def by blast
  have keep: "key_row (ks_v20 ?s) x = Some k" if "key_row (ks_v20 s) x = Some k" for x k
    using that dc(7) dn(7) by (auto simp: r2)
  from that [OF e sv h keep] show thesis .
qed

lemma SigningKeyFor_row:
  assumes ok: "service_ok lib s" and m: "minting_ok lib alg dc dn s"
  obtains s' where "snd (SigningKeyFor lib cfg dc dn alg s) = s'" "service_ok lib s'"
    "\<And>x k. key_row (ks_v20 s) x = Some k \<Longrightarrow> key_row (ks_v20 s') x = Some k"
    "fst (SigningKeyFor lib cfg dc dn alg s) = (if SigningAlgEnabled cfg alg then currentKeyForAlg lib alg s' else Inl JwksNotEnabled)"
    "SigningAlgEnabled cfg alg \<Longrightarrow> hasCurrentKey alg s'"
proof (cases "SigningAlgEnabled cfg alg \<and> isl (currentKeyForAlg lib alg s)")
  case True
  then obtain e where e: "currentKeyForAlg lib alg s = Inl e" by (auto simp: isl_def)
  obtain s' where s': "ensureKeysetLocked lib dc dn alg s = (None, s')" "service_ok lib s'" "hasCurrentKey alg s'"
    "\<And>x k. key_row (ks_v20 s) x = Some k \<Longrightarrow> key_row (ks_v20 s') x = Some k"
    using ensureKeysetLocked_row [OF ok m] by blast
  have "SigningKeyFor lib cfg dc dn alg s = (currentKeyForAlg lib alg s', s')" using True e s'(1) by (simp add: SigningKeyFor_def)
  with True that [of s'] s' show thesis by simp
next
  case False
  then have "SigningKeyFor lib cfg dc dn alg s =
      (if SigningAlgEnabled cfg alg then currentKeyForAlg lib alg s else Inl JwksNotEnabled, s)"
    by (auto simp: SigningKeyFor_def split: sum.splits)
  moreover have "SigningAlgEnabled cfg alg \<Longrightarrow> hasCurrentKey alg s"
    using False snap_current(3) [of lib s alg] ok by (simp add: service_ok_def)
  ultimately show thesis using that [of s] ok by simp
qed

text \<open>A restart forgets the snapshot and loads the stored keys again.\<close>

definition restarted :: "KeyService \<Rightarrow> KeyService" where
  "restarted s = s\<lparr>ks_keys := [], ks_keyMap := [], ks_priv := [], ks_pub := []\<rparr>"

lemma bootstrapJWKS_row:
  assumes ok: "keyset_ok lib (ks_v20 s)" and m: "minting_ok lib (defaultSigningAlg cfg) dc dn s"
  obtains s' where "bootstrapJWKS lib cfg dc dn s = (None, s')" "service_ok lib s'"
    "\<And>x k. key_row (ks_v20 s) x = Some k \<Longrightarrow> key_row (ks_v20 s') x = Some k"
proof -
  let ?s = "refreshJWKSSnapshot lib (JWKSKeysAll (ks_v20 s)) s"
  have "service_ok lib ?s" using snap_ok_refresh [of lib s "\<lambda>_. True"] ok by (simp add: service_ok_def)
  moreover have "minting_ok lib (defaultSigningAlg cfg) dc dn ?s" using m by (simp add: minting_ok_def)
  ultimately obtain s' where "ensureKeysetLocked lib dc dn (defaultSigningAlg cfg) ?s = (None, s')" "service_ok lib s'"
    "\<And>x k. key_row (ks_v20 ?s) x = Some k \<Longrightarrow> key_row (ks_v20 s') x = Some k"
    using ensureKeysetLocked_row by blast
  with that [of s'] show thesis by (simp add: bootstrapJWKS_def)
qed

section \<open>Runs\<close>

text \<open>
  \<open>key_run\<close> relates a state to one reached from it with a number of rotations in between. The other
  writes to the store leave the keys alone.
\<close>

inductive key_run :: "key_lib \<Rightarrow> Config \<Rightarrow> duration \<Rightarrow> KeyService \<Rightarrow> nat \<Rightarrow> KeyService \<Rightarrow> bool"
  for lib cfg ret s where
  stay: "key_run lib cfg ret s 0 s"
| sign: "key_run lib cfg ret s n t \<Longrightarrow> minting_ok lib alg dc dn t \<Longrightarrow>
    key_run lib cfg ret s n (snd (SigningKeyFor lib cfg dc dn alg t))"
| restart: "key_run lib cfg ret s n t \<Longrightarrow> minting_ok lib (defaultSigningAlg cfg) dc dn t \<Longrightarrow>
    key_run lib cfg ret s n (snd (bootstrapJWKS lib cfg dc dn (restarted t)))"
| rotate: "key_run lib cfg ret s n t \<Longrightarrow> rotation_ok lib d t \<Longrightarrow>
    key_run lib cfg ret s (Suc n) (snd (RotateSigningKey lib ret d now t))"
| other: "key_run lib cfg ret s n t \<Longrightarrow> v_jwksKeys v = v_jwksKeys (ks_v20 t) \<Longrightarrow>
    key_run lib cfg ret s n (t\<lparr>ks_v20 := v\<rparr>)"

lemma service_ok_other:
  assumes "service_ok lib t" and "v_jwksKeys v = v_jwksKeys (ks_v20 t)"
  shows "service_ok lib (t\<lparr>ks_v20 := v\<rparr>)"
proof -
  from assms(1) obtain ks where ks: "t = refreshJWKSSnapshot lib ks t" "distinct (map jk_KID ks)"
     "\<forall>k \<in> set ks. key_row (ks_v20 t) (jk_KID k) = Some k"
     "\<forall>kid k. key_row (ks_v20 t) kid = Some k \<and> jk_State k \<noteq> JWKSStateRetired \<longrightarrow> k \<in> set ks"
    by (auto simp: service_ok_def snap_ok_def)
  have one: "snapshot_key lib k (a\<lparr>ks_v20 := v\<rparr>) = (snapshot_key lib k a)\<lparr>ks_v20 := v\<rparr>" for a k
    by (simp add: snapshot_key_def Let_def split: option.splits sum.splits)
  have comm: "foldl (\<lambda>s k. snapshot_key lib k s) (a\<lparr>ks_v20 := v\<rparr>) xs = (foldl (\<lambda>s k. snapshot_key lib k s) a xs)\<lparr>ks_v20 := v\<rparr>" for a xs
    by (induction xs arbitrary: a) (simp_all add: one)
  have "refreshJWKSSnapshot lib ks (t\<lparr>ks_v20 := v\<rparr>) = (refreshJWKSSnapshot lib ks t)\<lparr>ks_v20 := v\<rparr>"
    unfolding refreshJWKSSnapshot_def Let_def
    by (subst comm [symmetric], rule arg_cong [where f = "\<lambda>s. foldl _ s _"]) simp
  with ks(1) have "t\<lparr>ks_v20 := v\<rparr> = refreshJWKSSnapshot lib ks (t\<lparr>ks_v20 := v\<rparr>)" by simp
  then have "snap_ok lib (t\<lparr>ks_v20 := v\<rparr>)"
    unfolding snap_ok_def using ks(2-4) by (intro exI [of _ ks] conjI) (simp_all add: assms(2))
  moreover have "keyset_ok lib v = keyset_ok lib (ks_v20 t)" by (simp only: keyset_ok_def assms(2))
  ultimately show ?thesis using assms(1) by (simp add: service_ok_def)
qed

text \<open>What a run does to a stored key: its state advances once for every rotation, nothing else changes.\<close>

lemma key_run_row:
  assumes "key_run lib cfg ret s n t" and "service_ok lib s"
  shows "service_ok lib t \<and> (\<forall>x k. key_row (ks_v20 s) x = Some k \<longrightarrow>
    (\<exists>k'. key_row (ks_v20 t) x = Some k' \<and> jk_Alg k' = jk_Alg k \<and> jk_PublicJWK k' = jk_PublicJWK k
       \<and> jk_PrivateEnc k' = jk_PrivateEnc k \<and> jk_State k' = (next_state ^^ n) (jk_State k)))"
  using assms
proof induction
  case (sign n t alg dc dn)
  from sign.IH sign.prems have ok: "service_ok lib t" by blast
  obtain t' where "snd (SigningKeyFor lib cfg dc dn alg t) = t'" "service_ok lib t'"
    "\<And>x k. key_row (ks_v20 t) x = Some k \<Longrightarrow> key_row (ks_v20 t') x = Some k" using SigningKeyFor_row [OF ok sign.hyps(2)] by metis
  with sign.IH sign.prems show ?case by blast
next
  case (restart n t dc dn)
  from restart.IH restart.prems have "keyset_ok lib (ks_v20 (restarted t))" by (simp add: service_ok_def restarted_def)
  moreover have "minting_ok lib (defaultSigningAlg cfg) dc dn (restarted t)" using restart.hyps(2) by (simp add: minting_ok_def restarted_def)
  ultimately obtain t' where t': "bootstrapJWKS lib cfg dc dn (restarted t) = (None, t')" "service_ok lib t'"
    and "\<And>x k. key_row (ks_v20 (restarted t)) x = Some k \<Longrightarrow> key_row (ks_v20 t') x = Some k" using bootstrapJWKS_row by metis
  then have "\<And>x k. key_row (ks_v20 t) x = Some k \<Longrightarrow> key_row (ks_v20 t') x = Some k" by (simp add: restarted_def)
  with restart.IH restart.prems t'(2) show ?case unfolding t'(1) snd_conv by blast
next
  case (rotate n t d now)
  from rotate.IH rotate.prems have ok: "service_ok lib t" by blast
  show ?case
  proof (cases "ks_keys t = []")
    case True
    have none: "key_row (ks_v20 t) x = None" for x
    proof (cases "key_row (ks_v20 t) x")
      case (Some k)
      with ok snap_current(2) [of lib t "jk_Alg k"] have "hasCurrentKey (jk_Alg k) t" unfolding service_ok_def by blast
      with True show ?thesis by (simp add: hasCurrentKey_def)
    qed
    have "snd (RotateSigningKey lib ret d now t) = t" using True by (simp add: RotateSigningKey_def)
    with ok none rotate.IH rotate.prems show ?thesis by (metis option.distinct(1))
  next
    case False
    obtain t' where t': "RotateSigningKey lib ret d now t = ([], t')" "service_ok lib t'"
      "\<And>x k. key_row (ks_v20 t) x = Some k \<Longrightarrow> key_row (ks_v20 t') x = Some (advance now k)"
      using RotateSigningKey_row [OF ok rotate.hyps(2) False] by metis
    show ?thesis
    proof (intro conjI allI impI)
      fix x k assume "key_row (ks_v20 s) x = Some k"
      with rotate.IH rotate.prems obtain k' where "key_row (ks_v20 t) x = Some k'" "jk_Alg k' = jk_Alg k"
        "jk_PublicJWK k' = jk_PublicJWK k" "jk_PrivateEnc k' = jk_PrivateEnc k" "jk_State k' = (next_state ^^ n) (jk_State k)" by blast
      with t'(1) t'(3) [OF this(1)] show "\<exists>k'. key_row (ks_v20 (snd (RotateSigningKey lib ret d now t))) x = Some k' \<and> jk_Alg k' = jk_Alg k
          \<and> jk_PublicJWK k' = jk_PublicJWK k \<and> jk_PrivateEnc k' = jk_PrivateEnc k \<and> jk_State k' = (next_state ^^ Suc n) (jk_State k)"
        by simp
    qed (simp add: t')
  qed
next
  case (other n t v)
  then show ?case using service_ok_other [of lib t v] by auto
qed auto

text \<open>A service whose store has no keys yet.\<close>

definition key_start :: "KeyService \<Rightarrow> bool" where
  "key_start s \<longleftrightarrow> v_jwksKeys (ks_v20 s) = [] \<and> s = restarted s"

lemma key_start_ok: "key_start s \<Longrightarrow> service_ok lib s"
proof -
  assume s: "key_start s"
  then have "s = refreshJWKSSnapshot lib [] s" by (simp add: key_start_def restarted_def refreshJWKSSnapshot_def)
  with s show ?thesis unfolding service_ok_def snap_ok_def keyset_ok_def key_start_def
    by (intro conjI exI [of _ "[]"]) auto
qed

lemma funpow_next_state:
  "(next_state ^^ n) JWKSStateCurrent =
     (if n = 0 then JWKSStateCurrent else if n = 1 then JWKSStatePrevious else JWKSStateRetired)"
proof -
  have r: "(next_state ^^ m) JWKSStateRetired = JWKSStateRetired" for m by (induction m) simp_all
  consider "n = 0" | "n = 1" | m where "n = Suc (Suc m)" by (metis One_nat_def nat.exhaust)
  then show ?thesis by cases (simp_all add: r del: funpow.simps add: funpow_Suc_right)
qed

lemma VerificationKey_run:
  assumes "service_ok lib s" and "key_row (ks_v20 s) x = Some k" and "jk_State k = JWKSStateCurrent"
    and "loadPrivateKey lib k = Inr sg" and "key_run lib cfg ret s n t"
  shows "VerificationKey t x = (if n \<le> 1 then Some (jk_Alg k, sg_Public sg) else None)"
proof -
  have s: "snap_ok lib s" "keyset_ok lib (ks_v20 s)" using assms(1) by (simp_all add: service_ok_def)
  have pub: "parsePublicJWK lib (jk_PublicJWK k) = Some (jk_Alg k, sg_Public sg)"
    using keyset_okD(4) [OF s(2) assms(2)] assms(4) by (auto simp: key_sound_def)
  have t: "service_ok lib t" using key_run_row [OF assms(5,1)] by blast
  from conjunct2 [OF key_run_row [OF assms(5,1)], rule_format, OF assms(2)] assms(3) obtain k' where
    "key_row (ks_v20 t) x = Some k'" "jk_PublicJWK k' = jk_PublicJWK k" "jk_State k' = (next_state ^^ n) JWKSStateCurrent" by auto
  with t show ?thesis using snap_verification [of lib t x] pub by (simp add: service_ok_def funpow_next_state)
qed



section \<open>A run\<close>

text \<open>
  A service that signs one token and rotates. The JSON of a key is its identifier and its public
  part; a key is its own seed.
\<close>

definition ex_read_jwk :: "string \<Rightarrow> jwk option" where
  "ex_read_jwk t = (case Split CHR ''.'' t of
     [k, x] \<Rightarrow> Some \<lparr>j_Kty = ''OKP'', j_Crv = ''Ed25519'', j_X = x, j_Y = [], j_N = [], j_E = [], j_Alg = AlgEdDSA, j_Use = ''sig'', j_Kid = k\<rparr>
   | _ \<Rightarrow> None)"

definition ex_write_jwk :: "jwk \<Rightarrow> string option" where
  "ex_write_jwk j = (let t = j_Kid j @ ''.'' @ j_X j in if ex_read_jwk t = Some j then Some t else None)"

definition ex_keys :: key_lib where
  "ex_keys = \<lparr>kl_jwk = ex_read_jwk, kl_jwk_json = ex_write_jwk, kl_decrypt = Some,
     kl_seed = (\<lambda>x. \<lparr>sg_Public = EdKey x, sg_Sign = (\<lambda>_ m. Some m)\<rparr>), kl_pkcs8 = (\<lambda>_. None), kl_point = (\<lambda>_. False)\<rparr>"

definition ex_draw :: "string \<Rightarrow> key_draw" where
  "ex_draw kid = \<lparr>kd_kid = kid, kd_ed = Some (replicate 32 CHR ''p'', replicate 32 CHR ''p''), kd_ec = None, kd_rsa = None,
     kd_enc = Some, kd_now = 1\<rparr>"

definition ex_kcfg :: Config where
  "ex_kcfg = \<lparr>cf_Issuer = ''iss'', cf_Resources = [], cf_SigningAlg = [], cf_TokenPolicy = None, cf_AccessTokenTTL = 0,
     cf_RefreshTokenTTL = 0, cf_AuthorizationCodeTTL = 0, cf_ConsentMaxGrantTTL = 0, cf_RequireState = False,
     cf_AccessTokenRevocation = False,
     cf_ClientCompat = \<lparr>cc_OptionalResource = False, cc_DropUnknownScopes = False, cc_LoopbackAnyPort = False,
       cc_LoopbackAllowLocalhost = False, cc_PathAudience = False\<rparr>,
     cf_OIDC = False, cf_ACRValues = [], cf_ConsentTicketTTL = 0, cf_ClockSkew = 0,
     cf_IntrospectionCacheTTL = 0, cf_SubjectActiveCacheTTL = 0, cf_MaxActorChainDepth = 0\<rparr>"

definition ex_ks0 :: KeyService where
  "ex_ks0 = \<lparr>ks_v20 = ensureV20, ks_keys = [], ks_keyMap = [], ks_priv = [], ks_pub = []\<rparr>"

definition ex_seed :: string where "ex_seed = replicate 32 CHR ''p''"

definition ex_key :: "string \<Rightarrow> string \<Rightarrow> JWKSKey" where
  "ex_key kid st = \<lparr>jk_KID = kid, jk_Alg = AlgEdDSA, jk_Use = ''sig'', jk_PublicJWK = kid @ ''.'' @ EncodeToString ex_seed,
     jk_PrivateEnc = ex_seed, jk_State = st, jk_CreatedAt = 1,
     jk_PromotedAt = (if st = JWKSStateCurrent then Some 1 else None), jk_RetiredAt = None\<rparr>"

definition ex_ksigner :: Signer where
  "ex_ksigner = \<lparr>sg_Public = EdKey ex_seed, sg_Sign = (\<lambda>_ m. Some m)\<rparr>"

definition ex_ks1 :: KeyService where
  "ex_ks1 = (let c = ex_key ''k'' JWKSStateCurrent; n = ex_key ''n'' JWKSStateNext; p = (AlgEdDSA, EdKey ex_seed) in
     \<lparr>ks_v20 = ensureV20\<lparr>v_jwksKeys := [(''k'', c), (''n'', n)]\<rparr>, ks_keys = [c, n], ks_keyMap = [(''k'', c), (''n'', n)],
      ks_priv = [(''k'', ex_ksigner), (''n'', ex_ksigner)], ks_pub = [(''k'', p), (''n'', p)]\<rparr>)"

lemma ex_read:
  "CHR ''.'' \<notin> set kid \<Longrightarrow> ex_read_jwk (kid @ CHR ''.'' # EncodeToString b) =
     Some \<lparr>j_Kty = ''OKP'', j_Crv = ''Ed25519'', j_X = EncodeToString b, j_Y = [], j_N = [], j_E = [], j_Alg = AlgEdDSA,
       j_Use = ''sig'', j_Kid = kid\<rparr>"
proof -
  have "CHR ''.'' \<notin> set (EncodeToString b)" using EncodeToString_plain by blast
  then show "CHR ''.'' \<notin> set kid \<Longrightarrow> ?thesis" by (simp add: ex_read_jwk_def Split_append Split_plain)
qed

lemma ex_generate:
  "CHR ''.'' \<notin> set kid \<Longrightarrow> generateKeypair ex_keys (ex_draw kid) AlgEdDSA st = Inr (ex_key kid st)"
  by (simp add: generateKeypair_def new_jwk_def ex_keys_def ex_draw_def ex_write_jwk_def ex_read ex_key_def ex_seed_def Let_def)

lemma ex_load: "loadPrivateKey ex_keys (ex_key kid st) = Inr ex_ksigner"
  by (simp add: loadPrivateKey_def ex_keys_def ex_key_def ex_seed_def ex_ksigner_def)

lemma ex_parse: "CHR ''.'' \<notin> set kid \<Longrightarrow> parsePublicJWK ex_keys (jk_PublicJWK (ex_key kid st)) = Some (AlgEdDSA, EdKey ex_seed)"
  by (simp add: parsePublicJWK_def ex_keys_def ex_key_def ex_read PublicKeySize_def) (simp add: ex_seed_def)

lemma ex_draw_ok: "key_row v kid = None \<Longrightarrow> kid \<noteq> [] \<Longrightarrow> CHR ''.'' \<notin> set kid \<Longrightarrow> draw_ok ex_keys v AlgEdDSA (ex_draw kid)"
  by (simp add: draw_ok_def ex_generate)
    (simp add: draw_pair_def ex_keys_def ex_draw_def ex_write_jwk_def PublicKeySize_def Let_def)

lemma ex_key_sel [simp]: "jk_KID (ex_key kid st) = kid" "jk_Alg (ex_key kid st) = AlgEdDSA" "jk_State (ex_key kid st) = st"
  "jk_CreatedAt (ex_key kid st) = 1"
  by (simp_all add: ex_key_def)

lemma ex_signing:
  "SigningKeyFor ex_keys ex_kcfg (ex_draw ''k'') (ex_draw ''n'') AlgEdDSA ex_ks0 = (Inr (ex_key ''k'' JWKSStateCurrent, ex_ksigner), ex_ks1)"
  by (simp add: SigningKeyFor_def SigningAlgEnabled_def defaultSigningAlg_def ex_kcfg_def currentKeyForAlg_def ensureKeysetLocked_def
      hasCurrentKey_def ex_ks0_def ex_generate InsertJWKSKey_def JWKSKeysAll_def refreshJWKSSnapshot_def state_order_def
      snapshot_key_def ex_load ex_parse Let_def ex_ks1_def ensureV20_def)

lemma ex_minting: "minting_ok ex_keys AlgEdDSA (ex_draw ''k'') (ex_draw ''n'') ex_ks0"
  unfolding minting_ok_def
  by (intro conjI ex_draw_ok) (simp_all add: ex_ks0_def ensureV20_def ex_draw_def)

lemma ex_rotation: "rotation_ok ex_keys (\<lambda>_. ex_draw ''m'') ex_ks1"
proof -
  have "draw_ok ex_keys (ks_v20 ex_ks1) AlgEdDSA (ex_draw ''m'')"
    by (rule ex_draw_ok) (simp_all add: ex_ks1_def Let_def)
  then show ?thesis by (simp add: rotation_ok_def ex_ks1_def Let_def)
qed

lemma ex_start: "key_start ex_ks0"
  by (simp add: key_start_def restarted_def ex_ks0_def ensureV20_def)



text \<open>
  A failure between the two insertions of \<open>ensureKeysetLocked\<close> leaves a current key in the store that the
  snapshot does not know. The next call mints a second current key for the algorithm.
\<close>

definition ex_failing :: key_draw where
  "ex_failing = (ex_draw ''n'')\<lparr>kd_ed := None\<rparr>"

lemma second_current_key:
  "\<exists>s s'. ensureKeysetLocked ex_keys (ex_draw ''k'') ex_failing AlgEdDSA ex_ks0 = (Some JwksGenerate, s)
     \<and> ensureKeysetLocked ex_keys (ex_draw ''m'') (ex_draw ''o'') AlgEdDSA s = (None, s')
     \<and> {kid. \<exists>k. key_row (ks_v20 s') kid = Some k \<and> jk_Alg k = AlgEdDSA \<and> jk_State k = JWKSStateCurrent} = {''k'', ''m''}"
proof -
  have g: "generateKeypair ex_keys ex_failing AlgEdDSA JWKSStateNext = Inl JwksGenerate"
    by (simp add: generateKeypair_def new_jwk_def ex_failing_def Let_def)
  let ?s = "ex_ks0\<lparr>ks_v20 := ensureV20\<lparr>v_jwksKeys := [(''k'', ex_key ''k'' JWKSStateCurrent)]\<rparr>\<rparr>"
  have 1: "ensureKeysetLocked ex_keys (ex_draw ''k'') ex_failing AlgEdDSA ex_ks0 = (Some JwksGenerate, ?s)"
    by (simp add: ensureKeysetLocked_def hasCurrentKey_def ex_ks0_def ex_generate g InsertJWKSKey_def Let_def ensureV20_def)
  let ?r = "ensureKeysetLocked ex_keys (ex_draw ''m'') (ex_draw ''o'') AlgEdDSA ?s"
  have 2: "fst ?r = None" "v_jwksKeys (ks_v20 (snd ?r)) =
      [(''k'', ex_key ''k'' JWKSStateCurrent), (''m'', ex_key ''m'' JWKSStateCurrent), (''o'', ex_key ''o'' JWKSStateNext)]"
    by (simp_all add: ensureKeysetLocked_def hasCurrentKey_def ex_ks0_def ex_generate InsertJWKSKey_def Let_def ensureV20_def)
  show ?thesis
    by (intro exI [of _ ?s] exI [of _ "snd ?r"] conjI) (use 1 2 in \<open>auto simp: prod_eq_iff split: if_splits\<close>)
qed

end
