(* ===== verification/Ratelimit.thy ===== *)
theory Ratelimit
  imports Prelude "HOL-Library.Signed_Division"
begin

text \<open>
  Request limiting, \<open>src/internal/ratelimit\<close>: the bounded per-key limiter of \<open>window.go\<close>, the keyed
  limiter with its collector and the client address helpers of \<open>ratelimit.go\<close>. The token bucket of
  \<open>golang.org/x/time/rate\<close> and the address parser of \<open>net/netip\<close> are parameters; the theorems hold
  for every value of them.
\<close>

section \<open>Windows\<close>

record Window =
  w_Requests :: int
  w_Per :: duration
  w_Burst :: int

definition Enabled :: "Window \<Rightarrow> bool" where
  "Enabled w \<longleftrightarrow> w_Requests w > 0 \<and> w_Per w > 0"

definition normalized :: "Window \<Rightarrow> Window" where
  "normalized w = (if w_Burst w \<le> 0 then w\<lparr>w_Burst := w_Requests w\<rparr> else w)"

text \<open>64-bit product, then division that truncates toward zero.\<close>

definition refill :: "Window \<Rightarrow> duration" where
  "refill w = (if \<not> Enabled w then 0 else i64 (w_Per w * w_Burst w) sdiv w_Requests w)"

section \<open>The bounded limiter\<close>

text \<open>The library's token bucket: a new bucket, and the reservation of one token at an instant, which
  reports whether it is possible at all and how long to wait; cancelling a reservation.\<close>

record 'l ratelib =
  NewLimiter :: "duration \<Rightarrow> int \<Rightarrow> 'l"
  ReserveN :: "time \<Rightarrow> 'l \<Rightarrow> bool \<times> duration \<times> 'l"
  CancelAt :: "time \<Rightarrow> 'l \<Rightarrow> 'l"
  LimiterAllow :: "time \<Rightarrow> 'l \<Rightarrow> bool \<times> 'l"

record 'l windowEntry =
  we_win :: Window
  we_lim :: 'l
  we_last :: time

record 'l WindowLimiter =
  wl_win :: Window
  wl_maxKeys :: nat
  wl_entries :: "(string, 'l windowEntry) gomap"

definition DefaultWindowMaxKeys :: nat where "DefaultWindowMaxKeys = 10000"

definition NewWindowLimiter :: "Window \<Rightarrow> int \<Rightarrow> 'l WindowLimiter" where
  "NewWindowLimiter w maxKeys =
     \<lparr>wl_win = normalized w,
      wl_maxKeys = (if maxKeys \<le> 0 then DefaultWindowMaxKeys else nat maxKeys),
      wl_entries = []\<rparr>"

text \<open>The loop of \<open>evictLocked\<close>: what it keeps, and the least recently used key it met. As in the
  source the empty key means that none was met yet.\<close>

fun evict_scan ::
  "time \<Rightarrow> (string, 'l windowEntry) gomap \<Rightarrow> string \<Rightarrow> time \<Rightarrow> (string, 'l windowEntry) gomap \<times> string" where
  "evict_scan now [] oldestKey oldest = ([], oldestKey)"
| "evict_scan now ((k, e) # es) oldestKey oldest =
     (if time_sub now (we_last e) \<ge> refill (we_win e) then evict_scan now es oldestKey oldest
      else if oldestKey = [] \<or> we_last e < oldest
      then (case evict_scan now es k (we_last e) of (kept, old) \<Rightarrow> ((k, e) # kept, old))
      else (case evict_scan now es oldestKey oldest of (kept, old) \<Rightarrow> ((k, e) # kept, old)))"

definition evictLocked :: "time \<Rightarrow> 'l WindowLimiter \<Rightarrow> 'l WindowLimiter" where
  "evictLocked now l =
     (case evict_scan now (wl_entries l) [] zero_time of
        (kept, oldestKey) \<Rightarrow>
          l\<lparr>wl_entries := (if length kept \<ge> wl_maxKeys l \<and> oldestKey \<noteq> []
                           then gm_del oldestKey kept else kept)\<rparr>)"

text \<open>The end of \<open>take\<close>: spend a token of the bucket and store it back.\<close>

definition spend ::
  "'l ratelib \<Rightarrow> time \<Rightarrow> string \<Rightarrow> 'l windowEntry \<Rightarrow> 'l WindowLimiter \<Rightarrow> (bool \<times> duration) \<times> 'l WindowLimiter" where
  "spend lib now key e l =
     (case ReserveN lib now (we_lim e) of
        (possible, d, lim) \<Rightarrow>
          (let put = (\<lambda>lim. l\<lparr>wl_entries := gm_put key (e\<lparr>we_lim := lim, we_last := now\<rparr>) (wl_entries l)\<rparr>) in
           if \<not> possible then ((False, w_Per (we_win e)), put lim)
           else if d > 0 then ((False, d), put (CancelAt lib now lim))
           else ((True, 0), put lim)))"

definition new_entry :: "'l ratelib \<Rightarrow> Window \<Rightarrow> 'l windowEntry" where
  "new_entry lib w =
     (let every = w_Per w sdiv w_Requests w;
          every = (if every \<le> 0 then nanosecond else every)
      in \<lparr>we_win = w, we_lim = NewLimiter lib every (w_Burst w), we_last = zero_time\<rparr>)"

definition take_token ::
  "'l ratelib \<Rightarrow> time \<Rightarrow> string \<Rightarrow> Window \<Rightarrow> bool \<Rightarrow> 'l WindowLimiter \<Rightarrow> (bool \<times> duration) \<times> 'l WindowLimiter" where
  "take_token lib now key w keepExisting l =
     (if (key = [] \<or> \<not> Enabled w) \<and> (\<not> keepExisting \<or> key = []) then ((True, 0), l)
      else
        (let old = gm_get (wl_entries l) key;
             w = (case old of Some e \<Rightarrow> if keepExisting then we_win e else w | None \<Rightarrow> w) in
         if \<not> Enabled w then ((True, 0), l)
         else
           (case old of
              Some e \<Rightarrow> spend lib now key (if we_win e = w then e else new_entry lib w) l
            | None \<Rightarrow>
                spend lib now key (new_entry lib w)
                  (if length (wl_entries l) \<ge> wl_maxKeys l then evictLocked now l else l))))"

definition WL_Allow :: "'l ratelib \<Rightarrow> time \<Rightarrow> string \<Rightarrow> 'l WindowLimiter \<Rightarrow> (bool \<times> duration) \<times> 'l WindowLimiter" where
  "WL_Allow lib now key l = take_token lib now key (wl_win l) False l"

definition AllowWith :: "'l ratelib \<Rightarrow> time \<Rightarrow> string \<Rightarrow> Window \<Rightarrow> 'l WindowLimiter \<Rightarrow> (bool \<times> duration) \<times> 'l WindowLimiter" where
  "AllowWith lib now key w l = take_token lib now key (normalized w) False l"

definition AllowCurrent :: "'l ratelib \<Rightarrow> time \<Rightarrow> string \<Rightarrow> 'l WindowLimiter \<Rightarrow> (bool \<times> duration) \<times> 'l WindowLimiter" where
  "AllowCurrent lib now key l = take_token lib now key (wl_win l) True l"

section \<open>The keyed limiter\<close>

record 'l limiterEntry =
  le_lim :: 'l
  le_lastUsed :: time

record 'l Keyed =
  ke_limits :: "(string, 'l limiterEntry) gomap"
  ke_perMinute :: int
  ke_evictAfter :: duration
  ke_tickerEvery :: duration

definition NewWith :: "int \<Rightarrow> duration \<Rightarrow> duration \<Rightarrow> 'l Keyed" where
  "NewWith perMinute evictAfter tickerEvery =
     \<lparr>ke_limits = [],
      ke_perMinute = (if perMinute \<le> 0 then 60 else perMinute),
      ke_evictAfter = (if evictAfter \<le> 0 then 10 * minute else evictAfter),
      ke_tickerEvery = (if tickerEvery \<le> 0 then minute else tickerEvery)\<rparr>"

definition Keyed_Allow :: "'l ratelib \<Rightarrow> time \<Rightarrow> string \<Rightarrow> 'l Keyed \<Rightarrow> bool \<times> 'l Keyed" where
  "Keyed_Allow lib now key k =
     (if key = [] then (True, k)
      else
        (let e = (case gm_get (ke_limits k) key of
                    Some e \<Rightarrow> e\<lparr>le_lastUsed := now\<rparr>
                  | None \<Rightarrow> \<lparr>le_lim = NewLimiter lib (minute sdiv ke_perMinute k) (ke_perMinute k),
                              le_lastUsed = now\<rparr>) in
         case LimiterAllow lib now (le_lim e) of
           (b, lim) \<Rightarrow> (b, k\<lparr>ke_limits := gm_put key (e\<lparr>le_lim := lim\<rparr>) (ke_limits k)\<rparr>)))"

text \<open>\<open>evictStale\<close> drops its read lock before it takes the write lock: \<open>env\<close> is what other callers do
  in between.\<close>

definition evictStale :: "('l Keyed \<Rightarrow> 'l Keyed) \<Rightarrow> time \<Rightarrow> 'l Keyed \<Rightarrow> 'l Keyed" where
  "evictStale env cutoff k =
     (let stale = map fst (filter (\<lambda>(key, e). le_lastUsed e < cutoff) (ke_limits k)) in
      if stale = [] then k
      else
        fold (\<lambda>key k. case gm_get (ke_limits k) key of
               Some e \<Rightarrow> if le_lastUsed e < cutoff then k\<lparr>ke_limits := gm_del key (ke_limits k)\<rparr> else k
             | None \<Rightarrow> k) stale (env k))"

section \<open>Client addresses\<close>

record ('addr, 'pfx) netip =
  ParseAddr :: "string \<Rightarrow> 'addr option"
  Unmap :: "'addr \<Rightarrow> 'addr"
  AddrString :: "'addr \<Rightarrow> string"
  Contains :: "'pfx \<Rightarrow> 'addr \<Rightarrow> bool"
  SplitHostPort :: "string \<Rightarrow> string option"

definition prefixesContain :: "('a, 'p) netip \<Rightarrow> 'p list \<Rightarrow> 'a \<Rightarrow> bool" where
  "prefixesContain lib trusted addr \<longleftrightarrow> list_ex (\<lambda>p. Contains lib p addr) trusted"

definition RemoteAddrHost :: "('a, 'p) netip \<Rightarrow> string \<Rightarrow> string" where
  "RemoteAddrHost lib remoteAddr =
     (case SplitHostPort lib remoteAddr of None \<Rightarrow> remoteAddr | Some host \<Rightarrow> host)"

definition RemoteIsTrusted :: "('a, 'p) netip \<Rightarrow> string \<Rightarrow> 'p list \<Rightarrow> bool" where
  "RemoteIsTrusted lib ip trusted =
     (case ParseAddr lib ip of None \<Rightarrow> False | Some addr \<Rightarrow> list_ex (\<lambda>p. Contains lib p addr) trusted)"

fun split_comma :: "string \<Rightarrow> string list" where
  "split_comma [] = [[]]"
| "split_comma (c # cs) =
     (if c = CHR '','' then [] # split_comma cs
      else (case split_comma cs of p # ps \<Rightarrow> (c # p) # ps | [] \<Rightarrow> [[c]]))"

text \<open>The hops of all header lines; \<open>trim\<close> is \<open>strings.TrimSpace\<close>.\<close>

definition xff_hops :: "(string \<Rightarrow> string) \<Rightarrow> string list \<Rightarrow> string list" where
  "xff_hops trim ls = filter (\<lambda>p. p \<noteq> []) (map trim (concat (map split_comma ls)))"

text \<open>The walk from the right, over the reversed hops.\<close>

fun walk_hops :: "('a, 'p) netip \<Rightarrow> 'p list \<Rightarrow> string \<Rightarrow> string list \<Rightarrow> string" where
  "walk_hops lib trusted remoteHost [] = remoteHost"
| "walk_hops lib trusted remoteHost (h # hs) =
     (case ParseAddr lib h of
        None \<Rightarrow> remoteHost
      | Some addr \<Rightarrow>
          (let addr = Unmap lib addr in
           if \<not> prefixesContain lib trusted addr \<or> hs = [] then AddrString lib addr
           else walk_hops lib trusted remoteHost hs))"

definition ClientIP :: "('a, 'p) netip \<Rightarrow> (string \<Rightarrow> string) \<Rightarrow> string \<Rightarrow> string list \<Rightarrow> 'p list \<Rightarrow> string" where
  "ClientIP lib trim remoteAddr xff trusted =
     (let remoteHost = RemoteAddrHost lib remoteAddr in
      if trusted = [] \<or> \<not> RemoteIsTrusted lib remoteHost trusted then remoteHost
      else walk_hops lib trusted remoteHost (rev (xff_hops trim xff)))"

section \<open>Properties of the bounded limiter\<close>

definition wl_ok :: "'l WindowLimiter \<Rightarrow> bool" where
  "wl_ok l \<longleftrightarrow> gm_ok (wl_entries l) \<and> [] \<notin> set (gm_keys (wl_entries l)) \<and> 0 < wl_maxKeys l
     \<and> length (wl_entries l) \<le> wl_maxKeys l"

lemma evict_scan_fst:
  "fst (evict_scan now es k0 t0)
     = filter (\<lambda>(k, e). \<not> time_sub now (we_last e) \<ge> refill (we_win e)) es"
  by (induction now es k0 t0 rule: evict_scan.induct) (simp_all add: split_def)

lemma evict_scan_kept:
  assumes "evict_scan now es k0 t0 = (kept, old)"
  shows "set (gm_keys kept) \<subseteq> set (gm_keys es)" "gm_ok es \<Longrightarrow> gm_ok kept" "length kept \<le> length es"
  using evict_scan_fst [of now es k0 t0] assms by auto

text \<open>When something is kept the scan has met a key to drop, and the key is among the kept ones.\<close>

lemma evict_scan_old:
  "evict_scan now es k0 t0 = (kept, old) \<Longrightarrow> [] \<notin> set (gm_keys es) \<Longrightarrow>
   (old = k0 \<and> (k0 = [] \<longrightarrow> kept = [])) \<or> (old \<noteq> [] \<and> old \<in> set (gm_keys kept))"
proof (induction now es k0 t0 arbitrary: kept old rule: evict_scan.induct)
  case (2 now k e es k0 t0)
  have k: "k \<noteq> []" "[] \<notin> set (gm_keys es)" using 2(5) by auto
  consider (drop) "time_sub now (we_last e) \<ge> refill (we_win e)" "evict_scan now es k0 t0 = (kept, old)"
    | (older) rest where "\<not> time_sub now (we_last e) \<ge> refill (we_win e)" "k0 = [] \<or> we_last e < t0"
        "evict_scan now es k (we_last e) = (rest, old)" "kept = (k, e) # rest"
    | (keep) rest where "\<not> time_sub now (we_last e) \<ge> refill (we_win e)" "\<not> (k0 = [] \<or> we_last e < t0)"
        "evict_scan now es k0 t0 = (rest, old)" "kept = (k, e) # rest"
    using 2(4) by (auto split: if_splits prod.splits)
  then show ?case
  proof cases
    case drop
    then show ?thesis using 2(1) k(2) by simp
  next
    case older
    then show ?thesis using 2(2) [OF older(1,2,3) k(2)] k(1) by auto
  next
    case keep
    then show ?thesis using 2(3) [OF keep(1,2,3) k(2)] by auto
  qed
qed simp

lemma evictLocked_props:
  assumes "wl_ok l"
  shows "gm_ok (wl_entries (evictLocked now l)) \<and> [] \<notin> set (gm_keys (wl_entries (evictLocked now l)))
     \<and> wl_maxKeys (evictLocked now l) = wl_maxKeys l
     \<and> length (wl_entries (evictLocked now l)) < wl_maxKeys l"
proof -
  obtain kept old where sc: "evict_scan now (wl_entries l) [] 0 = (kept, old)" by fastforce
  have ne: "[] \<notin> set (gm_keys (wl_entries l))" "gm_ok (wl_entries l)" "0 < wl_maxKeys l"
    "length (wl_entries l) \<le> wl_maxKeys l"
    using assms by (auto simp: wl_ok_def)
  have ok: "gm_ok kept" "[] \<notin> set (gm_keys kept)" "length kept \<le> wl_maxKeys l"
    using evict_scan_kept [OF sc] ne by auto
  have del: "length kept \<ge> wl_maxKeys l \<Longrightarrow> old \<noteq> [] \<and> length (gm_del old kept) < wl_maxKeys l"
    using evict_scan_old [OF sc ne(1)] length_del_less [of old kept] ne(3) ok(3) by fastforce
  have "[] \<notin> set (gm_keys (gm_del old kept))" using ok(2) by (auto simp: AList.delete_eq)
  then show ?thesis using sc ok del by (auto simp: evictLocked_def)
qed

lemma wl_ok_put: "wl_ok l \<Longrightarrow> k \<noteq> [] \<Longrightarrow> k \<in> set (gm_keys (wl_entries l)) \<or> length (wl_entries l) < wl_maxKeys l \<Longrightarrow>
   wl_ok (l\<lparr>wl_entries := gm_put k e (wl_entries l)\<rparr>)"
  by (auto simp: wl_ok_def length_put update_keys)

text \<open>The entry a call leaves under its key, when it gets as far as the bucket.\<close>

definition effective :: "string \<Rightarrow> Window \<Rightarrow> bool \<Rightarrow> 'l WindowLimiter \<Rightarrow> Window" where
  "effective key w keep l = (case gm_get (wl_entries l) key of
     Some e \<Rightarrow> if keep then we_win e else w | None \<Rightarrow> w)"

lemma spend_entry:
  "\<exists>e'. we_win e' = we_win e \<and> snd (spend lib now key e l) = l\<lparr>wl_entries := gm_put key e' (wl_entries l)\<rparr>"
proof (cases "ReserveN lib now (we_lim e)")
  case (fields possible d lim)
  let ?put = "\<lambda>lim. e\<lparr>we_lim := lim, we_last := now\<rparr>"
  show ?thesis
    by (rule exI [of _ "?put (if possible \<and> d > 0 then CancelAt lib now lim else lim)"])
      (simp add: spend_def fields Let_def)
qed

lemma take_token_cases:
  obtains (skip) "key = [] \<or> \<not> Enabled (effective key w keep l)" "take_token lib now key w keep l = ((True, 0), l)"
  | (token) e l' where "key \<noteq> []" "Enabled (effective key w keep l)"
      "we_win e = effective key w keep l"
      "l' = (if gm_get (wl_entries l) key = None \<and> length (wl_entries l) \<ge> wl_maxKeys l
             then evictLocked now l else l)"
      "snd (take_token lib now key w keep l) = l'\<lparr>wl_entries := gm_put key e (wl_entries l')\<rparr>"
proof (cases "key = [] \<or> \<not> Enabled (effective key w keep l)")
  case True
  then have "take_token lib now key w keep l = ((True, 0), l)"
    by (auto simp: take_token_def effective_def Let_def split: option.splits if_splits)
  then show ?thesis using skip True by blast
next
  case False
  let ?w = "effective key w keep l"
  let ?l = "if gm_get (wl_entries l) key = None \<and> length (wl_entries l) \<ge> wl_maxKeys l
     then evictLocked now l else l"
  have start: "\<not> ((key = [] \<or> \<not> Enabled w) \<and> (\<not> keep \<or> key = []))"
    using False by (auto simp: effective_def split: option.splits if_splits)
  have "\<exists>e. we_win e = ?w \<and> snd (take_token lib now key w keep l) = snd (spend lib now key e ?l)"
  proof (cases "gm_get (wl_entries l) key")
    case None
    then show ?thesis using False start
      by (intro exI [of _ "new_entry lib w"]) (auto simp: take_token_def effective_def new_entry_def Let_def)
  next
    case (Some e)
    then show ?thesis using False start
      by (intro exI [of _ "if we_win e = ?w then e else new_entry lib ?w"])
        (auto simp: take_token_def effective_def new_entry_def Let_def)
  qed
  then obtain e where "we_win e = ?w" "snd (take_token lib now key w keep l) = snd (spend lib now key e ?l)"
    by blast
  moreover obtain e' where "we_win e' = we_win e"
    "snd (spend lib now key e ?l) = ?l\<lparr>wl_entries := gm_put key e' (wl_entries ?l)\<rparr>"
    using spend_entry by blast
  ultimately show ?thesis using token [of e' ?l] False by simp
qed

lemma take_token_ok:
  assumes "wl_ok l"
  shows "wl_ok (snd (take_token lib now key w keep l))
    \<and> wl_maxKeys (snd (take_token lib now key w keep l)) = wl_maxKeys l"
proof (cases rule: take_token_cases [of key w keep l lib now])
  case skip
  then show ?thesis using assms by simp
next
  case (token e l')
  have l': "wl_ok l'" "wl_maxKeys l' = wl_maxKeys l"
    using token(4) assms evictLocked_props [OF assms, of now] by (auto simp: wl_ok_def)
  have "key \<in> set (gm_keys (wl_entries l')) \<or> length (wl_entries l') < wl_maxKeys l'"
    using token(4) evictLocked_props [OF assms, of now] gm_get_None_iff [of "wl_entries l" key] l'
    by (auto split: if_splits)
  then show ?thesis using token(5) wl_ok_put [OF l'(1) token(1)] l'(2) by simp
qed

inductive wl_reach :: "'l ratelib \<Rightarrow> 'l WindowLimiter \<Rightarrow> 'l WindowLimiter \<Rightarrow> bool" for lib l0 where
  init: "wl_reach lib l0 l0"
| allow: "wl_reach lib l0 l \<Longrightarrow> wl_reach lib l0 (snd (WL_Allow lib now key l))"
| allow_with: "wl_reach lib l0 l \<Longrightarrow> wl_reach lib l0 (snd (AllowWith lib now key w l))"
| allow_current: "wl_reach lib l0 l \<Longrightarrow> wl_reach lib l0 (snd (AllowCurrent lib now key l))"

text \<open>C31: the limiter never tracks more keys than its bound, whatever keys, windows and instants the
  calls bring and however the token buckets behave.\<close>

theorem window_limiter_bounded:
  assumes "wl_reach lib (NewWindowLimiter w n) l"
  shows "length (wl_entries l) \<le> (if n \<le> 0 then DefaultWindowMaxKeys else nat n)"
proof -
  from assms have "wl_ok l \<and> wl_maxKeys l = (if n \<le> 0 then DefaultWindowMaxKeys else nat n)"
    by (induction rule: wl_reach.induct)
      (auto simp: WL_Allow_def AllowWith_def AllowCurrent_def take_token_ok,
       auto simp: wl_ok_def NewWindowLimiter_def DefaultWindowMaxKeys_def)
  then show ?thesis by (simp add: wl_ok_def)
qed

definition sample_bucket :: "int ratelib" where
  "sample_bucket = \<lparr>NewLimiter = (\<lambda>_ b. b), ReserveN = (\<lambda>_ b. if b > 0 then (True, 0, b - 1) else (True, 5, b - 1)),
     CancelAt = (\<lambda>_ b. b + 1), LimiterAllow = (\<lambda>_ b. if b > 0 then (True, b - 1) else (False, b))\<rparr>"

definition sample_window :: Window where
  "sample_window = \<lparr>w_Requests = 1, w_Per = minute, w_Burst = 0\<rparr>"

theorem window_limiter_bounded_witness:
  "length (wl_entries (snd (WL_Allow sample_bucket 2 ''b''
      (snd (WL_Allow sample_bucket 1 ''a'' (NewWindowLimiter sample_window 1)))))) \<le> 1"
  using window_limiter_bounded [OF wl_reach.allow [OF wl_reach.allow [OF wl_reach.init]],
      of sample_bucket 2 "''b''" 1 "''a''" sample_window 1] by simp

text \<open>A window set for a key is in force from the next call on and survives calls that cannot
  name it: after \<open>AllowWith\<close> the key's bucket has the given window, and \<open>AllowCurrent\<close> keeps the
  window a key has.\<close>

theorem window_override:
  "(key \<noteq> [] \<longrightarrow> Enabled w \<longrightarrow>
      map_option we_win (gm_get (wl_entries (snd (AllowWith lib now key w l))) key) = Some (normalized w))
   \<and> (gm_get (wl_entries l) key = Some e \<longrightarrow>
      map_option we_win (gm_get (wl_entries (snd (AllowCurrent lib now key l))) key) = Some (we_win e))"
proof (intro conjI impI)
  assume key: "key \<noteq> []" and w: "Enabled w"
  then have "Enabled (normalized w)" by (simp add: Enabled_def normalized_def)
  then show "map_option we_win (gm_get (wl_entries (snd (AllowWith lib now key w l))) key) = Some (normalized w)"
    using key unfolding AllowWith_def
    by (cases rule: take_token_cases [of key "normalized w" False l lib now])
      (auto simp: effective_def split: option.splits)
next
  assume "gm_get (wl_entries l) key = Some e"
  then show "map_option we_win (gm_get (wl_entries (snd (AllowCurrent lib now key l))) key) = Some (we_win e)"
    unfolding AllowCurrent_def
    by (cases rule: take_token_cases [of key "wl_win l" True l lib now]) (auto simp: effective_def)
qed

theorem window_override_witness:
  "map_option we_win (gm_get (wl_entries (snd (AllowWith sample_bucket 1 ''a'' sample_window
      (NewWindowLimiter sample_window 1)))) ''a'') = Some (normalized sample_window)"
  using window_override [of "''a''" sample_window sample_bucket 1 "NewWindowLimiter sample_window 1"]
  by (simp add: Enabled_def sample_window_def)

section \<open>Properties of client addresses\<close>

text \<open>C30: a client cannot choose its address. With an untrusted peer the header is ignored; behind
  trusted proxies the answer is the last hop before the trusted ones, whatever the client put before
  it.\<close>

theorem ClientIP_not_forgeable:
  "(\<not> RemoteIsTrusted lib (RemoteAddrHost lib remote) trusted \<longrightarrow>
      ClientIP lib trim remote xff trusted = RemoteAddrHost lib remote)
   \<and> (RemoteIsTrusted lib (RemoteAddrHost lib remote) trusted \<longrightarrow>
      xff_hops trim xff = forged @ [h] @ proxies \<longrightarrow>
      ParseAddr lib h = Some a \<longrightarrow> \<not> prefixesContain lib trusted (Unmap lib a) \<longrightarrow>
      (\<forall>p \<in> set proxies. \<exists>b. ParseAddr lib p = Some b \<and> prefixesContain lib trusted (Unmap lib b)) \<longrightarrow>
      ClientIP lib trim remote xff trusted = AddrString lib (Unmap lib a))"
proof (intro conjI impI)
  assume "\<not> RemoteIsTrusted lib (RemoteAddrHost lib remote) trusted"
  then show "ClientIP lib trim remote xff trusted = RemoteAddrHost lib remote"
    by (simp add: ClientIP_def)
next
  assume tr: "RemoteIsTrusted lib (RemoteAddrHost lib remote) trusted"
    and hops: "xff_hops trim xff = forged @ [h] @ proxies"
    and h: "ParseAddr lib h = Some a" "\<not> prefixesContain lib trusted (Unmap lib a)"
    and px: "\<forall>p \<in> set proxies. \<exists>b. ParseAddr lib p = Some b \<and> prefixesContain lib trusted (Unmap lib b)"
  have walk: "walk_hops lib trusted host (ps @ h # rest) = AddrString lib (Unmap lib a)"
    if "\<forall>p \<in> set ps. \<exists>b. ParseAddr lib p = Some b \<and> prefixesContain lib trusted (Unmap lib b)" for ps rest host
    using that h by (induction ps) auto
  have "trusted \<noteq> []" using tr by (auto simp: RemoteIsTrusted_def split: option.splits)
  then show "ClientIP lib trim remote xff trusted = AddrString lib (Unmap lib a)"
    using tr px walk [of "rev proxies" _ "rev forged"] by (simp add: ClientIP_def hops)
qed

text \<open>Addresses for the witness: names, with the trusted network \<open>10\<close>.\<close>

definition sample_netip :: "(string, string) netip" where
  "sample_netip = \<lparr>ParseAddr = (\<lambda>s. if s = ''bad'' then None else Some s), Unmap = (\<lambda>a. a),
     AddrString = (\<lambda>a. a), Contains = (\<lambda>p a. prefix p a), SplitHostPort = (\<lambda>s. None)\<rparr>"

theorem ClientIP_not_forgeable_witness:
  "ClientIP sample_netip (\<lambda>s. s) ''10.1'' [''evil,7.7'', ''10.2''] [''10.''] = ''7.7''"
proof -
  have "RemoteIsTrusted sample_netip (RemoteAddrHost sample_netip ''10.1'') [''10.'']"
    "xff_hops (\<lambda>s. s) [''evil,7.7'', ''10.2''] = [''evil''] @ [''7.7''] @ [''10.2'']"
    "ParseAddr sample_netip ''7.7'' = Some ''7.7''"
    "\<not> prefixesContain sample_netip [''10.''] (Unmap sample_netip ''7.7'')"
    "\<forall>p \<in> set [''10.2'']. \<exists>b. ParseAddr sample_netip p = Some b
       \<and> prefixesContain sample_netip [''10.''] (Unmap sample_netip b)"
    by (simp_all add: RemoteIsTrusted_def RemoteAddrHost_def sample_netip_def xff_hops_def prefixesContain_def)
  then have "ClientIP sample_netip (\<lambda>s. s) ''10.1'' [''evil,7.7'', ''10.2''] [''10.'']
      = AddrString sample_netip (Unmap sample_netip ''7.7'')"
    using ClientIP_not_forgeable [of sample_netip "''10.1''" "[''10.'']" "\<lambda>s. s" "[''evil,7.7'', ''10.2'']"
        "[''evil'']" "''7.7''" "[''10.2'']" "''7.7''"] by blast
  then show ?thesis by (simp add: sample_netip_def)
qed

end
