(* ===== verification/ApiTokens.thy ===== *)
theory ApiTokens
  imports AsModels
begin

text \<open>
  The in-process storage of scoped API tokens and RFC 8628 device requests
  (\<open>src/storage/memory/memory_apitokens.go\<close>, rows of \<open>src/internal/apitokens/models.go\<close>). One mutex
  guards both maps, so an operation is an atomic function on the state. The copies the source makes
  of slices are the identity on values.
\<close>

section \<open>Rows and state\<close>

definition APITokenKindPersonal :: string where "APITokenKindPersonal = ''personal''"
definition APITokenKindAgent :: string where "APITokenKindAgent = ''agent''"

definition DeviceStatusPending :: string where "DeviceStatusPending = ''pending''"
definition DeviceStatusApproved :: string where "DeviceStatusApproved = ''approved''"
definition DeviceStatusDenied :: string where "DeviceStatusDenied = ''denied''"
definition DeviceStatusRedeemed :: string where "DeviceStatusRedeemed = ''redeemed''"

lemmas device_status_defs = DeviceStatusPending_def DeviceStatusApproved_def DeviceStatusDenied_def
  DeviceStatusRedeemed_def

record APIToken =
  tk_ID :: ULID
  tk_OwnerID :: ULID
  tk_OwnerKind :: string
  tk_Name :: string
  tk_Abilities :: "string list"
  tk_TokenHash :: string
  tk_Hint :: string
  tk_Kind :: string
  tk_AgentName :: string
  tk_DelegatedBy :: "ULID option"
  tk_AgentID :: "ULID option"
  tk_CreatedAt :: time
  tk_ExpiresAt :: "time option"
  tk_LastUsedAt :: "time option"
  tk_RevokedAt :: "time option"

definition Usable :: "APIToken \<Rightarrow> time \<Rightarrow> bool" where
  "Usable t now =
     (if tk_RevokedAt t \<noteq> None then False
      else case tk_ExpiresAt t of None \<Rightarrow> True | Some e \<Rightarrow> now < e)"

record DeviceCode =
  dv_ID :: ULID
  dv_DeviceCodeHash :: string
  dv_UserCode :: string
  dv_Status :: string
  dv_ClientName :: string
  dv_RequestedAbilities :: "string list"
  dv_ApprovedAbilities :: "string list"
  dv_ApproverID :: "ULID option"
  dv_RequesterIP :: string
  dv_RequesterUA :: string
  dv_IntervalSeconds :: int
  dv_LastPolledAt :: "time option"
  dv_CreatedAt :: time
  dv_ExpiresAt :: time

record DeviceDecision =
  dd_Approve :: bool
  dd_ApproverID :: ULID
  dd_Abilities :: "string list"

record tokenState =
  ts_tokens :: "(ULID, APIToken) gomap"
  ts_devices :: "(ULID, DeviceCode) gomap"

datatype token_error = TokenNotFound | ErrDeviceUserCodeTaken

definition tokenState_init :: tokenState where
  "tokenState_init = \<lparr>ts_tokens = [], ts_devices = []\<rparr>"

section \<open>API tokens\<close>

definition sortNewestFirst :: "APIToken list \<Rightarrow> APIToken list" where
  "sortNewestFirst out = sort_key (\<lambda>t. - tk_CreatedAt t) out"

definition InsertAPIToken :: "APIToken \<Rightarrow> tokenState \<Rightarrow> tokenState" where
  "InsertAPIToken t s = s\<lparr>ts_tokens := gm_put (tk_ID t) t (ts_tokens s)\<rparr>"

definition APITokenByHash :: "string \<Rightarrow> tokenState \<Rightarrow> token_error + APIToken" where
  "APITokenByHash hash s =
     (case find (\<lambda>t. tk_TokenHash t = hash) (map snd (ts_tokens s)) of
        None \<Rightarrow> Inl TokenNotFound | Some t \<Rightarrow> Inr t)"

definition APITokenByID :: "ULID \<Rightarrow> tokenState \<Rightarrow> token_error + APIToken" where
  "APITokenByID i s = (case gm_get (ts_tokens s) i of None \<Rightarrow> Inl TokenNotFound | Some t \<Rightarrow> Inr t)"

definition APITokensByOwner :: "ULID \<Rightarrow> tokenState \<Rightarrow> APIToken list" where
  "APITokensByOwner ownerID s =
     sortNewestFirst (filter (\<lambda>t. tk_OwnerID t = ownerID) (map snd (ts_tokens s)))"

definition APITokensByAgentID :: "ULID \<Rightarrow> tokenState \<Rightarrow> APIToken list" where
  "APITokensByAgentID agentID s =
     sortNewestFirst (filter (\<lambda>t. tk_AgentID t = Some agentID) (map snd (ts_tokens s)))"

definition ListAPITokens :: "tokenState \<Rightarrow> APIToken list" where
  "ListAPITokens s = sortNewestFirst (map snd (ts_tokens s))"

definition RevokeAPIToken :: "ULID \<Rightarrow> time \<Rightarrow> tokenState \<Rightarrow> token_error option \<times> tokenState" where
  "RevokeAPIToken i at s =
     (case gm_get (ts_tokens s) i of
        None \<Rightarrow> (Some TokenNotFound, s)
      | Some t \<Rightarrow>
          (None, if tk_RevokedAt t = None
                 then s\<lparr>ts_tokens := gm_put i (t\<lparr>tk_RevokedAt := Some at\<rparr>) (ts_tokens s)\<rparr> else s))"

definition RevokeAPITokensByOwner :: "ULID \<Rightarrow> time \<Rightarrow> tokenState \<Rightarrow> nat \<times> tokenState" where
  "RevokeAPITokensByOwner ownerID at s =
     (let hit = (\<lambda>t. tk_OwnerID t = ownerID \<and> tk_RevokedAt t = None)
      in (length (filter (hit \<circ> snd) (ts_tokens s)),
          s\<lparr>ts_tokens := map (\<lambda>(i, t). (i, if hit t then t\<lparr>tk_RevokedAt := Some at\<rparr> else t)) (ts_tokens s)\<rparr>))"

definition TouchAPITokenLastUsed :: "ULID \<Rightarrow> time \<Rightarrow> tokenState \<Rightarrow> token_error option \<times> tokenState" where
  "TouchAPITokenLastUsed i at s =
     (case gm_get (ts_tokens s) i of
        None \<Rightarrow> (Some TokenNotFound, s)
      | Some t \<Rightarrow> (None, s\<lparr>ts_tokens := gm_put i (t\<lparr>tk_LastUsedAt := Some at\<rparr>) (ts_tokens s)\<rparr>))"

section \<open>Device requests\<close>

definition InsertDeviceCode :: "DeviceCode \<Rightarrow> tokenState \<Rightarrow> token_error option \<times> tokenState" where
  "InsertDeviceCode d s =
     (if \<exists>e\<in>set (map snd (ts_devices s)). dv_UserCode e = dv_UserCode d
      then (Some ErrDeviceUserCodeTaken, s)
      else (None, s\<lparr>ts_devices := gm_put (dv_ID d) d (ts_devices s)\<rparr>))"

definition findDevice :: "(DeviceCode \<Rightarrow> bool) \<Rightarrow> tokenState \<Rightarrow> (ULID \<times> DeviceCode) option" where
  "findDevice match s = find (\<lambda>(i, d). match d) (ts_devices s)"

definition DeviceCodeByUserCode :: "string \<Rightarrow> tokenState \<Rightarrow> token_error + DeviceCode" where
  "DeviceCodeByUserCode userCode s =
     (case findDevice (\<lambda>d. dv_UserCode d = userCode) s of
        None \<Rightarrow> Inl TokenNotFound | Some (_, d) \<Rightarrow> Inr d)"

definition DeviceCodeByHash :: "string \<Rightarrow> tokenState \<Rightarrow> token_error + DeviceCode" where
  "DeviceCodeByHash hash s =
     (case findDevice (\<lambda>d. dv_DeviceCodeHash d = hash) s of
        None \<Rightarrow> Inl TokenNotFound | Some (_, d) \<Rightarrow> Inr d)"

definition DecideDeviceCode ::
  "string \<Rightarrow> DeviceDecision \<Rightarrow> time \<Rightarrow> tokenState \<Rightarrow> token_error option \<times> tokenState" where
  "DecideDeviceCode userCode dec now s =
     (case findDevice (\<lambda>d. dv_UserCode d = userCode) s of
        None \<Rightarrow> (Some TokenNotFound, s)
      | Some (i, d) \<Rightarrow>
          if dv_Status d \<noteq> DeviceStatusPending \<or> \<not> now < dv_ExpiresAt d then (Some TokenNotFound, s)
          else
            (let d = d\<lparr>dv_ApproverID := Some (dd_ApproverID dec), dv_Status := DeviceStatusDenied\<rparr>;
                 d = (if dd_Approve dec
                      then d\<lparr>dv_Status := DeviceStatusApproved, dv_ApprovedAbilities := dd_Abilities dec\<rparr>
                      else d)
             in (None, s\<lparr>ts_devices := gm_put i d (ts_devices s)\<rparr>)))"

definition ClaimDeviceCode ::
  "string \<Rightarrow> time \<Rightarrow> tokenState \<Rightarrow> (token_error + DeviceCode) \<times> tokenState" where
  "ClaimDeviceCode hash now s =
     (case findDevice (\<lambda>d. dv_DeviceCodeHash d = hash) s of
        None \<Rightarrow> (Inl TokenNotFound, s)
      | Some (i, d) \<Rightarrow>
          if dv_Status d \<noteq> DeviceStatusApproved \<or> \<not> now < dv_ExpiresAt d then (Inl TokenNotFound, s)
          else
            (let d = d\<lparr>dv_Status := DeviceStatusRedeemed\<rparr>
             in (Inr d, s\<lparr>ts_devices := gm_put i d (ts_devices s)\<rparr>)))"

definition RecordDevicePoll :: "string \<Rightarrow> time \<Rightarrow> int \<Rightarrow> tokenState \<Rightarrow> token_error option \<times> tokenState" where
  "RecordDevicePoll hash at intervalSeconds s =
     (case findDevice (\<lambda>d. dv_DeviceCodeHash d = hash) s of
        None \<Rightarrow> (Some TokenNotFound, s)
      | Some (i, d) \<Rightarrow>
          (None, s\<lparr>ts_devices := gm_put i
             (d\<lparr>dv_LastPolledAt := Some at, dv_IntervalSeconds := intervalSeconds\<rparr>) (ts_devices s)\<rparr>))"

definition DeleteExpiredDeviceCodes :: "time \<Rightarrow> tokenState \<Rightarrow> nat \<times> tokenState" where
  "DeleteExpiredDeviceCodes before s =
     (length (filter (\<lambda>(i, d). dv_ExpiresAt d < before) (ts_devices s)),
      s\<lparr>ts_devices := gm_drop (\<lambda>i d. dv_ExpiresAt d < before) (ts_devices s)\<rparr>)"

definition ListPendingDeviceCodes :: "time \<Rightarrow> int \<Rightarrow> tokenState \<Rightarrow> DeviceCode list" where
  "ListPendingDeviceCodes now limit s =
     (let out = sort_key (\<lambda>d. - dv_CreatedAt d)
            (map (\<lambda>d. d\<lparr>dv_DeviceCodeHash := []\<rparr>)
              (filter (\<lambda>d. dv_Status d = DeviceStatusPending \<and> now < dv_ExpiresAt d) (map snd (ts_devices s))))
      in if limit > 0 \<and> int (length out) > limit then take (nat limit) out else out)"

section \<open>The life of a device request\<close>

datatype token_op =
    OpInsertToken APIToken
  | OpRevokeToken ULID time
  | OpRevokeOwner ULID time
  | OpTouch ULID time
  | OpInsertDevice DeviceCode
  | OpDecide string DeviceDecision time
  | OpClaim string time
  | OpPoll string time int
  | OpDeleteExpired time

fun token_step :: "token_op \<Rightarrow> tokenState \<Rightarrow> tokenState" where
  "token_step (OpInsertToken t) s = InsertAPIToken t s"
| "token_step (OpRevokeToken i at) s = snd (RevokeAPIToken i at s)"
| "token_step (OpRevokeOwner i at) s = snd (RevokeAPITokensByOwner i at s)"
| "token_step (OpTouch i at) s = snd (TouchAPITokenLastUsed i at s)"
| "token_step (OpInsertDevice d) s = snd (InsertDeviceCode d s)"
| "token_step (OpDecide u dec now) s = snd (DecideDeviceCode u dec now s)"
| "token_step (OpClaim h now) s = snd (ClaimDeviceCode h now s)"
| "token_step (OpPoll h at n) s = snd (RecordDevicePoll h at n s)"
| "token_step (OpDeleteExpired before) s = snd (DeleteExpiredDeviceCodes before s)"

definition token_run :: "token_op list \<Rightarrow> tokenState \<Rightarrow> tokenState" where
  "token_run ops s = fold token_step ops s"

text \<open>
  No two requests share a device code hash or a user code, as in every run that draws both at random,
  and a request is stored under its identifier.
\<close>

definition devices_ok :: "tokenState \<Rightarrow> bool" where
  "devices_ok s \<longleftrightarrow> gm_ok (ts_devices s)
     \<and> (\<forall>i d j e. gm_get (ts_devices s) i = Some d \<and> gm_get (ts_devices s) j = Some e
          \<and> dv_DeviceCodeHash d = dv_DeviceCodeHash e \<longrightarrow> i = j)"

text \<open>An inserted request brings a new identifier and a new device code hash.\<close>

fun op_fresh :: "tokenState \<Rightarrow> token_op \<Rightarrow> bool" where
  "op_fresh s (OpInsertDevice d) \<longleftrightarrow> gm_get (ts_devices s) (dv_ID d) = None
     \<and> (\<forall>i e. gm_get (ts_devices s) i = Some e \<longrightarrow> dv_DeviceCodeHash e \<noteq> dv_DeviceCodeHash d)"
| "op_fresh s _ \<longleftrightarrow> True"

fun ops_fresh :: "tokenState \<Rightarrow> token_op list \<Rightarrow> bool" where
  "ops_fresh s [] = True"
| "ops_fresh s (x # xs) = (op_fresh s x \<and> ops_fresh (token_step x s) xs)"

lemma findDevice_Some:
  assumes "gm_ok (ts_devices s)"
  shows "findDevice p s = Some (i, d) \<Longrightarrow> gm_get (ts_devices s) i = Some d \<and> p d"
  using assms by (auto simp: findDevice_def find_Some_iff gm_get_Some_iff) (metis nth_mem)

lemma findDevice_None:
  assumes "gm_ok (ts_devices s)"
  shows "findDevice p s = None \<longleftrightarrow> (\<forall>i d. gm_get (ts_devices s) i = Some d \<longrightarrow> \<not> p d)"
  using assms by (auto simp: findDevice_def find_None_iff gm_get_Some_iff)

text \<open>The request behind a hash, if there is one.\<close>

definition device_of :: "tokenState \<Rightarrow> string \<Rightarrow> DeviceCode option" where
  "device_of s h = map_option snd (findDevice (\<lambda>d. dv_DeviceCodeHash d = h) s)"

lemma device_of_iff:
  assumes "devices_ok s"
  shows "device_of s h = Some d \<longleftrightarrow> (\<exists>i. gm_get (ts_devices s) i = Some d \<and> dv_DeviceCodeHash d = h)"
proof
  assume "device_of s h = Some d"
  then obtain i where "findDevice (\<lambda>d. dv_DeviceCodeHash d = h) s = Some (i, d)"
    by (auto simp: device_of_def)
  then show "\<exists>i. gm_get (ts_devices s) i = Some d \<and> dv_DeviceCodeHash d = h"
    using assms findDevice_Some by (fastforce simp: devices_ok_def)
next
  assume "\<exists>i. gm_get (ts_devices s) i = Some d \<and> dv_DeviceCodeHash d = h"
  then obtain i where i: "gm_get (ts_devices s) i = Some d" "dv_DeviceCodeHash d = h" by blast
  with assms obtain j e where f: "findDevice (\<lambda>d. dv_DeviceCodeHash d = h) s = Some (j, e)"
    unfolding devices_ok_def using findDevice_None [of s "\<lambda>d. dv_DeviceCodeHash d = h"]
    by (cases "findDevice (\<lambda>d. dv_DeviceCodeHash d = h) s") auto
  then have "gm_get (ts_devices s) j = Some e" "dv_DeviceCodeHash e = h"
    using assms findDevice_Some by (auto simp: devices_ok_def)
  with i assms have "i = j" unfolding devices_ok_def by blast
  with i f \<open>gm_get (ts_devices s) j = Some e\<close> show "device_of s h = Some d" by (simp add: device_of_def)
qed

lemma option_eqI: "(\<And>x. a = Some x \<longleftrightarrow> b = Some x) \<Longrightarrow> a = b"
  by (cases a; cases b) auto

lemma devices_ok_put:
  assumes ok: "devices_ok s" and i: "gm_get (ts_devices s) i = Some d0"
    and h: "dv_DeviceCodeHash d = dv_DeviceCodeHash d0"
  shows "devices_ok (s\<lparr>ts_devices := gm_put i d (ts_devices s)\<rparr>)"
    and "device_of (s\<lparr>ts_devices := gm_put i d (ts_devices s)\<rparr>) h'
      = (if h' = dv_DeviceCodeHash d0 then Some d else device_of s h')"
proof -
  let ?s = "s\<lparr>ts_devices := gm_put i d (ts_devices s)\<rparr>"
  have same: "j = k" if "gm_get (ts_devices s) j = Some a" "gm_get (ts_devices s) k = Some b"
      "dv_DeviceCodeHash a = dv_DeviceCodeHash b" for j a k b
    using ok that unfolding devices_ok_def by blast
  show ok': "devices_ok ?s"
    using ok unfolding devices_ok_def
    by (auto simp: h split: if_splits dest: same [OF i] same [OF _ i])
  have "device_of ?s h' = Some x \<longleftrightarrow> (if h' = dv_DeviceCodeHash d0 then x = d else device_of s h' = Some x)" for x
    unfolding device_of_iff [OF ok'] device_of_iff [OF ok]
    using i h by (auto dest: same [OF i] split: if_splits) (metis option.inject)
  then show "device_of ?s h' = (if h' = dv_DeviceCodeHash d0 then Some d else device_of s h')"
    by (intro option_eqI) auto
qed

lemma devices_ok_insert:
  assumes ok: "devices_ok s" and fresh: "op_fresh s (OpInsertDevice d)"
  shows "devices_ok (snd (InsertDeviceCode d s))"
    and "h \<noteq> dv_DeviceCodeHash d \<Longrightarrow> device_of (snd (InsertDeviceCode d s)) h = device_of s h"
proof -
  let ?s = "s\<lparr>ts_devices := gm_put (dv_ID d) d (ts_devices s)\<rparr>"
  have ok': "devices_ok ?s"
    using ok fresh unfolding devices_ok_def by (auto split: if_splits) blast
  then show "devices_ok (snd (InsertDeviceCode d s))"
    using ok by (simp add: InsertDeviceCode_def)
  assume h: "h \<noteq> dv_DeviceCodeHash d"
  have "device_of ?s h = Some x \<longleftrightarrow> device_of s h = Some x" for x
    unfolding device_of_iff [OF ok'] device_of_iff [OF ok]
    using h fresh by (auto split: if_splits) (metis option.distinct(1))
  then have "device_of ?s h = device_of s h"
    by (intro option_eqI) simp
  then show "device_of (snd (InsertDeviceCode d s)) h = device_of s h"
    by (simp add: InsertDeviceCode_def)
qed

text \<open>How one operation moves the request behind a hash: forward, out, or not at all.\<close>

definition device_moves :: "DeviceCode option \<Rightarrow> DeviceCode option \<Rightarrow> bool" where
  "device_moves a b \<longleftrightarrow> b = None \<or> (\<exists>d d'. a = Some d \<and> b = Some d'
     \<and> dv_ExpiresAt d' = dv_ExpiresAt d
     \<and> (dv_Status d' = dv_Status d
        \<or> dv_Status d = DeviceStatusPending \<and> dv_Status d' \<in> {DeviceStatusApproved, DeviceStatusDenied}
        \<or> dv_Status d = DeviceStatusApproved \<and> dv_Status d' = DeviceStatusRedeemed))"

lemma device_moves_refl: "device_moves a a"
  by (cases a) (auto simp: device_moves_def)

lemma devices_ok_same: "ts_devices s' = ts_devices s \<Longrightarrow> devices_ok s \<Longrightarrow> devices_ok s'"
  unfolding devices_ok_def by (erule ssubst)

lemma device_of_same: "ts_devices s' = ts_devices s \<Longrightarrow> device_of s' h = device_of s h"
  by (simp add: device_of_def findDevice_def)

lemma findDevice_ok:
  "devices_ok s \<Longrightarrow> findDevice p s = Some (i, d) \<Longrightarrow> gm_get (ts_devices s) i = Some d \<and> p d"
  by (rule findDevice_Some) (simp_all add: devices_ok_def)

lemma device_put_moves:
  assumes "devices_ok s" and "gm_get (ts_devices s) i = Some d0"
    and "dv_DeviceCodeHash d = dv_DeviceCodeHash d0" and "device_moves (Some d0) (Some d)"
  shows "devices_ok (s\<lparr>ts_devices := gm_put i d (ts_devices s)\<rparr>)
    \<and> device_moves (device_of s h) (device_of (s\<lparr>ts_devices := gm_put i d (ts_devices s)\<rparr>) h)"
proof (cases "h = dv_DeviceCodeHash d0")
  case True
  then have "device_of s h = Some d0" using assms device_of_iff [OF assms(1)] by blast
  with True assms show ?thesis by (simp add: devices_ok_put [OF assms(1-3)])
next
  case False
  then show ?thesis by (simp add: devices_ok_put [OF assms(1-3)] device_moves_refl)
qed

lemma token_ops_devices:
  "ts_devices (token_step (OpInsertToken t) s) = ts_devices s"
  "ts_devices (token_step (OpRevokeToken i at) s) = ts_devices s"
  "ts_devices (token_step (OpRevokeOwner i at) s) = ts_devices s"
  "ts_devices (token_step (OpTouch i at) s) = ts_devices s"
  by (simp_all add: InsertAPIToken_def RevokeAPIToken_def RevokeAPITokensByOwner_def
      TouchAPITokenLastUsed_def Let_def split: option.splits)

lemma device_step_other:
  "ts_devices s' = ts_devices s \<Longrightarrow> devices_ok s \<Longrightarrow> devices_ok s' \<and> device_moves (device_of s h) (device_of s' h)"
  using devices_ok_same [of s' s] device_of_same [of s' s h] device_moves_refl by metis

lemma token_step_moves:
  assumes ok: "devices_ok s" and fresh: "op_fresh s x"
    and h: "\<And>d. x = OpInsertDevice d \<Longrightarrow> dv_DeviceCodeHash d \<noteq> h"
  shows "devices_ok (token_step x s) \<and> device_moves (device_of s h) (device_of (token_step x s) h)"
proof (cases x)
  case (OpInsertDevice d)
  then show ?thesis using devices_ok_insert [OF ok] fresh h device_moves_refl by auto
next
  case (OpDecide u dec now)
  show ?thesis
  proof (cases "findDevice (\<lambda>d. dv_UserCode d = u) s")
    case None
    with OpDecide ok show ?thesis by (simp add: DecideDeviceCode_def device_moves_refl)
  next
    case (Some idd)
    obtain i d where f: "findDevice (\<lambda>d. dv_UserCode d = u) s = Some (i, d)"
      using Some by (cases idd) auto
    let ?d = "if dd_Approve dec
       then d\<lparr>dv_ApproverID := Some (dd_ApproverID dec), dv_Status := DeviceStatusApproved,
              dv_ApprovedAbilities := dd_Abilities dec\<rparr>
       else d\<lparr>dv_ApproverID := Some (dd_ApproverID dec), dv_Status := DeviceStatusDenied\<rparr>"
    show ?thesis
    proof (cases "dv_Status d \<noteq> DeviceStatusPending \<or> \<not> now < dv_ExpiresAt d")
      case True
      with OpDecide f ok show ?thesis by (simp add: DecideDeviceCode_def device_moves_refl)
    next
      case False
      then have "token_step x s = s\<lparr>ts_devices := gm_put i ?d (ts_devices s)\<rparr>"
        using OpDecide f by (simp add: DecideDeviceCode_def Let_def)
      moreover have "device_moves (Some d) (Some ?d)" using False by (auto simp: device_moves_def)
      ultimately show ?thesis
        using device_put_moves [OF ok conjunct1 [OF findDevice_ok [OF ok f]], of ?d] by simp
    qed
  qed
next
  case (OpClaim h' now)
  show ?thesis
  proof (cases "findDevice (\<lambda>d. dv_DeviceCodeHash d = h') s")
    case None
    with OpClaim ok show ?thesis by (simp add: ClaimDeviceCode_def device_moves_refl)
  next
    case (Some idd)
    obtain i d where f: "findDevice (\<lambda>d. dv_DeviceCodeHash d = h') s = Some (i, d)"
      using Some by (cases idd) auto
    have "device_moves (Some d) (Some (d\<lparr>dv_Status := DeviceStatusRedeemed\<rparr>))"
      if "dv_Status d = DeviceStatusApproved" using that by (simp add: device_moves_def)
    with OpClaim f ok device_put_moves [OF ok conjunct1 [OF findDevice_ok [OF ok f]],
        of "d\<lparr>dv_Status := DeviceStatusRedeemed\<rparr>"]
    show ?thesis by (auto simp: ClaimDeviceCode_def Let_def device_moves_refl)
  qed
next
  case (OpPoll h' at n)
  show ?thesis
  proof (cases "findDevice (\<lambda>d. dv_DeviceCodeHash d = h') s")
    case None
    with OpPoll ok show ?thesis by (simp add: RecordDevicePoll_def device_moves_refl)
  next
    case (Some idd)
    obtain i d where f: "findDevice (\<lambda>d. dv_DeviceCodeHash d = h') s = Some (i, d)"
      using Some by (cases idd) auto
    with OpPoll device_put_moves [OF ok conjunct1 [OF findDevice_ok [OF ok f]],
        of "d\<lparr>dv_LastPolledAt := Some at, dv_IntervalSeconds := n\<rparr>"]
    show ?thesis by (simp add: RecordDevicePoll_def device_moves_def)
  qed
next
  case (OpDeleteExpired before)
  let ?s = "s\<lparr>ts_devices := gm_drop (\<lambda>i d. dv_ExpiresAt d < before) (ts_devices s)\<rparr>"
  have okm: "gm_ok (ts_devices s)" using ok by (simp add: devices_ok_def)
  have sub: "gm_get (ts_devices s) i = Some d" if "gm_get (ts_devices ?s) i = Some d" for i d
    using that by (auto simp: gm_get_drop [OF okm] split: option.splits if_splits)
  have ok': "devices_ok ?s"
    using ok sub unfolding devices_ok_def by (auto intro: gm_ok_drop)
  have "device_of s h = Some x" if "device_of ?s h = Some x" for x
    using that sub unfolding device_of_iff [OF ok'] device_of_iff [OF ok] by blast
  then have "device_moves (device_of s h) (device_of ?s h)"
    by (cases "device_of ?s h") (auto simp: device_moves_def)
  with ok' OpDeleteExpired show ?thesis by (simp add: DeleteExpiredDeviceCodes_def)
next
  case (OpInsertToken t)
  show ?thesis unfolding OpInsertToken by (rule device_step_other [OF token_ops_devices(1) ok])
next
  case (OpRevokeToken i at)
  show ?thesis unfolding OpRevokeToken by (rule device_step_other [OF token_ops_devices(2) ok])
next
  case (OpRevokeOwner i at)
  show ?thesis unfolding OpRevokeOwner by (rule device_step_other [OF token_ops_devices(3) ok])
next
  case (OpTouch i at)
  show ?thesis unfolding OpTouch by (rule device_step_other [OF token_ops_devices(4) ok])
qed

lemma token_run_moves:
  assumes "devices_ok s" and "ops_fresh s ops" and "\<And>d. OpInsertDevice d \<in> set ops \<Longrightarrow> dv_DeviceCodeHash d \<noteq> h"
    and "device_of s h = None \<or> (\<exists>d. device_of s h = Some d \<and> dv_Status d = DeviceStatusRedeemed)"
  shows "devices_ok (token_run ops s) \<and> (device_of (token_run ops s) h = None
    \<or> (\<exists>d. device_of (token_run ops s) h = Some d \<and> dv_Status d = DeviceStatusRedeemed))"
  using assms
proof (induction ops arbitrary: s)
  case Nil
  then show ?case by (simp add: token_run_def)
next
  case (Cons x ops)
  have m: "devices_ok (token_step x s)" "device_moves (device_of s h) (device_of (token_step x s) h)"
    using token_step_moves [of s x h] Cons.prems by auto
  have "device_of (token_step x s) h = None
      \<or> (\<exists>d. device_of (token_step x s) h = Some d \<and> dv_Status d = DeviceStatusRedeemed)"
    using m(2) Cons.prems(4) by (auto simp: device_moves_def device_status_defs)
  with Cons.IH [OF m(1)] Cons.prems show ?case by (simp add: token_run_def)
qed

lemma ClaimDeviceCode_iff:
  "fst (ClaimDeviceCode h now s) = Inr d' \<longleftrightarrow>
     (\<exists>d. device_of s h = Some d \<and> dv_Status d = DeviceStatusApproved \<and> now < dv_ExpiresAt d
        \<and> d' = d\<lparr>dv_Status := DeviceStatusRedeemed\<rparr>)"
  by (auto simp: ClaimDeviceCode_def device_of_def Let_def split: option.splits)

lemma ClaimDeviceCode_total:
  "fst (ClaimDeviceCode h now s) = Inl TokenNotFound \<or> (\<exists>d. fst (ClaimDeviceCode h now s) = Inr d)"
  by (auto simp: ClaimDeviceCode_def Let_def split: option.splits)

text \<open>C37: a device request is redeemed at most once. A claim succeeds only for a request that is
  approved and not expired, and after a successful claim every further claim of the same device code
  is refused, whatever the other operations do in between and however they interleave.
\<close>

theorem device_claimed_once:
  assumes "devices_ok s" and "fst (ClaimDeviceCode h now s) = Inr d"
    and "ops_fresh (snd (ClaimDeviceCode h now s)) ops"
    and "\<And>e. OpInsertDevice e \<in> set ops \<Longrightarrow> dv_DeviceCodeHash e \<noteq> h"
  shows "fst (ClaimDeviceCode h now' (token_run ops (snd (ClaimDeviceCode h now s)))) = Inl TokenNotFound
    \<and> (\<exists>d0. DeviceCodeByHash h s = Inr d0 \<and> dv_Status d0 = DeviceStatusApproved \<and> now < dv_ExpiresAt d0)"
proof -
  obtain d0 where d0: "device_of s h = Some d0" "dv_Status d0 = DeviceStatusApproved" "now < dv_ExpiresAt d0"
    using assms(2) ClaimDeviceCode_iff by blast
  let ?s = "snd (ClaimDeviceCode h now s)"
  have ok: "devices_ok ?s" and mv: "device_moves (device_of s h) (device_of ?s h)"
    using token_step_moves [OF assms(1), of "OpClaim h now" h] by auto
  from d0(1) obtain i where f: "findDevice (\<lambda>d. dv_DeviceCodeHash d = h) s = Some (i, d0)"
    by (auto simp: device_of_def)
  then have h: "dv_DeviceCodeHash d0 = h" and g: "gm_get (ts_devices s) i = Some d0"
    using findDevice_ok [OF assms(1)] by auto
  have red: "device_of ?s h = Some (d0\<lparr>dv_Status := DeviceStatusRedeemed\<rparr>)"
    using devices_ok_put(2) [OF assms(1) g, of "d0\<lparr>dv_Status := DeviceStatusRedeemed\<rparr>" h] f d0 h
    by (simp add: ClaimDeviceCode_def Let_def)
  have "device_of (token_run ops ?s) h = None
      \<or> (\<exists>d. device_of (token_run ops ?s) h = Some d \<and> dv_Status d = DeviceStatusRedeemed)"
    using token_run_moves [OF ok assms(3,4)] red by simp
  then have "fst (ClaimDeviceCode h now' (token_run ops ?s)) \<noteq> Inr x" for x
    unfolding ClaimDeviceCode_iff by (auto simp: device_status_defs)
  then have "fst (ClaimDeviceCode h now' (token_run ops ?s)) = Inl TokenNotFound"
    using ClaimDeviceCode_total by blast
  moreover have "DeviceCodeByHash h s = Inr d0" using f by (simp add: DeviceCodeByHash_def)
  ultimately show ?thesis using d0 by blast
qed

definition ex_device :: DeviceCode where
  "ex_device = \<lparr>dv_ID = ''d1'', dv_DeviceCodeHash = ''h1'', dv_UserCode = ''WDJB'',
     dv_Status = DeviceStatusPending, dv_ClientName = ''tv'', dv_RequestedAbilities = [''read''],
     dv_ApprovedAbilities = [], dv_ApproverID = None, dv_RequesterIP = [], dv_RequesterUA = [],
     dv_IntervalSeconds = 5, dv_LastPolledAt = None, dv_CreatedAt = 1, dv_ExpiresAt = 100\<rparr>"

definition ex_approved :: tokenState where
  "ex_approved = token_run [OpInsertDevice ex_device,
     OpDecide ''WDJB'' \<lparr>dd_Approve = True, dd_ApproverID = ''u1'', dd_Abilities = [''read'']\<rparr> 10] tokenState_init"

lemma ex_approved_devices: "ts_devices ex_approved =
   [(''d1'', ex_device\<lparr>dv_ApproverID := Some ''u1'', dv_Status := DeviceStatusApproved,
      dv_ApprovedAbilities := [''read'']\<rparr>)]"
  by (simp add: ex_approved_def token_run_def InsertDeviceCode_def DecideDeviceCode_def findDevice_def
      tokenState_init_def ex_device_def)

theorem device_claimed_once_witness:
  "\<exists>d. fst (ClaimDeviceCode ''h1'' 20 ex_approved) = Inr d
     \<and> fst (ClaimDeviceCode ''h1'' 30 (token_run [OpPoll ''h1'' 25 5,
          OpDecide ''WDJB'' \<lparr>dd_Approve = True, dd_ApproverID = ''u1'', dd_Abilities = [''read'']\<rparr> 26]
          (snd (ClaimDeviceCode ''h1'' 20 ex_approved)))) = Inl TokenNotFound"
proof -
  have ok: "devices_ok ex_approved"
    by (simp add: devices_ok_def ex_approved_devices gm_ok_def)
  have c: "fst (ClaimDeviceCode ''h1'' 20 ex_approved) = Inr (ex_device\<lparr>dv_ApproverID := Some ''u1'',
      dv_Status := DeviceStatusRedeemed, dv_ApprovedAbilities := [''read'']\<rparr>)"
    by (simp add: ClaimDeviceCode_def findDevice_def ex_approved_devices ex_device_def Let_def)
  show ?thesis
    using device_claimed_once [OF ok c, of "[OpPoll ''h1'' 25 5,
          OpDecide ''WDJB'' \<lparr>dd_Approve = True, dd_ApproverID = ''u1'', dd_Abilities = [''read'']\<rparr> 26]" 30] c
    by simp
qed

end
