(* ===== verification/Agents.thy ===== *)
theory Agents
  imports AsClientAuth AsStoreRuns ApiTokens
begin

text \<open>
  The lifecycle of agent identities (\<open>src/internal/agent/service.go\<close> and \<open>cascade.go\<close>): creating an
  agent with its OAuth client and secret, minting and rotating secrets, expiry, suspension,
  resumption and revocation with its cascade over delegation grants and API tokens. The state is the
  authorization server's storage with the cache of verified secrets, the API token storage, and the
  two introspection caches a status change must invalidate. Random values and clock readings are
  arguments; audit events are not modelled. Argon2id hashing is a parameter.
\<close>

section \<open>State and inputs\<close>

record chainCacheEntry =
  he_active :: bool
  he_checkedAt :: time
  he_expiresAt :: time

record AgentsState =
  gs_auth :: AuthState
  gs_tokens :: tokenState
  gs_chain :: "(string, chainCacheEntry) gomap"
  gs_subjects :: "(string, time) gomap"

abbreviation gs_v20 :: "AgentsState \<Rightarrow> v20State" where
  "gs_v20 s \<equiv> au_v20 (gs_auth s)"

definition with_v20 :: "v20State \<Rightarrow> AgentsState \<Rightarrow> AgentsState" where
  "with_v20 v s = s\<lparr>gs_auth := (gs_auth s)\<lparr>au_v20 := v\<rparr>\<rparr>"

datatype agent_error =
    ErrAgentOwner | ErrAgentName | ErrAgentExpiryInvalid | ErrAgentNotFound | ErrAgentInactive
  | ErrNotImplemented | ErrHash | ErrPersist string

record CreateAgentInput =
  ci_Owner :: AgentOwner
  ci_Name :: string
  ci_Description :: string
  ci_Scope :: "string list"
  ci_ExpiresAt :: "time option"

record AgentSecret =
  sec_AgentID :: ULID
  sec_CredentialID :: ULID
  sec_ClientID :: string
  sec_Secret :: string

text \<open>The random values one call draws and its reading of the clock.\<close>

record agent_draws =
  ad_client :: ULID
  ad_row :: ULID
  ad_agent :: ULID
  ad_cred :: ULID
  ad_secret :: string
  ad_now :: time

definition AgentSubjectPrefix :: string where "AgentSubjectPrefix = ''agent:''"
definition AgentCredentialKindSecret :: string where "AgentCredentialKindSecret = ''secret''"
definition MaxAgentLifetime :: duration where "MaxAgentLifetime = 10 * 365 * 24 * 60 * minute"

definition TrimSpace :: "string \<Rightarrow> string" where
  "TrimSpace s = rev (dropWhile is_space (rev (dropWhile is_space s)))"

section \<open>Caches\<close>

definition svc_invalidate :: "string \<Rightarrow> AgentsState \<Rightarrow> AgentsState" where
  "svc_invalidate clientID s = s\<lparr>gs_auth := InvalidateClientAuthCache clientID (gs_auth s)\<rparr>"

definition InvalidateSubject :: "string \<Rightarrow> AgentsState \<Rightarrow> AgentsState" where
  "InvalidateSubject subj s = (if subj = [] then s else s\<lparr>gs_subjects := gm_del subj (gs_subjects s)\<rparr>)"

definition InvalidateChainCache :: "ULID \<Rightarrow> AgentsState \<Rightarrow> AgentsState" where
  "InvalidateChainCache agentID s =
     (if agentID = [] then s
      else InvalidateSubject (AgentSubjectPrefix @ agentID) (s\<lparr>gs_chain := gm_del agentID (gs_chain s)\<rparr>))"

section \<open>Creating agents and secrets\<close>

definition validateAgentOwner :: "AgentOwner \<Rightarrow> agent_error option" where
  "validateAgentOwner o' =
     (let hasUser = (ao_UserID o' \<noteq> None); hasOrg = (ao_OrganizationID o' \<noteq> None)
      in if hasUser = hasOrg then Some ErrAgentOwner else None)"

definition validateExpiry :: "time \<Rightarrow> time option \<Rightarrow> agent_error option" where
  "validateExpiry now at =
     (case at of
        None \<Rightarrow> None
      | Some t \<Rightarrow> if \<not> t > now \<or> t > now + MaxAgentLifetime then Some ErrAgentExpiryInvalid else None)"

definition new_client_row :: "agent_draws \<Rightarrow> CreateAgentInput \<Rightarrow> string \<Rightarrow> string \<Rightarrow> OAuthClient" where
  "new_client_row d i name hash = zero_OAuthClient\<lparr>oc_ID := ad_row d,
     oc_ClientID := ''agent-'' @ ad_client d, oc_ClientSecretHash := hash, oc_ClientName := name,
     oc_GrantTypes := [''client_credentials'', ''urn:ietf:params:oauth:grant-type:token-exchange''],
     oc_ResponseTypes := [], oc_Scope := Join (ci_Scope i) '' '',
     oc_TokenEndpointAuthMethod := ClientAuthSecretBasic, oc_ApplicationType := ''service'',
     oc_Owner := \<lparr>co_UserID = None, co_OrganizationID = None, co_AgentID = Some (ad_agent d)\<rparr>,
     oc_CreatedAt := ad_now d, oc_UpdatedAt := ad_now d\<rparr>"

definition new_agent_row :: "agent_draws \<Rightarrow> CreateAgentInput \<Rightarrow> string \<Rightarrow> Agent" where
  "new_agent_row d i name = zero_Agent\<lparr>ag_ID := ad_agent d,
     ag_OwnerUserID := ao_UserID (ci_Owner i), ag_OrganizationID := ao_OrganizationID (ci_Owner i),
     ag_Name := name, ag_Description := ci_Description i, ag_Status := AgentStatusActive,
     ag_ClientID := ''agent-'' @ ad_client d, ag_Scope := ci_Scope i, ag_CreatedAt := ad_now d,
     ag_ExpiresAt := ci_ExpiresAt i\<rparr>"

definition new_credential :: "agent_draws \<Rightarrow> ULID \<Rightarrow> string \<Rightarrow> AgentCredential" where
  "new_credential d agentID hash = zero_AgentCredential\<lparr>cr_ID := ad_cred d, cr_AgentID := agentID,
     cr_Kind := AgentCredentialKindSecret, cr_ValueEnc := hash, cr_CreatedAt := ad_now d\<rparr>"

definition CreateAgent ::
  "(string \<Rightarrow> string option) \<Rightarrow> agent_draws \<Rightarrow> CreateAgentInput \<Rightarrow> AgentsState
     \<Rightarrow> (agent_error + Agent \<times> AgentSecret) \<times> AgentsState" where
  "CreateAgent hashpw d i s =
     (case validateAgentOwner (ci_Owner i) of
        Some e \<Rightarrow> (Inl e, s)
      | None \<Rightarrow>
     (let name = TrimSpace (ci_Name i) in
      if name = [] then (Inl ErrAgentName, s)
      else case validateExpiry (ad_now d) (ci_ExpiresAt i) of
        Some e \<Rightarrow> (Inl e, s)
      | None \<Rightarrow>
     (case hashpw (ad_secret d) of
        None \<Rightarrow> (Inl ErrHash, s)
      | Some hash \<Rightarrow>
     (let clientID = ''agent-'' @ ad_client d in
      case InsertOAuthClient (ad_now d) (new_client_row d i name hash) (gs_v20 s) of
        (Inl e, v) \<Rightarrow> (Inl (ErrPersist ''client''), with_v20 v s)
      | (Inr c, v) \<Rightarrow>
     (case InsertAgent (ad_now d) (new_agent_row d i name) v of
        (Inl e, v) \<Rightarrow>
          (Inl (ErrPersist ''agent''), svc_invalidate clientID (with_v20 (snd (DeleteOAuthClient clientID v)) s))
      | (Inr stored, v) \<Rightarrow>
     (case InsertAgentCredential (ad_now d) (new_credential d (ag_ID stored) hash) v of
        (Some e, v) \<Rightarrow> (Inl (ErrPersist ''credential''), with_v20 v s)
      | (None, v) \<Rightarrow>
          (Inr (stored, \<lparr>sec_AgentID = ag_ID stored, sec_CredentialID = ad_cred d,
                 sec_ClientID = clientID, sec_Secret = ad_secret d\<rparr>), with_v20 v s)))))))"

definition MintAgentCredential ::
  "(string \<Rightarrow> string option) \<Rightarrow> agent_draws \<Rightarrow> ULID \<Rightarrow> string \<Rightarrow> AgentsState
     \<Rightarrow> (agent_error + AgentSecret) \<times> AgentsState" where
  "MintAgentCredential hashpw d agentID kind s =
     (let kind = (if kind = [] then AgentCredentialKindSecret else kind) in
      if kind \<noteq> AgentCredentialKindSecret then (Inl ErrNotImplemented, s)
      else case AgentByID agentID (gs_v20 s) of
        Inl e \<Rightarrow> (Inl ErrAgentNotFound, s)
      | Inr agent \<Rightarrow>
          if ag_Status agent = AgentStatusRevoked then (Inl ErrAgentInactive, s)
          else case hashpw (ad_secret d) of
            None \<Rightarrow> (Inl ErrHash, s)
          | Some hash \<Rightarrow>
     (case InsertAgentCredential (ad_now d) (new_credential d agentID hash) (gs_v20 s) of
        (Some e, v) \<Rightarrow> (Inl (ErrPersist ''credential''), with_v20 v s)
      | (None, v) \<Rightarrow>
     (case OAuthClientByClientID (ag_ClientID agent) v of
        Inl e \<Rightarrow> (Inl (ErrPersist ''load client''), with_v20 v s)
      | Inr client \<Rightarrow>
     (case UpdateOAuthClient (ad_now d) (client\<lparr>oc_ClientSecretHash := hash\<rparr>) v of
        (Inl e, v) \<Rightarrow> (Inl (ErrPersist ''update client''), with_v20 v s)
      | (Inr c, v) \<Rightarrow>
          (Inr \<lparr>sec_AgentID = ag_ID agent, sec_CredentialID = ad_cred d,
             sec_ClientID = ag_ClientID agent, sec_Secret = ad_secret d\<rparr>,
           svc_invalidate (ag_ClientID agent) (with_v20 v s))))))"

fun revoke_credentials :: "time \<Rightarrow> AgentCredential list \<Rightarrow> v20State \<Rightarrow> v20State" where
  "revoke_credentials now [] v = v"
| "revoke_credentials now (p # ps) v =
     (if cr_RevokedAt p \<noteq> None then revoke_credentials now ps v
      else revoke_credentials now ps (snd (RevokeAgentCredential (cr_ID p) now v)))"

definition RotateAgentSecret ::
  "(string \<Rightarrow> string option) \<Rightarrow> agent_draws \<Rightarrow> ULID \<Rightarrow> AgentsState
     \<Rightarrow> (agent_error + AgentSecret) \<times> AgentsState" where
  "RotateAgentSecret hashpw d agentID s =
     (let priors = AgentCredentialsByAgentID agentID (gs_v20 s) in
      case MintAgentCredential hashpw d agentID AgentCredentialKindSecret s of
        (Inl e, s) \<Rightarrow> (Inl e, s)
      | (Inr fresh, s) \<Rightarrow> (Inr fresh, with_v20 (revoke_credentials (ad_now d) priors (gs_v20 s)) s))"

definition SetAgentExpiry :: "time \<Rightarrow> ULID \<Rightarrow> time option \<Rightarrow> AgentsState \<Rightarrow> agent_error option \<times> AgentsState" where
  "SetAgentExpiry now agentID expiresAt s =
     (case validateExpiry now expiresAt of
        Some e \<Rightarrow> (Some e, s)
      | None \<Rightarrow> (case AgentByID agentID (gs_v20 s) of
          Inl e \<Rightarrow> (Some ErrAgentNotFound, s)
        | Inr cur \<Rightarrow> (case UpdateAgentExpiry agentID expiresAt (gs_v20 s) of
            (Some e, v) \<Rightarrow> (Some (ErrPersist ''expiry''), with_v20 v s)
          | (None, v) \<Rightarrow>
              (None, InvalidateChainCache (ag_ID cur) (svc_invalidate (ag_ClientID cur) (with_v20 v s))))))"

definition ListAgentsByOwner :: "AgentOwner \<Rightarrow> AgentsState \<Rightarrow> agent_error + Agent list" where
  "ListAgentsByOwner owner s =
     (case validateAgentOwner owner of
        Some e \<Rightarrow> Inl e | None \<Rightarrow> Inr (AgentsByOwner owner (gs_v20 s)))"

definition GetAgent :: "ULID \<Rightarrow> AgentsState \<Rightarrow> agent_error + Agent" where
  "GetAgent agentID s =
     (case AgentByID agentID (gs_v20 s) of Inl e \<Rightarrow> Inl ErrAgentNotFound | Inr a \<Rightarrow> Inr a)"

section \<open>Status changes and their cascade\<close>

fun revoke_grants :: "time \<Rightarrow> string \<Rightarrow> DelegationGrant list \<Rightarrow> v20State \<Rightarrow> nat \<times> agent_error list \<times> v20State" where
  "revoke_grants at note [] v = (0, [], v)"
| "revoke_grants at note (g # gs) v =
     (if dg_RevokedAt g \<noteq> None then revoke_grants at note gs v
      else case RevokeDelegationGrant (dg_ID g) at note v of
        (Some e, v) \<Rightarrow> (let (n, errs, v) = revoke_grants at note gs v in (n, ErrPersist ''revoke grant'' # errs, v))
      | (None, v) \<Rightarrow> (let (n, errs, v) = revoke_grants at note gs v in (Suc n, errs, v)))"

definition revokeAgentGrants ::
  "Agent \<Rightarrow> string \<Rightarrow> time \<Rightarrow> AgentsState \<Rightarrow> nat \<times> agent_error list \<times> AgentsState" where
  "revokeAgentGrants ag status at s =
     (let (n, errs, v) = revoke_grants at (''agent_'' @ status)
             (DelegationGrantsByAgentID (ag_ID ag) (gs_v20 s)) (gs_v20 s)
      in (n, errs, with_v20 v s))"

text \<open>The loop of \<open>revokeMintedTokens\<close> over one list of tokens.\<close>

fun revoke_minted :: "time \<Rightarrow> APIToken list \<Rightarrow> tokenState \<Rightarrow> nat \<times> agent_error list \<times> tokenState" where
  "revoke_minted at [] s = (0, [], s)"
| "revoke_minted at (t # ts) s =
     (if tk_Kind t \<noteq> APITokenKindAgent \<or> tk_RevokedAt t \<noteq> None then revoke_minted at ts s
      else case RevokeAPIToken (tk_ID t) at s of
        (Some e, s) \<Rightarrow> (let (n, errs, s) = revoke_minted at ts s in (n, ErrPersist ''revoke token'' # errs, s))
      | (None, s) \<Rightarrow> (let (n, errs, s) = revoke_minted at ts s in (Suc n, errs, s)))"

definition legacy_match :: "Agent \<Rightarrow> APIToken \<Rightarrow> bool" where
  "legacy_match ag t \<longleftrightarrow>
     \<not> (tk_AgentID t \<noteq> None \<or> tk_AgentName t \<noteq> ag_Name ag)
     \<and> \<not> (ag_OwnerUserID ag \<noteq> None \<and> (tk_DelegatedBy t = None \<or> tk_DelegatedBy t \<noteq> ag_OwnerUserID ag))"

definition revokeMintedTokens :: "Agent \<Rightarrow> time \<Rightarrow> tokenState \<Rightarrow> nat \<times> agent_error list \<times> tokenState" where
  "revokeMintedTokens ag at s =
     (let (n1, errs1, s) = revoke_minted at (APITokensByAgentID (ag_ID ag) s) s;
          owned = (case ag_OwnerUserID ag of Some u \<Rightarrow> APITokensByOwner u s | None \<Rightarrow> ListAPITokens s);
          (n2, errs2, s) = revoke_minted at (filter (legacy_match ag) owned) s
      in (n1 + n2, errs1 @ errs2, s))"

definition cascadeAgentRevocation ::
  "Agent \<Rightarrow> string \<Rightarrow> time \<Rightarrow> AgentsState \<Rightarrow> agent_error list \<times> AgentsState" where
  "cascadeAgentRevocation ag status at s =
     (let (grants, gerrs, s) = revokeAgentGrants ag status at s;
          (n, t) = RevokeAPITokensByOwner (ag_ID ag) at (gs_tokens s);
          (minted, merrs, t) = revokeMintedTokens ag at t
      in (gerrs @ merrs, s\<lparr>gs_tokens := t\<rparr>))"

definition changeAgentStatus ::
  "time \<Rightarrow> ULID \<Rightarrow> string \<Rightarrow> AgentsState \<Rightarrow> agent_error list \<times> AgentsState" where
  "changeAgentStatus now agentID status s =
     (case AgentByID agentID (gs_v20 s) of
        Inl e \<Rightarrow> ([ErrAgentNotFound], s)
      | Inr cur \<Rightarrow>
     (case UpdateAgentStatus agentID status (gs_v20 s) of
        (Some e, v) \<Rightarrow> ([ErrPersist ''status''], with_v20 v s)
      | (None, v) \<Rightarrow>
          (let s = with_v20 v s in
           if status \<noteq> AgentStatusActive then
             cascadeAgentRevocation cur status now
               (InvalidateChainCache (ag_ID cur) (svc_invalidate (ag_ClientID cur) s))
           else ([], s))))"

definition SuspendAgent :: "time \<Rightarrow> ULID \<Rightarrow> AgentsState \<Rightarrow> agent_error list \<times> AgentsState" where
  "SuspendAgent now agentID s = changeAgentStatus now agentID AgentStatusSuspended s"

definition ResumeAgent :: "time \<Rightarrow> ULID \<Rightarrow> AgentsState \<Rightarrow> agent_error list \<times> AgentsState" where
  "ResumeAgent now agentID s =
     (case AgentByID agentID (gs_v20 s) of
        Inl e \<Rightarrow> ([ErrAgentNotFound], s)
      | Inr cur \<Rightarrow> if ag_Status cur = AgentStatusRevoked then ([ErrAgentInactive], s)
                   else changeAgentStatus now agentID AgentStatusActive s)"

definition RevokeAgent :: "time \<Rightarrow> ULID \<Rightarrow> AgentsState \<Rightarrow> agent_error list \<times> AgentsState" where
  "RevokeAgent now agentID s = changeAgentStatus now agentID AgentStatusRevoked s"

section \<open>What the cascade does\<close>

lemma with_v20_sel [simp]:
  "au_v20 (gs_auth (with_v20 v s)) = v" "gs_tokens (with_v20 v s) = gs_tokens s"
  "gs_chain (with_v20 v s) = gs_chain s" "gs_subjects (with_v20 v s) = gs_subjects s"
  "au_cache (gs_auth (with_v20 v s)) = au_cache (gs_auth s)"
  by (simp_all add: with_v20_def)

lemma invalidate_sel [simp]:
  "au_v20 (gs_auth (svc_invalidate c s)) = gs_v20 s" "gs_tokens (svc_invalidate c s) = gs_tokens s"
  "gs_chain (svc_invalidate c s) = gs_chain s"
  "gs_auth (InvalidateChainCache i s) = gs_auth s" "gs_tokens (InvalidateChainCache i s) = gs_tokens s"
  by (simp_all add: svc_invalidate_def InvalidateClientAuthCache_def InvalidateChainCache_def InvalidateSubject_def)

lemma invalidate_drops:
  "c \<noteq> [] \<Longrightarrow> cache_lookup (au_cache (gs_auth (svc_invalidate c s))) c = None"
  "i \<noteq> [] \<Longrightarrow> gm_get (gs_subjects (InvalidateChainCache i s)) (AgentSubjectPrefix @ i) = None"
  by (simp_all add: svc_invalidate_def InvalidateClientAuthCache_def cache_lookup_Invalidate
      InvalidateChainCache_def InvalidateSubject_def)

text \<open>Grants.\<close>

definition revoke_grant_row :: "time \<Rightarrow> string \<Rightarrow> DelegationGrant \<Rightarrow> DelegationGrant" where
  "revoke_grant_row at note g =
     (if dg_RevokedAt g = None then g\<lparr>dg_RevokedAt := Some at, dg_RevocationNote := note\<rparr> else g)"

lemma revoke_grants_props:
  assumes "distinct (map dg_ID gs)" and "\<And>g. g \<in> set gs \<Longrightarrow> gm_get (v_delegations v) (dg_ID g) = Some g"
  shows "fst (snd (revoke_grants at note gs v)) = []
    \<and> (v20_reach v \<longrightarrow> v20_reach (snd (snd (revoke_grants at note gs v))))
    \<and> v_agents (snd (snd (revoke_grants at note gs v))) = v_agents v
    \<and> (\<forall>i. gm_get (v_delegations (snd (snd (revoke_grants at note gs v)))) i
        = (if i \<in> dg_ID ` set gs then map_option (revoke_grant_row at note) (gm_get (v_delegations v) i)
           else gm_get (v_delegations v) i))"
  using assms
proof (induction gs arbitrary: v)
  case Nil
  then show ?case by simp
next
  case (Cons g gs)
  have g: "gm_get (v_delegations v) (dg_ID g) = Some g" using Cons.prems by simp
  show ?case
  proof (cases "dg_RevokedAt g = None")
    case False
    have "revoke_grants at note (g # gs) v = revoke_grants at note gs v" using False by auto
    moreover have "revoke_grant_row at note g = g" using False by (auto simp: revoke_grant_row_def)
    moreover note Cons.IH [of v] Cons.prems g
    ultimately show ?thesis by (simp add: image_iff)
  next
    case True
    let ?v = "snd (RevokeDelegationGrant (dg_ID g) at note v)"
    have r: "RevokeDelegationGrant (dg_ID g) at note v = (None, ?v)"
      "v_delegations ?v = gm_put (dg_ID g) (revoke_grant_row at note g) (v_delegations v)"
      "v_agents ?v = v_agents v"
      using g True by (simp_all add: RevokeDelegationGrant_def revoke_grant_row_def)
    have pre1: "distinct (map dg_ID gs)" using Cons.prems(1) by simp
    have pre2: "gm_get (v_delegations ?v) (dg_ID h) = Some h" if "h \<in> set gs" for h
    proof -
      have "dg_ID h \<noteq> dg_ID g" using Cons.prems(1) imageI [OF that, of dg_ID] by auto
      then show ?thesis using Cons.prems(2) [of h] that by (simp add: r(2))
    qed
    note IH = Cons.IH [OF pre1 pre2]
    have e: "fst (snd (revoke_grants at note (g # gs) v)) = fst (snd (revoke_grants at note gs ?v))"
      "snd (snd (revoke_grants at note (g # gs) v)) = snd (snd (revoke_grants at note gs ?v))"
    proof -
      obtain n e w where "revoke_grants at note gs ?v = (n, e, w)"
        by (cases "revoke_grants at note gs ?v") auto
      moreover obtain v1 where "RevokeDelegationGrant (dg_ID g) at note v = (None, v1)" using r(1) by blast
      ultimately show "fst (snd (revoke_grants at note (g # gs) v)) = fst (snd (revoke_grants at note gs ?v))"
        "snd (snd (revoke_grants at note (g # gs) v)) = snd (snd (revoke_grants at note gs ?v))"
        using True by simp_all
    qed
    have "dg_ID g \<notin> dg_ID ` set gs" using Cons.prems by auto
    then show ?thesis unfolding e using IH r(2,3) g
      by (simp add: v20_reach.revoke_grant)
  qed
qed

lemma agent_grants_list:
  assumes "deleg_ok v"
  shows "distinct (map dg_ID (DelegationGrantsByAgentID a v))"
    and "g \<in> set (DelegationGrantsByAgentID a v) \<longleftrightarrow>
      gm_get (v_delegations v) (dg_ID g) = Some g \<and> dg_AgentID g = a"
proof -
  let ?r = "gm_read zero_DelegationGrant (v_delegations v)" and ?ids = "gm_read [] (v_delegByAgent v) a"
  have ix: "index_ok (v_delegations v) (v_delegByAgent v) dg_AgentID"
    using assms by (simp add: deleg_ok_def)
  have row: "gm_get (v_delegations v) i = Some (?r i) \<and> dg_ID (?r i) = i" if "i \<in> set ?ids" for i
  proof -
    from ix that obtain g where "gm_get (v_delegations v) i = Some g" unfolding index_ok_def by blast
    then show ?thesis using deleg_okD(1) [OF assms] by (simp add: gm_read_Some)
  qed
  have "map dg_ID (map ?r ?ids) = ?ids" using row by (simp add: map_idI)
  moreover have "distinct ?ids" using ix unfolding index_ok_def by blast
  ultimately have "distinct (map dg_ID (map ?r ?ids))" by (simp only:)
  then show "distinct (map dg_ID (DelegationGrantsByAgentID a v))"
    unfolding DelegationGrantsByAgentID_def by (simp add: distinct_map del: map_map)
  show "g \<in> set (DelegationGrantsByAgentID a v) \<longleftrightarrow>
      gm_get (v_delegations v) (dg_ID g) = Some g \<and> dg_AgentID g = a"
    using index_ok_rows [OF ix, of zero_DelegationGrant a] deleg_okD(1) [OF assms]
    by (auto simp: DelegationGrantsByAgentID_def set_eq_iff image_iff simp del: set_map)
qed

text \<open>API tokens.\<close>

definition tokens_keyed :: "tokenState \<Rightarrow> bool" where
  "tokens_keyed s \<longleftrightarrow> gm_ok (ts_tokens s) \<and> (\<forall>i t. gm_get (ts_tokens s) i = Some t \<longrightarrow> tk_ID t = i)"

definition revoke_token_row :: "time \<Rightarrow> APIToken \<Rightarrow> APIToken" where
  "revoke_token_row at t = (if tk_RevokedAt t = None then t\<lparr>tk_RevokedAt := Some at\<rparr> else t)"

lemma revoke_token_row_sel [simp]:
  "tk_ID (revoke_token_row at t) = tk_ID t" "tk_Kind (revoke_token_row at t) = tk_Kind t"
  "tk_OwnerID (revoke_token_row at t) = tk_OwnerID t" "tk_AgentID (revoke_token_row at t) = tk_AgentID t"
  "tk_RevokedAt (revoke_token_row at t) \<noteq> None"
  "\<exists>y. tk_RevokedAt (revoke_token_row at t) = Some y"
  by (auto simp: revoke_token_row_def)

lemma RevokeAPIToken_row:
  assumes "gm_get (ts_tokens s) i \<noteq> None"
  shows "fst (RevokeAPIToken i at s) = None"
    and "gm_get (ts_tokens (snd (RevokeAPIToken i at s))) j
      = (if j = i then map_option (revoke_token_row at) (gm_get (ts_tokens s) j) else gm_get (ts_tokens s) j)"
    and "gm_ok (ts_tokens s) \<Longrightarrow> gm_ok (ts_tokens (snd (RevokeAPIToken i at s)))"
  using assms by (auto simp: RevokeAPIToken_def revoke_token_row_def)

lemma revoke_minted_props:
  assumes "tokens_keyed s" and "\<And>t. t \<in> set ts \<Longrightarrow> gm_get (ts_tokens s) (tk_ID t) \<noteq> None"
  shows "fst (snd (revoke_minted at ts s)) = [] \<and> tokens_keyed (snd (snd (revoke_minted at ts s)))
    \<and> (\<forall>i. gm_get (ts_tokens (snd (snd (revoke_minted at ts s)))) i
        = map_option (\<lambda>r. if \<exists>t\<in>set ts. tk_ID t = i \<and> tk_Kind t = APITokenKindAgent \<and> tk_RevokedAt t = None
             then revoke_token_row at r else r) (gm_get (ts_tokens s) i))"
  using assms
proof (induction ts arbitrary: s)
  case Nil
  then show ?case by (simp add: option.map_ident)
next
  case (Cons t ts)
  show ?case
  proof (cases "tk_Kind t \<noteq> APITokenKindAgent \<or> tk_RevokedAt t \<noteq> None")
    case True
    then have e: "revoke_minted at (t # ts) s = revoke_minted at ts s" by auto
    from True have "(\<exists>u\<in>set (t # ts). tk_ID u = i \<and> tk_Kind u = APITokenKindAgent \<and> tk_RevokedAt u = None)
        \<longleftrightarrow> (\<exists>u\<in>set ts. tk_ID u = i \<and> tk_Kind u = APITokenKindAgent \<and> tk_RevokedAt u = None)" for i
      by auto
    with Cons show ?thesis unfolding e by simp
  next
    case False
    let ?s = "snd (RevokeAPIToken (tk_ID t) at s)"
    have t: "gm_get (ts_tokens s) (tk_ID t) \<noteq> None" using Cons.prems by simp
    note row = RevokeAPIToken_row [OF t, of at]
    have k: "tokens_keyed ?s"
      using Cons.prems(1) row(2,3) unfolding tokens_keyed_def by (auto split: if_splits)
    have p: "\<And>u. u \<in> set ts \<Longrightarrow> gm_get (ts_tokens ?s) (tk_ID u) \<noteq> None"
      using Cons.prems(2) row(2) by auto
    have e: "fst (snd (revoke_minted at (t # ts) s)) = fst (snd (revoke_minted at ts ?s))"
      "snd (snd (revoke_minted at (t # ts) s)) = snd (snd (revoke_minted at ts ?s))"
      using False row(1) by (auto split: prod.splits)
    show ?thesis
      unfolding e using Cons.IH [OF k p] False
      by (auto simp: row(2) option.map_comp comp_def revoke_token_row_def intro!: option.map_cong)
  qed
qed

lemma RevokeAPITokensByOwner_row:
  "gm_get (ts_tokens (snd (RevokeAPITokensByOwner u at s))) i
     = map_option (\<lambda>t. if tk_OwnerID t = u then revoke_token_row at t else t) (gm_get (ts_tokens s) i)"
proof -
  let ?hit = "\<lambda>t. if tk_OwnerID t = u \<and> tk_RevokedAt t = None then t\<lparr>tk_RevokedAt := Some at\<rparr> else t"
  have "ts_tokens (snd (RevokeAPITokensByOwner u at s)) = map (\<lambda>(i, t). (i, ?hit t)) (ts_tokens s)"
    by (simp add: RevokeAPITokensByOwner_def Let_def)
  moreover have "map_of (map (\<lambda>(i, t). (i, ?hit t)) (ts_tokens s)) i = map_option ?hit (gm_get (ts_tokens s) i)"
    by (simp add: map_of_map)
  moreover have "?hit t = (if tk_OwnerID t = u then revoke_token_row at t else t)" for t
    by (auto simp: revoke_token_row_def)
  ultimately show ?thesis by simp
qed

lemma tokens_keyed_RevokeOwner:
  assumes "tokens_keyed s"
  shows "tokens_keyed (snd (RevokeAPITokensByOwner u at s))"
proof -
  have "map fst (ts_tokens (snd (RevokeAPITokensByOwner u at s))) = map fst (ts_tokens s)"
    by (auto simp: RevokeAPITokensByOwner_def Let_def)
  then have "gm_ok (ts_tokens (snd (RevokeAPITokensByOwner u at s)))"
    using assms by (simp add: tokens_keyed_def gm_ok_def)
  with assms show ?thesis
    unfolding tokens_keyed_def by (auto simp: RevokeAPITokensByOwner_row split: if_splits)
qed

lemma token_lists_stored:
  assumes "tokens_keyed s"
  shows "t \<in> set (APITokensByAgentID a s) \<Longrightarrow> gm_get (ts_tokens s) (tk_ID t) = Some t \<and> tk_AgentID t = Some a"
    and "t \<in> set (APITokensByOwner u s) \<Longrightarrow> gm_get (ts_tokens s) (tk_ID t) = Some t"
    and "t \<in> set (ListAPITokens s) \<Longrightarrow> gm_get (ts_tokens s) (tk_ID t) = Some t"
    and "gm_get (ts_tokens s) i = Some t \<Longrightarrow> tk_AgentID t = Some a \<Longrightarrow> t \<in> set (APITokensByAgentID a s)"
  using assms
  by (auto simp: tokens_keyed_def APITokensByAgentID_def APITokensByOwner_def ListAPITokens_def
      sortNewestFirst_def gm_get_Some_iff image_iff) force

lemma revokeMintedTokens_props:
  assumes k: "tokens_keyed s"
  shows "fst (snd (revokeMintedTokens ag at s)) = []"
    and "gm_get (ts_tokens (snd (snd (revokeMintedTokens ag at s)))) i = Some t \<Longrightarrow>
      \<exists>t0. gm_get (ts_tokens s) i = Some t0 \<and> (t = t0 \<or> t = revoke_token_row at t0)
        \<and> (tk_AgentID t0 = Some (ag_ID ag) \<and> tk_Kind t0 = APITokenKindAgent \<longrightarrow> tk_RevokedAt t \<noteq> None)"
proof -
  let ?l1 = "APITokensByAgentID (ag_ID ag) s"
  obtain n1 e1 s1 where r1: "revoke_minted at ?l1 s = (n1, e1, s1)" by (cases "revoke_minted at ?l1 s") auto
  note p1 = revoke_minted_props [OF k, of ?l1 at]
  have p1: "e1 = []" "tokens_keyed s1"
    "\<And>i. gm_get (ts_tokens s1) i = map_option (\<lambda>r. if \<exists>t\<in>set ?l1. tk_ID t = i \<and> tk_Kind t = APITokenKindAgent
         \<and> tk_RevokedAt t = None then revoke_token_row at r else r) (gm_get (ts_tokens s) i)"
    using p1 token_lists_stored(1) [OF k] r1 by auto
  let ?owned = "case ag_OwnerUserID ag of Some u \<Rightarrow> APITokensByOwner u s1 | None \<Rightarrow> ListAPITokens s1"
  let ?l2 = "filter (legacy_match ag) ?owned"
  obtain n2 e2 s2 where r2: "revoke_minted at ?l2 s1 = (n2, e2, s2)" by (cases "revoke_minted at ?l2 s1") auto
  have "gm_get (ts_tokens s1) (tk_ID t) \<noteq> None" if "t \<in> set ?l2" for t
    using that token_lists_stored(2,3) [OF p1(2)] by (auto split: option.splits)
  then have p2: "e2 = []"
    "\<And>i. gm_get (ts_tokens s2) i = map_option (\<lambda>r. if \<exists>t\<in>set ?l2. tk_ID t = i \<and> tk_Kind t = APITokenKindAgent
         \<and> tk_RevokedAt t = None then revoke_token_row at r else r) (gm_get (ts_tokens s1) i)"
    using revoke_minted_props [OF p1(2), of ?l2 at] r2 by auto
  have r: "revokeMintedTokens ag at s = (n1 + n2, e1 @ e2, s2)"
    by (simp add: revokeMintedTokens_def Let_def r1 r2)
  show "fst (snd (revokeMintedTokens ag at s)) = []" by (simp add: r p1 p2)
  assume "gm_get (ts_tokens (snd (snd (revokeMintedTokens ag at s)))) i = Some t"
  then have t: "gm_get (ts_tokens s2) i = Some t" by (simp add: r)
  then obtain t1 where t1: "gm_get (ts_tokens s1) i = Some t1" "t = t1 \<or> t = revoke_token_row at t1"
    by (auto simp: p2 split: if_splits)
  then obtain t0 where t0: "gm_get (ts_tokens s) i = Some t0"
    and "t1 = (if \<exists>t\<in>set ?l1. tk_ID t = i \<and> tk_Kind t = APITokenKindAgent \<and> tk_RevokedAt t = None
       then revoke_token_row at t0 else t0)"
    by (auto simp: p1)
  then have t10: "t1 = t0 \<or> t1 = revoke_token_row at t0"
    "(\<exists>t\<in>set ?l1. tk_ID t = i \<and> tk_Kind t = APITokenKindAgent \<and> tk_RevokedAt t = None)
       \<Longrightarrow> t1 = revoke_token_row at t0" by (simp_all split: if_splits)
  have "tk_RevokedAt t1 \<noteq> None"
    if a: "tk_AgentID t0 = Some (ag_ID ag)" "tk_Kind t0 = APITokenKindAgent"
  proof (cases "tk_RevokedAt t0 = None")
    case True
    have "t0 \<in> set ?l1" "tk_ID t0 = i"
      using token_lists_stored(4) [OF k t0 a(1)] k t0 by (auto simp: tokens_keyed_def)
    with True a have "t1 = revoke_token_row at t0" by (intro t10(2)) blast
    then show ?thesis by simp
  next
    case False
    with t10(1) show ?thesis by (auto simp: revoke_token_row_def)
  qed
  moreover have "t = t0 \<or> t = revoke_token_row at t0"
    using t10(1) t1(2) by (auto simp: revoke_token_row_def)
  moreover have "tk_RevokedAt t1 \<noteq> None \<Longrightarrow> tk_RevokedAt t \<noteq> None"
    using t1(2) by (auto simp: revoke_token_row_def)
  ultimately show "\<exists>t0. gm_get (ts_tokens s) i = Some t0 \<and> (t = t0 \<or> t = revoke_token_row at t0)
        \<and> (tk_AgentID t0 = Some (ag_ID ag) \<and> tk_Kind t0 = APITokenKindAgent \<longrightarrow> tk_RevokedAt t \<noteq> None)"
    using t0 by blast
qed

text \<open>The tokens an agent holds: those it owns, and agent tokens minted for its identifier.\<close>

definition held_by :: "ULID \<Rightarrow> APIToken \<Rightarrow> bool" where
  "held_by i t \<longleftrightarrow> tk_OwnerID t = i \<or> tk_AgentID t = Some i \<and> tk_Kind t = APITokenKindAgent"

lemma cascade_tokens:
  assumes k: "tokens_keyed s"
    and t: "gm_get (ts_tokens (snd (snd (revokeMintedTokens ag at (snd (RevokeAPITokensByOwner (ag_ID ag) at s)))))) i = Some t"
    and held: "held_by (ag_ID ag) t"
  shows "tk_RevokedAt t \<noteq> None"
proof -
  let ?s = "snd (RevokeAPITokensByOwner (ag_ID ag) at s)"
  obtain t0 where t0: "gm_get (ts_tokens ?s) i = Some t0" "t = t0 \<or> t = revoke_token_row at t0"
    "tk_AgentID t0 = Some (ag_ID ag) \<and> tk_Kind t0 = APITokenKindAgent \<longrightarrow> tk_RevokedAt t \<noteq> None"
    using revokeMintedTokens_props(2) [OF tokens_keyed_RevokeOwner [OF k] t] by blast
  have "tk_RevokedAt t0 \<noteq> None" if "tk_OwnerID t0 = ag_ID ag"
  proof -
    from t0(1) obtain t1 where "t0 = (if tk_OwnerID t1 = ag_ID ag then revoke_token_row at t1 else t1)"
      by (auto simp: RevokeAPITokensByOwner_row)
    with that show ?thesis by (cases "tk_OwnerID t1 = ag_ID ag") simp_all
  qed
  with t0 held show ?thesis by (auto simp: held_by_def)
qed

lemma changeAgentStatus_away:
  assumes reach: "v20_reach (gs_v20 s)" and k: "tokens_keyed (gs_tokens s)"
    and a: "AgentByID i (gs_v20 s) = Inr a" and st: "status \<noteq> AgentStatusActive"
    and r: "changeAgentStatus now i status s = (errs, s')"
  shows "errs = [] \<and> v20_reach (gs_v20 s')
    \<and> AgentByID i (gs_v20 s') = Inr (a\<lparr>ag_Status := status\<rparr>)
    \<and> (\<forall>j g. DelegationGrantByID j (gs_v20 s') = Inr g \<and> dg_AgentID g = i \<longrightarrow> dg_RevokedAt g \<noteq> None)
    \<and> (\<forall>j g. DelegationGrantByID j (gs_v20 s) = Inr g \<and> dg_AgentID g \<noteq> i \<longrightarrow>
          DelegationGrantByID j (gs_v20 s') = Inr g)
    \<and> (\<forall>j t. APITokenByID j (gs_tokens s') = Inr t \<and> held_by i t \<longrightarrow> tk_RevokedAt t \<noteq> None)
    \<and> (ag_ClientID a \<noteq> [] \<longrightarrow> cache_lookup (au_cache (gs_auth s')) (ag_ClientID a) = None)
    \<and> (i \<noteq> [] \<longrightarrow> gm_get (gs_subjects s') (AgentSubjectPrefix @ i) = None)"
proof -
  have row: "gm_get (v_agents (gs_v20 s)) i = Some a"
    using a by (auto simp: AgentByID_def split: option.splits)
  then have id: "ag_ID a = i"
    using v20_reach_agents_ok [OF reach] unfolding agents_ok_def by blast
  obtain v1 where upd: "UpdateAgentStatus i status (gs_v20 s) = (None, v1)"
    "gm_get (v_agents v1) i = Some (a\<lparr>ag_Status := status\<rparr>)" "v_delegations v1 = v_delegations (gs_v20 s)"
    using row by (simp add: UpdateAgentStatus_def)
  have reach': "v20_reach v1" using v20_reach.agent_status [OF reach, of i status] upd(1) by simp
  define s1 where "s1 = InvalidateChainCache i (svc_invalidate (ag_ClientID a) (with_v20 v1 s))"
  have s1: "gs_v20 s1 = v1" "gs_tokens s1 = gs_tokens s" by (simp_all add: s1_def)
  let ?note = "''agent_'' @ status" and ?gs = "DelegationGrantsByAgentID i v1"
  let ?v2 = "snd (snd (revoke_grants now ?note ?gs v1))"
  let ?t = "revokeMintedTokens a now (snd (RevokeAPITokensByOwner i now (gs_tokens s)))"
  note gl = agent_grants_list [OF v20_reach_deleg_ok [OF reach'], where a = i]
  note grants = revoke_grants_props [of ?gs v1 now ?note, OF gl(1) conjunct1 [OF iffD1 [OF gl(2)]]]
  have "changeAgentStatus now i status s = cascadeAgentRevocation a status now s1"
    using a st by (simp add: changeAgentStatus_def upd(1) id s1_def Let_def)
  also have "\<dots> = (fst (snd (revoke_grants now ?note ?gs v1)) @ fst (snd ?t),
      (with_v20 ?v2 s1)\<lparr>gs_tokens := snd (snd ?t)\<rparr>)"
    by (simp add: cascadeAgentRevocation_def revokeAgentGrants_def s1 id split: prod.splits)
  finally have eq: "errs = fst (snd (revoke_grants now ?note ?gs v1)) @ fst (snd ?t)"
    "s' = (with_v20 ?v2 s1)\<lparr>gs_tokens := snd (snd ?t)\<rparr>" using r by simp_all
  have errs: "errs = []"
    using grants revokeMintedTokens_props(1) [OF tokens_keyed_RevokeOwner [OF k], of a now i now]
    by (simp add: eq)
  have v': "gs_v20 s' = ?v2" by (simp add: eq)
  have mem: "g \<in> set ?gs \<longleftrightarrow> gm_get (v_delegations v1) (dg_ID g) = Some g \<and> dg_AgentID g = i" for g
    by (rule gl(2))
  have dok: "dg_ID g = j" if "gm_get (v_delegations v1) j = Some g" for j g
    using deleg_okD(1) [OF v20_reach_deleg_ok [OF reach'] that] by simp
  have g2: "gm_get (v_delegations ?v2) j = (if j \<in> dg_ID ` set ?gs
      then map_option (revoke_grant_row now ?note) (gm_get (v_delegations v1) j)
      else gm_get (v_delegations v1) j)" for j using grants by blast
  have "dg_RevokedAt g \<noteq> None"
    if g: "gm_get (v_delegations ?v2) j = Some g" "dg_AgentID g = i" for j g
  proof -
    from g(1) obtain g0 where g0: "gm_get (v_delegations v1) j = Some g0"
      "g = (if j \<in> dg_ID ` set ?gs then revoke_grant_row now ?note g0 else g0)"
      unfolding g2 by (auto split: if_splits)
    then have "dg_AgentID g0 = i" using g(2) by (auto simp: revoke_grant_row_def split: if_splits)
    then have "j \<in> dg_ID ` set ?gs" using mem [of g0] dok [OF g0(1)] g0(1) by force
    with g0(2) show ?thesis by (auto simp: revoke_grant_row_def)
  qed
  moreover have "gm_get (v_delegations ?v2) j = Some g"
    if g: "gm_get (v_delegations (gs_v20 s)) j = Some g" "dg_AgentID g \<noteq> i" for j g
  proof -
    have "j \<notin> dg_ID ` set ?gs" using mem g upd(3) by force
    then show ?thesis unfolding g2 using g upd(3) by simp
  qed
  moreover have "gm_get (v_agents ?v2) i = Some (a\<lparr>ag_Status := status\<rparr>)"
    using grants upd(2) by simp
  moreover have "tk_RevokedAt t \<noteq> None"
    if "gm_get (ts_tokens (snd (snd ?t))) j = Some t" "held_by i t" for j t
    using cascade_tokens [OF k, where ag = a] that by (simp add: id)
  moreover have "v20_reach ?v2" using grants reach' by blast
  moreover have "au_cache (gs_auth s') = au_cache (gs_auth s1)" "gs_subjects s' = gs_subjects s1"
    by (simp_all add: eq)
  ultimately show ?thesis
    unfolding errs v' DelegationGrantByID_iff
    using invalidate_drops(1) [of "ag_ClientID a" "with_v20 v1 s"] invalidate_drops(2) [of i]
    by (auto simp: AgentByID_def APITokenByID_def eq s1_def split: option.splits)
qed


section \<open>A run\<close>

text \<open>
  An agent with a secret and a grant. Hashing is modelled by a reversible marker, which is all the
  example needs.
\<close>

definition ex_hashpw :: "string \<Rightarrow> string option" where
  "ex_hashpw secret = Some (CHR ''#'' # secret)"

definition ex_params :: auth_params where
  "ex_params = \<lparr>ap_parse = (\<lambda>_. None), ap_digest = (\<lambda>x. x), ap_cimd = None,
     ap_verify = (\<lambda>secret phc. Inr (ex_hashpw secret = Some phc)), ap_jwt = (\<lambda>_ _. Inl ErrOAuthInvalidClient)\<rparr>"

definition ex_draws :: "string \<Rightarrow> agent_draws" where
  "ex_draws secret = \<lparr>ad_client = ''c'', ad_row = ''r'', ad_agent = ex_agent, ad_cred = secret,
     ad_secret = secret, ad_now = 5\<rparr>"

definition ex_input :: CreateAgentInput where
  "ex_input = \<lparr>ci_Owner = \<lparr>ao_UserID = Some ex_user, ao_OrganizationID = None\<rparr>, ci_Name = ''bot'',
     ci_Description = [], ci_Scope = [''mail.read''], ci_ExpiresAt = None\<rparr>"

definition ex_empty :: AgentsState where
  "ex_empty = \<lparr>gs_auth = \<lparr>au_v20 = ensureV20, au_cache = NewCache 0 0\<rparr>, gs_tokens = tokenState_init,
     gs_chain = [], gs_subjects = []\<rparr>"

definition ex_agents :: AgentsState where
  "ex_agents = snd (CreateAgent ex_hashpw (ex_draws ''old'') ex_input ex_empty)"

definition ex_agents_granted :: AgentsState where
  "ex_agents_granted = with_v20 (snd (InsertDelegationGrant 7 ex_grant (gs_v20 ex_agents)))
     (ex_agents\<lparr>gs_tokens := InsertAPIToken \<lparr>tk_ID = ''t1'', tk_OwnerID = ex_user, tk_OwnerKind = ''user'',
        tk_Name = ''bot'', tk_Abilities = [''read''], tk_TokenHash = ''h'', tk_Hint = [],
        tk_Kind = APITokenKindAgent, tk_AgentName = ''bot'', tk_DelegatedBy = Some ex_user,
        tk_AgentID = Some ex_agent, tk_CreatedAt = 6, tk_ExpiresAt = None, tk_LastUsedAt = None,
        tk_RevokedAt = None\<rparr> tokenState_init\<rparr>)"

definition ex_rotate :: "AuthState \<Rightarrow> AuthState" where
  "ex_rotate st = gs_auth (snd (RotateAgentSecret ex_hashpw (ex_draws ''new'') ex_agent (ex_agents\<lparr>gs_auth := st\<rparr>)))"


section \<open>Revocation is not final\<close>

lemma revoke_grants_agents: "v_agents (snd (snd (revoke_grants at note gs v))) = v_agents v"
proof (induction gs arbitrary: v)
  case Nil
  then show ?case by simp
next
  case (Cons g gs)
  have "v_agents (snd (RevokeDelegationGrant i at note v)) = v_agents v" for i
    by (simp add: RevokeDelegationGrant_def split: option.splits)
  then show ?case
    using Cons.IH by (auto split: prod.splits option.splits) (metis snd_conv)+
qed

lemma changeAgentStatus_status:
  assumes "AgentByID i (gs_v20 s) = Inr a"
  shows "AgentByID i (gs_v20 (snd (changeAgentStatus now i status s))) = Inr (a\<lparr>ag_Status := status\<rparr>)"
    and "status = AgentStatusActive \<Longrightarrow> fst (changeAgentStatus now i status s) = []"
proof -
  have row: "gm_get (v_agents (gs_v20 s)) i = Some a"
    using assms by (auto simp: AgentByID_def split: option.splits)
  then obtain v1 where upd: "UpdateAgentStatus i status (gs_v20 s) = (None, v1)"
    "gm_get (v_agents v1) i = Some (a\<lparr>ag_Status := status\<rparr>)"
    by (simp add: UpdateAgentStatus_def)
  have cascade: "v_agents (gs_v20 (snd (cascadeAgentRevocation ag st t s'))) = v_agents (gs_v20 s')" for ag st t s'
    using revoke_grants_agents
    by (auto simp: cascadeAgentRevocation_def revokeAgentGrants_def split: prod.splits) (metis snd_conv)
  show "AgentByID i (gs_v20 (snd (changeAgentStatus now i status s))) = Inr (a\<lparr>ag_Status := status\<rparr>)"
    using upd assms by (simp add: changeAgentStatus_def Let_def AgentByID_def cascade)
  show "status = AgentStatusActive \<Longrightarrow> fst (changeAgentStatus now i status s) = []"
    using upd assms by (simp add: changeAgentStatus_def)
qed

text \<open>C40: revoking an agent is not final. Resuming a revoked agent is refused, but suspending it first
  is not, and that overwrites the status; the resumption that follows then succeeds and the agent is
  active again.
\<close>

theorem revoked_agent_revived:
  assumes "AgentByID i (gs_v20 s) = Inr a"
  shows "fst (ResumeAgent t i (snd (RevokeAgent t1 i s))) = [ErrAgentInactive]
    \<and> fst (ResumeAgent t3 i (snd (SuspendAgent t2 i (snd (RevokeAgent t1 i s))))) = []
    \<and> AgentByID i (gs_v20 (snd (ResumeAgent t3 i (snd (SuspendAgent t2 i (snd (RevokeAgent t1 i s)))))))
        = Inr (a\<lparr>ag_Status := AgentStatusActive\<rparr>)"
proof -
  let ?s1 = "snd (RevokeAgent t1 i s)" and ?s2 = "snd (SuspendAgent t2 i (snd (RevokeAgent t1 i s)))"
  have s1: "AgentByID i (gs_v20 ?s1) = Inr (a\<lparr>ag_Status := AgentStatusRevoked\<rparr>)"
    unfolding RevokeAgent_def by (rule changeAgentStatus_status [OF assms])
  have s2: "AgentByID i (gs_v20 ?s2) = Inr (a\<lparr>ag_Status := AgentStatusSuspended\<rparr>)"
    using changeAgentStatus_status(1) [OF s1] by (simp add: SuspendAgent_def)
  have neq: "AgentStatusSuspended \<noteq> AgentStatusRevoked"
    by (simp add: AgentStatusSuspended_def AgentStatusRevoked_def)
  show ?thesis
    using s1 s2 changeAgentStatus_status [OF s2, where status = AgentStatusActive and now = t3] neq by (simp add: ResumeAgent_def)
qed

theorem revoked_agent_revived_witness:
  "\<exists>a. AgentByID ex_agent (gs_v20 ex_agents) = Inr a
     \<and> AgentByID ex_agent (gs_v20 (snd (ResumeAgent 30 ex_agent
          (snd (SuspendAgent 20 ex_agent (snd (RevokeAgent 10 ex_agent ex_agents)))))))
        = Inr (a\<lparr>ag_Status := AgentStatusActive\<rparr>)"
proof -
  have "\<not> isl (AgentByID ex_agent (gs_v20 ex_agents))" by code_simp
  then obtain a where a: "AgentByID ex_agent (gs_v20 ex_agents) = Inr a"
    by (cases "AgentByID ex_agent (gs_v20 ex_agents)") simp_all
  with revoked_agent_revived [OF a, of 0 10 30 20] show ?thesis by blast
qed

section \<open>The cascade on the example\<close>

lemma ex_agents_granted_reach: "v20_reach (gs_v20 ex_agents_granted)"
proof -
  let ?c = "new_client_row (ex_draws ''old'') ex_input ''bot'' ''#old''"
    and ?a = "new_agent_row (ex_draws ''old'') ex_input ''bot''"
    and ?k = "new_credential (ex_draws ''old'') ex_agent ''#old''"
  have "gs_v20 ex_agents = snd (InsertAgentCredential 5 ?k (snd (InsertAgent 5 ?a
      (snd (InsertOAuthClient 5 ?c ensureV20)))))"
    by code_simp
  moreover have "v20_reach (snd (InsertAgentCredential 5 ?k (snd (InsertAgent 5 ?a
      (snd (InsertOAuthClient 5 ?c ensureV20))))))"
    by (intro v20_reach.ins_cred v20_reach.ins_agent v20_reach.ins_client v20_reach.start)
  ultimately have reach: "v20_reach (gs_v20 ex_agents)" by simp
  have "gm_get (v_delegations (gs_v20 ex_agents)) (dg_ID ex_grant) = None" by code_simp
  moreover have "ulid_text (dg_UserID ex_grant)" "ulid_text (dg_AgentID ex_grant)"
    by (simp_all add: ex_grant_def ex_user_def ex_agent_def zero_DelegationGrant_def)
  ultimately show ?thesis
    using v20_reach.ins_grant [OF reach] by (simp add: ex_agents_granted_def)
qed


end
