(* ===== verification/Delegation.thy ===== *)
theory Delegation
  imports Agents AsCompat
begin

text \<open>
  Delegation grants and actor chains: \<open>src/internal/chain/chain.go\<close>, \<open>src/internal/delegation/service.go\<close>
  and the agent expiry rules of \<open>src/internal/as/agent_expiry.go\<close>. A user grants an agent some scopes of
  a resource for a time; an actor chain names the agents a token passed through, the latest first.
  Parsing a ULID (\<open>github.com/oklog/ulid\<close>) is a parameter.
\<close>

section \<open>Actor chains\<close>

datatype Actor = Actor (act_Sub: string) (act_Act: "Actor option")

fun Depth :: "Actor option \<Rightarrow> nat" where
  "Depth None = 1"
| "Depth (Some (Actor s a)) = Suc (Depth a)"

definition Prepend :: "string \<Rightarrow> Actor option \<Rightarrow> Actor" where
  "Prepend newActorSub existing =
     (case existing of None \<Rightarrow> Actor newActorSub None | Some a \<Rightarrow> Actor newActorSub (Some a))"

text \<open>\<open>fn\<close> threads a state and says whether to go on.\<close>

fun Walk :: "Actor option \<Rightarrow> (Actor \<Rightarrow> 's \<Rightarrow> bool \<times> 's) \<Rightarrow> 's \<Rightarrow> 's" where
  "Walk None fn s = s"
| "Walk (Some (Actor sub a)) fn s =
     (case fn (Actor sub a) s of (go, s') \<Rightarrow> if go then Walk a fn s' else s')"

definition ScopeSubset :: "string list \<Rightarrow> string list \<Rightarrow> bool" where
  "ScopeSubset subs sups \<longleftrightarrow> (\<forall>s\<in>set subs. s \<in> set sups)"

definition ScopeIntersect :: "string list \<Rightarrow> string list \<Rightarrow> string list" where
  "ScopeIntersect a b = filter (\<lambda>s. s \<in> set b) a"

definition TightenDuration :: "time list \<Rightarrow> time" where
  "TightenDuration candidates =
     foldl (\<lambda>out c. if IsZero c then out else if IsZero out \<or> c < out then c else out) zero_time candidates"

section \<open>Agent expiry\<close>

datatype live_error = ErrAgentInactive' | ErrAgentExpired

definition agentLiveErr :: "Agent option \<Rightarrow> time \<Rightarrow> live_error option" where
  "agentLiveErr ag now =
     (case ag of
        None \<Rightarrow> Some ErrAgentInactive'
      | Some a \<Rightarrow> if ag_Status a \<noteq> AgentStatusActive then Some ErrAgentInactive'
                  else if AgentExpired a now then Some ErrAgentExpired else None)"

definition agentLive :: "Agent option \<Rightarrow> time \<Rightarrow> bool" where
  "agentLive ag now \<longleftrightarrow> agentLiveErr ag now = None"

definition agentExpiryBound :: "Agent option \<Rightarrow> time" where
  "agentExpiryBound ag =
     (case ag of None \<Rightarrow> zero_time
      | Some a \<Rightarrow> (case ag_ExpiresAt a of None \<Rightarrow> zero_time | Some e \<Rightarrow> e))"

definition capExpiry :: "time \<Rightarrow> time list \<Rightarrow> time" where
  "capExpiry exp bounds = TightenDuration (exp # bounds)"

text \<open>
  The agent a subject claim names. \<open>Inr None\<close> is the result \<open>(nil, nil)\<close> for a claim that names no
  agent.
\<close>

definition AgentBySubjectClaim :: "(string \<Rightarrow> ULID option) \<Rightarrow> string \<Rightarrow> v20State \<Rightarrow> (agent_error + storage_error) + Agent option" where
  "AgentBySubjectClaim parse subj v =
     (if \<not> HasPrefix subj AgentSubjectPrefix then Inr None
      else case parse (drop (length AgentSubjectPrefix) subj) of
        None \<Rightarrow> Inl (Inl ErrAgentNotFound)
      | Some i \<Rightarrow> (case AgentByID i v of Inl e \<Rightarrow> Inl (Inr e) | Inr a \<Rightarrow> Inr (Some a)))"

section \<open>Grants\<close>

record GrantDelegationInput =
  gi_UserID :: ULID
  gi_AgentID :: ULID
  gi_OrganizationID :: "ULID option"
  gi_Scope :: "string list"
  gi_Resource :: string
  gi_MaxDurationSeconds :: int
  gi_ExpiresAt :: "time option"

datatype delegation_error =
    DelegInvalidResource | DelegInvalidScope | DelegDurationNotPositive | DelegDurationCap
  | DelegAgentNotFound | DelegAgentInactive | DelegAgentExpired | DelegPersist | DelegNotFound | DelegRevoke

definition deleg_validateScopeAgainstResource :: "string list \<Rightarrow> ProtectedResource \<Rightarrow> as_error + string list" where
  "deleg_validateScopeAgainstResource requested resource =
     (if requested = [] then Inl ErrScopeRequired
      else if pr_Scopes resource = [] then Inr requested
      else if \<forall>s\<in>set requested. s \<in> set (pr_Scopes resource) then Inr requested
      else Inl ErrOAuthInvalidScope)"

text \<open>The checks of \<open>GrantDelegation\<close> before it writes, and the row it writes. \<open>maxd\<close> is
  \<open>MaxDelegationDuration\<close>; its whole seconds bound the requested number.\<close>

definition grant_check ::
  "Config \<Rightarrow> duration \<Rightarrow> time \<Rightarrow> GrantDelegationInput \<Rightarrow> v20State \<Rightarrow> delegation_error + unit" where
  "grant_check cfg maxd now i v =
     andThen (require (gi_Resource i \<noteq> []) DelegInvalidResource) (\<lambda>_.
     andThen (orNone (ResourceByIdentifier cfg (gi_Resource i)) DelegInvalidResource) (\<lambda>resource.
     andThen (require (gi_Scope i \<noteq> []) DelegInvalidScope) (\<lambda>_.
     andThen (orElse (deleg_validateScopeAgainstResource (gi_Scope i) resource) DelegInvalidScope) (\<lambda>_.
     andThen (require (gi_MaxDurationSeconds i > 0) DelegDurationNotPositive) (\<lambda>_.
     andThen (require (gi_MaxDurationSeconds i \<le> maxd div second) DelegDurationCap) (\<lambda>_.
     andThen (orElse (AgentByID (gi_AgentID i) v) DelegAgentNotFound) (\<lambda>ag.
     andThen (require (ag_Status ag = AgentStatusActive) DelegAgentInactive) (\<lambda>_.
     require (\<not> AgentExpired ag now) DelegAgentExpired))))))))"

definition grant_row :: "ULID \<Rightarrow> time \<Rightarrow> GrantDelegationInput \<Rightarrow> DelegationGrant" where
  "grant_row newID now i =
     \<lparr>dg_ID = newID, dg_UserID = gi_UserID i, dg_AgentID = gi_AgentID i,
      dg_OrganizationID = gi_OrganizationID i, dg_Scope = gi_Scope i, dg_Resource = gi_Resource i,
      dg_MaxDurationSeconds = gi_MaxDurationSeconds i, dg_CreatedAt = now, dg_ExpiresAt = gi_ExpiresAt i,
      dg_RevokedAt = None, dg_RevocationNote = []\<rparr>"

definition GrantDelegation ::
  "Config \<Rightarrow> duration \<Rightarrow> ULID \<Rightarrow> time \<Rightarrow> time \<Rightarrow> GrantDelegationInput \<Rightarrow> v20State
     \<Rightarrow> (delegation_error + DelegationGrant) \<times> v20State" where
  "GrantDelegation cfg maxd newID checked now i v =
     (case grant_check cfg maxd checked i v of
        Inl e \<Rightarrow> (Inl e, v)
      | Inr _ \<Rightarrow> (case InsertDelegationGrant now (grant_row newID now i) v of
          (Inl e, v) \<Rightarrow> (Inl DelegPersist, v)
        | (Inr g, v) \<Rightarrow> (Inr g, v)))"

definition ListDelegationsForUser :: "ULID \<Rightarrow> v20State \<Rightarrow> DelegationGrant list" where
  "ListDelegationsForUser userID v = DelegationGrantsByUserID userID v"

definition ListDelegationsForAgent :: "ULID \<Rightarrow> v20State \<Rightarrow> DelegationGrant list" where
  "ListDelegationsForAgent agentID v = DelegationGrantsByAgentID agentID v"

definition GrantByID :: "ULID \<Rightarrow> v20State \<Rightarrow> storage_error + DelegationGrant" where
  "GrantByID grantID v = DelegationGrantByID grantID v"

text \<open>\<open>env\<close> is what other requests do to the store between the lookup and the write.\<close>

definition RevokeDelegation ::
  "(v20State \<Rightarrow> v20State) \<Rightarrow> time \<Rightarrow> ULID \<Rightarrow> string \<Rightarrow> v20State \<Rightarrow> delegation_error option \<times> v20State" where
  "RevokeDelegation env now grantID reason v =
     (case DelegationGrantByID grantID v of
        Inl e \<Rightarrow> (Some DelegNotFound, v)
      | Inr c \<Rightarrow>
          if dg_RevokedAt c \<noteq> None then (None, v)
          else case RevokeDelegationGrant grantID now reason (env v) of
            (None, v) \<Rightarrow> (None, v)
          | (Some e, v) \<Rightarrow>
              if e \<noteq> ErrStorageNotFound then (Some DelegRevoke, v)
              else (case DelegationGrantByID grantID v of
                 Inr again \<Rightarrow> if dg_RevokedAt again \<noteq> None then (None, v) else (Some DelegRevoke, v)
               | Inl e \<Rightarrow> (Some DelegRevoke, v)))"

definition Active :: "DelegationGrant option \<Rightarrow> time \<Rightarrow> bool" where
  "Active g now =
     (case g of
        None \<Rightarrow> False
      | Some g \<Rightarrow> if dg_RevokedAt g \<noteq> None then False
                  else (case dg_ExpiresAt g of None \<Rightarrow> True | Some e \<Rightarrow> now < e))"

text \<open>The scopes of an exchanged token, or a refusal.\<close>

definition NarrowScope :: "string list \<Rightarrow> string list \<Rightarrow> string list \<Rightarrow> string list option" where
  "NarrowScope requested subjectScope grantScope =
     (if requested = [] then
        (let base = (if subjectScope = [] then grantScope else subjectScope)
         in Some (ScopeIntersect base grantScope))
      else if \<not> ScopeSubset requested subjectScope then None
      else if \<not> ScopeSubset requested grantScope then None
      else Some requested)"

section \<open>Properties\<close>

lemma TightenDuration_snoc:
  "TightenDuration (xs @ [c]) =
     (let out = TightenDuration xs in if IsZero c then out else if IsZero out \<or> c < out then c else out)"
  by (simp add: TightenDuration_def Let_def)

lemma TightenDuration_least:
  "c \<in> set xs \<Longrightarrow> \<not> IsZero c \<Longrightarrow> \<not> IsZero (TightenDuration xs) \<and> TightenDuration xs \<le> c"
proof (induction xs rule: rev_induct)
  case (snoc x xs)
  then show ?case by (auto simp: TightenDuration_snoc Let_def)
qed simp

lemma TightenDuration_mem: "IsZero (TightenDuration xs) \<or> TightenDuration xs \<in> set xs"
proof (induction xs rule: rev_induct)
  case Nil
  then show ?case by (simp add: TightenDuration_def)
next
  case (snoc x xs)
  then show ?case by (auto simp: TightenDuration_snoc Let_def)
qed

lemma Depth_Prepend [simp]: "Depth (Some (Prepend s a)) = Suc (Depth a)"
  by (cases a) (simp_all add: Prepend_def)

lemma Depth_pos: "0 < Depth a"
  by (induction a rule: Depth.induct) simp_all

lemma NarrowScope_Some:
  assumes "NarrowScope requested subj grant = Some out"
  shows "set out \<subseteq> set grant" "subj \<noteq> [] \<or> requested \<noteq> [] \<Longrightarrow> set out \<subseteq> set subj"
    "requested \<noteq> [] \<Longrightarrow> out = requested"
  using assms by (auto simp: NarrowScope_def ScopeIntersect_def ScopeSubset_def Let_def split: if_splits)

lemma agentLive_iff:
  "agentLiveErr (Some a) now = None \<longleftrightarrow> ag_Status a = AgentStatusActive \<and> \<not> AgentExpired a now"
  by (simp add: agentLiveErr_def)

lemma Active_iff: "Active (Some g) now \<longleftrightarrow>
   dg_RevokedAt g = None \<and> (case dg_ExpiresAt g of None \<Rightarrow> True | Some e \<Rightarrow> now < e)"
  by (simp add: Active_def)

end
