(* ===== verification/AgentGate.thy ===== *)
theory AgentGate
  imports PolicyEngine Ratelimit Delegation
begin

text \<open>
  The gate in front of every agent token (\<open>src/internal/agent/gate.go\<close>) and the policy engine that
  plugs into it (\<open>src/agentpolicy/agentpolicy.go\<close>): the policies attached to an agent are evaluated for
  each scope of the token, one unit of the agent's rate budget is spent, and denied scopes are dropped
  or refuse the mint. What the gate relies on is the locale \<open>policy_engine\<close>, interpreted on the engine.
  The JSON of a document, SHA-256 and the token bucket are parameters.
\<close>

section \<open>Queries and verdicts\<close>

definition VerdictAllow :: string where "VerdictAllow = ''allow''"
definition VerdictDeny :: string where "VerdictDeny = ''deny''"
definition VerdictEscalate :: string where "VerdictEscalate = ''escalate''"
definition VerdictNone :: string where "VerdictNone = ''none''"

lemmas verdict_names = VerdictAllow_def VerdictDeny_def VerdictEscalate_def VerdictNone_def

record PolicyQuery =
  pq_Action :: string
  pq_Resource :: string

record PolicyVerdict =
  pv_Effect :: string
  pv_PolicyID :: string
  pv_StatementID :: string
  pv_Reason :: string

record PolicyDecision =
  pd_Applies :: bool
  pd_DenyList :: bool
  pd_RateLimit :: "Window option"
  pd_IDs :: "string list"
  pd_Hash :: string
  pd_Verdicts :: "PolicyVerdict list"

datatype engine_error = EngineResolver string | EngineInvalidDoc nat policy_error | EngineInvalidLimit | EngineNoAllow

definition errorClass :: "engine_error \<Rightarrow> string" where
  "errorClass e =
     (case e of
        EngineResolver _ \<Rightarrow> ''resolver_error''
      | EngineInvalidDoc _ _ \<Rightarrow> ''invalid_policy''
      | EngineInvalidLimit \<Rightarrow> ''invalid_rate_limit''
      | EngineNoAllow \<Rightarrow> ''no_allow_statement'')"

section \<open>The engine\<close>

datatype Mode = AllowList | DenyList

record AgentRateLimit =
  al_Requests :: int
  al_Per :: duration
  al_Burst :: int

definition Normalize :: "AgentRateLimit \<Rightarrow> AgentRateLimit option" where
  "Normalize r =
     (if al_Requests r < 0 \<or> al_Per r < 0 \<or> al_Burst r < 0 then None
      else if al_Requests r = 0 then None
      else
        (let r = (if al_Per r = 0 then r\<lparr>al_Per := minute\<rparr> else r);
             r = (if al_Burst r = 0 then r\<lparr>al_Burst := al_Requests r\<rparr> else r)
         in Some r))"

record Resolution =
  rs_Policies :: "Policy list"
  rs_RateLimit :: "AgentRateLimit option"

record EngineConfig =
  ec_Policies :: "Policy list"
  ec_Resolver :: "(Agent \<Rightarrow> string + Policy list) option"
  ec_ResolverV2 :: "(Agent \<Rightarrow> string + Resolution) option"
  ec_Mode :: Mode
  ec_Evaluator :: Evaluator

record Engine =
  en_base :: "Policy list"
  en_resolver :: "(Agent \<Rightarrow> string + Resolution) option"
  en_mode :: Mode
  en_eval :: Evaluator

text \<open>The library functions the engine uses besides those of the policy language.\<close>

record digest_lib =
  dl_json :: "Policy \<Rightarrow> string option"
  dl_sha256hex :: "string \<Rightarrow> string"

definition hasAllow :: "Policy list \<Rightarrow> bool" where
  "hasAllow pols \<longleftrightarrow> (\<exists>p\<in>set pols. \<exists>s\<in>set (pol_Statements p). st_Effect s = Allow)"

fun first_invalid :: "('a, 'p) golib \<Rightarrow> nat \<Rightarrow> Policy list \<Rightarrow> (nat \<times> policy_error) option" where
  "first_invalid lib i [] = None"
| "first_invalid lib i (p # ps) =
     (case Validate lib p of Some e \<Rightarrow> Some (i, e) | None \<Rightarrow> first_invalid lib (Suc i) ps)"

definition New :: "('a, 'p) golib \<Rightarrow> EngineConfig \<Rightarrow> engine_error + Engine" where
  "New lib cfg =
     (let resolver = (case ec_ResolverV2 cfg of
            Some r \<Rightarrow> Some r
          | None \<Rightarrow> (case ec_Resolver cfg of
              None \<Rightarrow> None
            | Some old \<Rightarrow> Some (\<lambda>ag. case old ag of Inl e \<Rightarrow> Inl e
                | Inr ps \<Rightarrow> Inr \<lparr>rs_Policies = ps, rs_RateLimit = None\<rparr>)))
      in case first_invalid lib 0 (ec_Policies cfg) of
        Some (i, e) \<Rightarrow> Inl (EngineInvalidDoc i e)
      | None \<Rightarrow>
          if ec_Mode cfg = AllowList \<and> ec_Policies cfg \<noteq> [] \<and> resolver = None \<and> \<not> hasAllow (ec_Policies cfg)
          then Inl EngineNoAllow
          else Inr \<lparr>en_base = ec_Policies cfg, en_resolver = resolver, en_mode = ec_Mode cfg,
                    en_eval = ec_Evaluator cfg\<rparr>)"

definition verdict :: "Decision \<Rightarrow> PolicyVerdict" where
  "verdict d =
     (let v = \<lparr>pv_Effect = [], pv_PolicyID = d_PolicyID d, pv_StatementID = d_StatementID d, pv_Reason = d_Reason d\<rparr>
      in if d_Effect d = Allow then v\<lparr>pv_Effect := VerdictAllow\<rparr>
         else if d_Effect d = Deny then v\<lparr>pv_Effect := VerdictDeny\<rparr>
         else if d_Effect d = Escalate then v\<lparr>pv_Effect := VerdictEscalate\<rparr>
         else if d_PolicyID d \<noteq> [] \<or> d_Taint d \<noteq> None then v\<lparr>pv_Effect := VerdictDeny\<rparr>
         else v\<lparr>pv_Effect := VerdictNone\<rparr>)"

text \<open>The resolver's answer for one agent is an argument, so that it may change between calls.\<close>

definition engine_resolve ::
  "('a, 'p) golib \<Rightarrow> Engine \<Rightarrow> Agent \<Rightarrow> engine_error + Policy list \<times> Window option" where
  "engine_resolve lib e ag =
     (case en_resolver e of
        None \<Rightarrow> Inr (en_base e, None)
      | Some resolver \<Rightarrow> (case resolver ag of
          Inl err \<Rightarrow> Inl (EngineResolver err)
        | Inr res \<Rightarrow> (case first_invalid lib 0 (rs_Policies res) of
            Some (i, err) \<Rightarrow> Inl (EngineInvalidDoc i err)
          | None \<Rightarrow> (case rs_RateLimit res of
              None \<Rightarrow> Inr (en_base e @ rs_Policies res, None)
            | Some r \<Rightarrow> (case Normalize r of
                None \<Rightarrow> Inl EngineInvalidLimit
              | Some n \<Rightarrow> Inr (en_base e @ rs_Policies res,
                  Some \<lparr>w_Requests = al_Requests n, w_Per = al_Per n, w_Burst = al_Burst n\<rparr>))))))"

text \<open>A document that does not marshal is left out of the digest; \<open>remdups_adj\<close> is \<open>slices.Compact\<close>.\<close>

definition digest :: "digest_lib \<Rightarrow> Policy list \<Rightarrow> string list \<times> string" where
  "digest dl pols =
     (remdups_adj (sort (filter (\<lambda>i. i \<noteq> []) (map pol_ID pols))),
      dl_sha256hex dl (concat (map (\<lambda>p. case dl_json dl p of None \<Rightarrow> [] | Some b \<Rightarrow> b @ [CHR 0x00]) pols)))"

definition agent_request :: "Agent \<Rightarrow> PolicyQuery \<Rightarrow> Request" where
  "agent_request ag q =
     \<lparr>req_Action = pq_Action q, req_Resource = pq_Resource q,
      req_Attributes = [(''agent_id'', ag_ID ag), (''client_id'', ag_ClientID ag)],
      req_IP = [], req_Now = zero_time, req_Amount = Fin 0, req_Currency = [], req_DataClass = [],
      req_Irreversible = False,
      req_Provenance = []\<rparr>"

definition Engine_Decide ::
  "('a, 'p) golib \<Rightarrow> digest_lib \<Rightarrow> (nat \<Rightarrow> time) \<Rightarrow> Engine \<Rightarrow> Agent \<Rightarrow> PolicyQuery list
     \<Rightarrow> engine_error + PolicyDecision" where
  "Engine_Decide lib dl sys e ag queries =
     (case engine_resolve lib e ag of
        Inl err \<Rightarrow> Inl err
      | Inr (pols, limit) \<Rightarrow>
          (let dec = \<lparr>pd_Applies = False, pd_DenyList = (en_mode e = DenyList), pd_RateLimit = limit,
                 pd_IDs = [], pd_Hash = [], pd_Verdicts = []\<rparr>
           in if pols = [] then Inr dec
              else if en_mode e = AllowList \<and> \<not> hasAllow pols then Inl EngineNoAllow
              else case digest dl pols of
                (ids, hash) \<Rightarrow>
                  Inr (dec\<lparr>pd_Applies := True, pd_IDs := ids, pd_Hash := hash,
                    pd_Verdicts := map (\<lambda>(i, q). verdict (Evaluate lib (en_eval e) sys i (agent_request ag q)
                        (map Some pols))) (enumerate 0 queries)\<rparr>)))"

section \<open>The gate\<close>

type_synonym decide = "Agent \<Rightarrow> PolicyQuery list \<Rightarrow> engine_error + PolicyDecision"

datatype gate_error =
    GateExpired | GateEngine engine_error | GateVerdictCount | GateRateLimited duration
  | GateInvalidScope string | GatePolicyDenied string PolicyVerdict | GateNotActive

record AgentMintRequest =
  mr_Grant :: string
  mr_Resource :: string
  mr_Scopes :: "string list"
  mr_Explicit :: bool
  mr_Ceiling :: "string list option"

record AgentMintResult =
  ms_Scopes :: "string list"
  ms_Dropped :: "string list"
  ms_PolicyIDs :: "string list"
  ms_PolicyHash :: string

record 'l Gate =
  ga_engine :: "decide option"
  ga_limiter :: "'l WindowLimiter"

text \<open>The zero value of a window is the limit of a gate without one.\<close>

definition NewGate :: "decide option \<Rightarrow> Window \<Rightarrow> int \<Rightarrow> 'l Gate option" where
  "NewGate engine rateLimit maxKeys =
     (if engine = None \<and> \<not> Enabled rateLimit then None
      else Some \<lparr>ga_engine = engine, ga_limiter = NewWindowLimiter rateLimit maxKeys\<rparr>)"

definition limited :: "bool \<times> duration \<Rightarrow> gate_error option" where
  "limited r = (case r of (ok, retry) \<Rightarrow> if ok then None else Some (GateRateLimited retry))"

definition CheckRate ::
  "'l ratelib \<Rightarrow> time \<Rightarrow> string \<Rightarrow> 'l Gate option \<Rightarrow> gate_error option \<times> 'l Gate option" where
  "CheckRate rl now agentID g =
     (case g of
        None \<Rightarrow> (None, None)
      | Some g \<Rightarrow> (case AllowCurrent rl now agentID (ga_limiter g) of
          (r, l) \<Rightarrow> (limited r, Some (g\<lparr>ga_limiter := l\<rparr>))))"

definition gate_spend ::
  "'l ratelib \<Rightarrow> time \<Rightarrow> string \<Rightarrow> Window option \<Rightarrow> 'l Gate \<Rightarrow> gate_error option \<times> 'l Gate" where
  "gate_spend rl now agentID override g =
     (case (case override of
          Some w \<Rightarrow> AllowWith rl now agentID w (ga_limiter g)
        | None \<Rightarrow> WL_Allow rl now agentID (ga_limiter g)) of
        (r, l) \<Rightarrow> (limited r, g\<lparr>ga_limiter := l\<rparr>))"

definition permits :: "PolicyVerdict \<Rightarrow> bool \<Rightarrow> bool" where
  "permits v denyList =
     (if pv_Effect v = VerdictAllow then True
      else if pv_Effect v = VerdictNone then denyList else False)"

definition refuse :: "string \<Rightarrow> PolicyVerdict \<Rightarrow> gate_error" where
  "refuse action v = (if pv_Effect v = VerdictNone then GateInvalidScope action else GatePolicyDenied action v)"

definition outside_ceiling :: PolicyVerdict where
  "outside_ceiling = \<lparr>pv_Effect = VerdictNone, pv_PolicyID = [], pv_StatementID = [],
     pv_Reason = ''outside registered scope ceiling''\<rparr>"

definition scope_verdict :: "AgentMintRequest \<Rightarrow> bool \<Rightarrow> string \<Rightarrow> PolicyVerdict \<Rightarrow> PolicyVerdict \<times> bool" where
  "scope_verdict req denyList sc v =
     (case mr_Ceiling req of
        Some bound \<Rightarrow> if sc \<notin> set bound then (outside_ceiling, False) else (v, denyList)
      | None \<Rightarrow> (v, denyList))"

text \<open>The loop over the scopes: the kept and the dropped ones and the first denial, or the refusal of an
  explicit scope.\<close>

fun vet_scopes ::
  "AgentMintRequest \<Rightarrow> bool \<Rightarrow> (string \<times> PolicyVerdict) list
     \<Rightarrow> gate_error + string list \<times> string list \<times> (string \<times> PolicyVerdict) option" where
  "vet_scopes req denyList [] = Inr ([], [], None)"
| "vet_scopes req denyList ((sc, v0) # rest) =
     (case scope_verdict req denyList sc v0 of
        (v, dl) \<Rightarrow>
          if permits v dl then
            (case vet_scopes req denyList rest of
               Inl e \<Rightarrow> Inl e
             | Inr (kept, dropped, first) \<Rightarrow> Inr (sc # kept, dropped, first))
          else if mr_Explicit req then Inl (refuse sc v)
          else
            (case vet_scopes req denyList rest of
               Inl e \<Rightarrow> Inl e
             | Inr (kept, dropped, first) \<Rightarrow> Inr (kept, sc # dropped, Some (sc, v))))"

definition mint_queries :: "AgentMintRequest \<Rightarrow> PolicyQuery list" where
  "mint_queries req = map (\<lambda>sc. \<lparr>pq_Action = sc, pq_Resource = mr_Resource req\<rparr>) (mr_Scopes req)"

text \<open>What the gate does with a decision once the rate unit is spent.\<close>

definition apply_decision :: "AgentMintRequest \<Rightarrow> PolicyDecision \<Rightarrow> gate_error + AgentMintResult" where
  "apply_decision req dec =
     (if \<not> pd_Applies dec
      then Inr \<lparr>ms_Scopes = mr_Scopes req, ms_Dropped = [], ms_PolicyIDs = [], ms_PolicyHash = []\<rparr>
      else if length (pd_Verdicts dec) \<noteq> length (mint_queries req) then Inl GateVerdictCount
      else case vet_scopes req (pd_DenyList dec) (zip (mr_Scopes req) (pd_Verdicts dec)) of
        Inl e \<Rightarrow> Inl e
      | Inr (kept, dropped, first) \<Rightarrow>
          (case (kept, first) of
             ([], Some (action, v)) \<Rightarrow> Inl (refuse action v)
           | _ \<Rightarrow> Inr \<lparr>ms_Scopes = kept, ms_Dropped = dropped, ms_PolicyIDs = pd_IDs dec,
                       ms_PolicyHash = pd_Hash dec\<rparr>))"

text \<open>\<open>now\<close> is the gate's and \<open>now'\<close> the limiter's reading of the clock.\<close>

definition AuthorizeMint ::
  "'l ratelib \<Rightarrow> time \<Rightarrow> time \<Rightarrow> Agent \<Rightarrow> AgentMintRequest \<Rightarrow> 'l Gate option
     \<Rightarrow> (gate_error + AgentMintResult) \<times> 'l Gate option" where
  "AuthorizeMint rl now now' ag req g =
     (let res = \<lparr>ms_Scopes = mr_Scopes req, ms_Dropped = [], ms_PolicyIDs = [], ms_PolicyHash = []\<rparr> in
      case g of
        None \<Rightarrow> (Inr res, None)
      | Some g \<Rightarrow>
          if AgentExpired ag now then (Inl GateExpired, Some g)
          else case ga_engine g of
            None \<Rightarrow>
              (case gate_spend rl now' (ag_ID ag) None g of
                 (Some e, g) \<Rightarrow> (Inl e, Some g)
               | (None, g) \<Rightarrow> (Inr res, Some g))
          | Some engine \<Rightarrow>
              (case engine ag (mint_queries req) of
                 Inl e \<Rightarrow> (Inl (GateEngine e), Some g)
               | Inr dec \<Rightarrow>
                   (case gate_spend rl now' (ag_ID ag) (pd_RateLimit dec) g of
                      (Some e, g) \<Rightarrow> (Inl e, Some g)
                    | (None, g) \<Rightarrow> (apply_decision req dec, Some g))))"

definition checkExpiry :: "(string \<Rightarrow> ULID option) \<Rightarrow> time \<Rightarrow> string \<Rightarrow> v20State option \<Rightarrow> gate_error option" where
  "checkExpiry parse now agentID storage =
     (case storage of
        None \<Rightarrow> None
      | Some v \<Rightarrow> (case parse agentID of
          None \<Rightarrow> None
        | Some i \<Rightarrow> (case AgentByID i v of
            Inl e \<Rightarrow> None
          | Inr ag \<Rightarrow> if AgentExpired ag now then Some GateExpired else None)))"

definition Gate_Authorize ::
  "'l ratelib \<Rightarrow> (string \<Rightarrow> ULID option) \<Rightarrow> time \<Rightarrow> time \<Rightarrow> v20State option \<Rightarrow> string \<Rightarrow> string \<Rightarrow> string
     \<Rightarrow> 'l Gate option \<Rightarrow> gate_error option \<times> 'l Gate option" where
  "Gate_Authorize rl parse now now' storage agentID action resource g =
     (case g of
        None \<Rightarrow> (None, None)
      | Some g \<Rightarrow>
          (case ga_engine g of
             None \<Rightarrow>
               (case checkExpiry parse now agentID storage of
                  Some e \<Rightarrow> (Some e, Some g)
                | None \<Rightarrow> (case gate_spend rl now' agentID None g of (e, g) \<Rightarrow> (e, Some g)))
           | Some engine \<Rightarrow>
               (case andThen (orNone storage GateNotActive) (\<lambda>v.
                     andThen (orNone (parse agentID) GateNotActive) (\<lambda>i.
                     andThen (orElse (AgentByID i v) GateNotActive) (\<lambda>ag.
                     andThen (require (ag_Status ag = AgentStatusActive) GateNotActive) (\<lambda>_.
                     andThen (require (\<not> AgentExpired ag now) GateExpired) (\<lambda>_.
                     mapErr GateEngine (engine ag [\<lparr>pq_Action = action, pq_Resource = resource\<rparr>])))))) of
                  Inl e \<Rightarrow> (Some e, Some g)
                | Inr dec \<Rightarrow>
                    (case gate_spend rl now' agentID (pd_RateLimit dec) g of
                       (Some e, g) \<Rightarrow> (Some e, Some g)
                     | (None, g) \<Rightarrow>
                         if \<not> pd_Applies dec then (None, Some g)
                         else if length (pd_Verdicts dec) \<noteq> 1 then (Some GateVerdictCount, Some g)
                         else (let v = pd_Verdicts dec ! 0 in
                               if permits v (pd_DenyList dec) then (None, Some g)
                               else (Some (GatePolicyDenied action v), Some g))))))"

section \<open>What the gate guarantees\<close>

text \<open>
  The contract of a policy engine: the verdicts answer the queries one by one, and a query passes
  exactly when the specification \<open>may\<close> lets the agent do it.
\<close>

locale policy_engine =
  fixes decide :: decide
    and may :: "Agent \<Rightarrow> nat \<Rightarrow> PolicyQuery \<Rightarrow> bool"
  assumes verdict_count: "decide ag qs = Inr d \<Longrightarrow> pd_Applies d \<Longrightarrow> length (pd_Verdicts d) = length qs"
    and verdict_may: "decide ag qs = Inr d \<Longrightarrow> i < length qs \<Longrightarrow>
      (\<not> pd_Applies d \<or> permits (pd_Verdicts d ! i) (pd_DenyList d)) = may ag i (qs ! i)"

text \<open>The scopes of a request at the positions that satisfy a predicate, in order.\<close>

definition picked :: "(nat \<Rightarrow> string \<Rightarrow> bool) \<Rightarrow> string list \<Rightarrow> string list" where
  "picked P xs = map snd (filter (\<lambda>(i, x). P i x) (enumerate 0 xs))"

lemma picked_subset: "set (picked P xs) \<subseteq> set xs"
  by (auto simp: picked_def in_set_enumerate_eq)

lemma picked_mem: "x \<in> set (picked P xs) \<Longrightarrow> \<exists>i < length xs. xs ! i = x \<and> P i x"
  by (auto simp: picked_def in_set_enumerate_eq)

text \<open>A scope passes the loop: its verdict permits it and it is within the ceiling.\<close>

definition scope_ok :: "AgentMintRequest \<Rightarrow> bool \<Rightarrow> string \<times> PolicyVerdict \<Rightarrow> bool" where
  "scope_ok req denyList sv \<longleftrightarrow> permits (snd sv) denyList
     \<and> (case mr_Ceiling req of None \<Rightarrow> True | Some c \<Rightarrow> fst sv \<in> set c)"

lemma scope_verdict_permits:
  "(case scope_verdict req dl sc v of (v', dl') \<Rightarrow> permits v' dl') = scope_ok req dl (sc, v)"
  by (simp add: scope_verdict_def scope_ok_def outside_ceiling_def permits_def verdict_names split: option.splits)

lemma vet_scopes_Inr:
  "vet_scopes req dl xs = Inr (kept, dropped, first) \<Longrightarrow>
     kept = map fst (filter (scope_ok req dl) xs)
     \<and> dropped = map fst (filter (\<lambda>x. \<not> scope_ok req dl x) xs)
     \<and> (first = None \<longleftrightarrow> dropped = []) \<and> (mr_Explicit req \<longrightarrow> dropped = [])"
proof (induction xs arbitrary: kept dropped first)
  case (Cons x xs)
  obtain sc v where x: "x = (sc, v)" by (cases x)
  show ?case using Cons.prems Cons.IH scope_verdict_permits [of req dl sc v]
    by (auto simp: x split: prod.splits if_splits sum.splits)
qed simp

lemma vet_scopes_all:
  "(\<And>x. x \<in> set xs \<Longrightarrow> scope_ok req dl x) \<Longrightarrow> vet_scopes req dl xs = Inr (map fst xs, [], None)"
proof (induction xs)
  case (Cons x xs)
  obtain sc v where x: "x = (sc, v)" by (cases x)
  obtain v' dl' where sv: "scope_verdict req dl sc v = (v', dl')" by (cases "scope_verdict req dl sc v")
  have "scope_ok req dl (sc, v)" using Cons.prems x by auto
  then have "permits v' dl'" using scope_verdict_permits [of req dl sc v] by (simp add: sv)
  then show ?case using Cons by (simp add: x sv)
qed simp

context policy_engine
begin

lemma apply_decision_sound:
  assumes d: "decide ag (mint_queries req) = Inr dec" and a: "apply_decision req dec = Inr res"
  shows "\<forall>sc\<in>set (ms_Scopes res). \<exists>i < length (mr_Scopes req). mr_Scopes req ! i = sc
      \<and> may ag i \<lparr>pq_Action = sc, pq_Resource = mr_Resource req\<rparr>
      \<and> (pd_Applies dec \<longrightarrow> (case mr_Ceiling req of None \<Rightarrow> True | Some c \<Rightarrow> sc \<in> set c))"
    and "mr_Explicit req \<Longrightarrow> ms_Scopes res = mr_Scopes req"
proof -
  let ?q = "\<lambda>sc. \<lparr>pq_Action = sc, pq_Resource = mr_Resource req\<rparr>"
  have len: "length (mint_queries req) = length (mr_Scopes req)" by (simp add: mint_queries_def)
  have may: "may ag i (?q (mr_Scopes req ! i)) = (\<not> pd_Applies dec \<or> permits (pd_Verdicts dec ! i) (pd_DenyList dec))"
    if "i < length (mr_Scopes req)" for i
    using verdict_may [OF d, of i] that by (simp add: mint_queries_def)
  have "(\<forall>sc\<in>set (ms_Scopes res). \<exists>i < length (mr_Scopes req). mr_Scopes req ! i = sc \<and> may ag i (?q sc)
      \<and> (pd_Applies dec \<longrightarrow> (case mr_Ceiling req of None \<Rightarrow> True | Some c \<Rightarrow> sc \<in> set c)))
    \<and> (mr_Explicit req \<longrightarrow> ms_Scopes res = mr_Scopes req)"
  proof (cases "pd_Applies dec")
    case False
    then have "ms_Scopes res = mr_Scopes req" using a by (auto simp: apply_decision_def)
    moreover have "\<exists>i < length (mr_Scopes req). mr_Scopes req ! i = sc \<and> may ag i (?q sc)"
      if "sc \<in> set (mr_Scopes req)" for sc
      using that may False by (metis in_set_conv_nth)
    ultimately show ?thesis using False by simp
  next
    case True
    let ?sv = "zip (mr_Scopes req) (pd_Verdicts dec)"
    have lv: "length (pd_Verdicts dec) = length (mr_Scopes req)"
      using verdict_count [OF d True] len by simp
    obtain dropped first where vet: "vet_scopes req (pd_DenyList dec) ?sv = Inr (ms_Scopes res, dropped, first)"
      using a True lv len by (auto simp: apply_decision_def split: sum.splits prod.splits list.splits option.splits)
    note r = vet_scopes_Inr [OF vet]
    have 1: "\<exists>i < length (mr_Scopes req). mr_Scopes req ! i = sc \<and> may ag i (?q sc)
        \<and> (case mr_Ceiling req of None \<Rightarrow> True | Some c \<Rightarrow> sc \<in> set c)"
      if sc: "sc \<in> set (ms_Scopes res)" for sc
    proof -
      from sc conjunct1 [OF r] obtain v where "(sc, v) \<in> set ?sv" and ok: "scope_ok req (pd_DenyList dec) (sc, v)"
        by auto
      then obtain i where i: "i < length (mr_Scopes req)" "mr_Scopes req ! i = sc" "pd_Verdicts dec ! i = v"
        using lv by (auto simp: in_set_zip)
      have "may ag i (?q sc)" using ok may [OF i(1)] i by (simp add: scope_ok_def)
      moreover have "case mr_Ceiling req of None \<Rightarrow> True | Some c \<Rightarrow> sc \<in> set c"
        using ok by (simp add: scope_ok_def split: option.splits)
      ultimately show ?thesis using i(1,2) by blast
    qed
    have 2: "ms_Scopes res = mr_Scopes req" if "mr_Explicit req"
    proof -
      have "map fst (filter (\<lambda>x. \<not> scope_ok req (pd_DenyList dec) x) ?sv) = []" using r that by metis
      then have "filter (scope_ok req (pd_DenyList dec)) ?sv = ?sv" by (simp add: filter_empty_conv filter_id_conv)
      then show ?thesis using r lv by simp
    qed
    show ?thesis using 1 2 True by auto
  qed
  then show "\<forall>sc\<in>set (ms_Scopes res). \<exists>i < length (mr_Scopes req). mr_Scopes req ! i = sc \<and> may ag i (?q sc)
      \<and> (pd_Applies dec \<longrightarrow> (case mr_Ceiling req of None \<Rightarrow> True | Some c \<Rightarrow> sc \<in> set c))"
    and "mr_Explicit req \<Longrightarrow> ms_Scopes res = mr_Scopes req" by blast+
qed

lemma Gate_Authorize_sound:
  assumes "ga_engine g = Some decide"
    and "Gate_Authorize rl parse now now' storage agentID action resource (Some g) = (None, g')"
  shows "\<exists>v i ag. storage = Some v \<and> parse agentID = Some i \<and> AgentByID i v = Inr ag
      \<and> ag_Status ag = AgentStatusActive \<and> \<not> AgentExpired ag now
      \<and> may ag 0 \<lparr>pq_Action = action, pq_Resource = resource\<rparr>"
proof -
  let ?q = "\<lparr>pq_Action = action, pq_Resource = resource\<rparr>"
  obtain v i ag dec where ag: "storage = Some v" "parse agentID = Some i" "AgentByID i v = Inr ag"
      "ag_Status ag = AgentStatusActive" "\<not> AgentExpired ag now"
    and d: "decide ag [?q] = Inr dec"
    and p: "\<not> pd_Applies dec \<or> permits (pd_Verdicts dec ! 0) (pd_DenyList dec)"
    using assms by (auto simp: Gate_Authorize_def guards Let_def split: sum.splits prod.splits option.splits if_splits)
  have "may ag 0 ?q" using verdict_may [OF d, of 0] p by simp
  with ag show ?thesis by blast
qed

lemma apply_decision_total:
  assumes d: "decide ag (mint_queries req) = Inr dec"
    and all: "\<And>i. i < length (mr_Scopes req) \<Longrightarrow> may ag i (mint_queries req ! i)"
    and bound: "case mr_Ceiling req of None \<Rightarrow> True | Some c \<Rightarrow> set (mr_Scopes req) \<subseteq> set c"
  shows "\<exists>res. apply_decision req dec = Inr res \<and> ms_Scopes res = mr_Scopes req"
proof (cases "pd_Applies dec")
  case True
  let ?sv = "zip (mr_Scopes req) (pd_Verdicts dec)"
  have lv: "length (pd_Verdicts dec) = length (mr_Scopes req)"
    using verdict_count [OF d True] by (simp add: mint_queries_def)
  have "scope_ok req (pd_DenyList dec) x" if x: "x \<in> set ?sv" for x
  proof -
    obtain i where i: "i < length (mr_Scopes req)" "x = (mr_Scopes req ! i, pd_Verdicts dec ! i)"
      using x by (auto simp: in_set_zip prod_eq_iff)
    have "permits (pd_Verdicts dec ! i) (pd_DenyList dec)"
      using verdict_may [OF d, of i] all [OF i(1)] i True by (simp add: mint_queries_def)
    then show ?thesis using i bound by (auto simp: scope_ok_def split: option.splits)
  qed
  then have "vet_scopes req (pd_DenyList dec) ?sv = Inr (mr_Scopes req, [], None)"
    using vet_scopes_all [of ?sv req "pd_DenyList dec"] lv by simp
  then show ?thesis using True lv by (cases "mr_Scopes req") (simp_all add: apply_decision_def mint_queries_def)
qed (simp add: apply_decision_def)

end

text \<open>What the engine lets an agent do: everything when no policy is attached, else what a verdict
  permits.\<close>

definition engine_may ::
  "('a, 'p) golib \<Rightarrow> (nat \<Rightarrow> time) \<Rightarrow> Engine \<Rightarrow> Agent \<Rightarrow> nat \<Rightarrow> PolicyQuery \<Rightarrow> bool" where
  "engine_may lib sys e ag i q \<longleftrightarrow>
     (\<exists>pols limit. engine_resolve lib e ag = Inr (pols, limit) \<and>
        (pols = [] \<or> permits (verdict (Evaluate lib (en_eval e) sys i (agent_request ag q) (map Some pols)))
           (en_mode e = DenyList)))"

interpretation agp: policy_engine "Engine_Decide lib dl sys e" "engine_may lib sys e"
proof
  fix ag qs d
  assume d: "Engine_Decide lib dl sys e ag qs = Inr d"
  then obtain pols limit where r: "engine_resolve lib e ag = Inr (pols, limit)"
    by (auto simp: Engine_Decide_def split: sum.splits)
  show "length (pd_Verdicts d) = length qs" if "pd_Applies d"
    using d r that by (auto simp: Engine_Decide_def Let_def split: if_splits prod.splits)
  show "(\<not> pd_Applies d \<or> permits (pd_Verdicts d ! i) (pd_DenyList d)) = engine_may lib sys e ag i (qs ! i)"
    if "i < length qs" for i
    using d r that by (auto simp: Engine_Decide_def engine_may_def Let_def nth_enumerate_eq
        split: if_splits prod.splits)
qed

text \<open>A verdict over validated policies in terms of the statements that match.\<close>

lemma verdict_permits:
  assumes v: "\<forall>p\<in>set pols. Validate lib p = None" and t: "rules_ok (ev_Taint e)"
  shows "permits (verdict (Evaluate lib e sys k req (map Some pols))) dl \<longleftrightarrow>
     d_Allowed (Evaluate lib e sys k req (map Some pols))
     \<or> dl \<and> \<not> any_effect lib (prepare e sys k req) (map Some pols) (\<lambda>f. True)"
proof -
  let ?r = "prepare e sys k req" and ?ps = "map Some pols"
  let ?d = "Evaluate lib e sys k req ?ps"
  have val: "\<forall>p. Some p \<in> set ?ps \<longrightarrow> Validate lib p = None" using v by auto
  consider (allow) "d_Allowed ?d" | (deny) "\<not> d_Allowed ?d" "d_Effect ?d = Deny \<or> d_Effect ?d = Escalate"
      "any_effect lib ?r ?ps (\<lambda>f. True)"
    | (default) "\<not> any_effect lib ?r ?ps (\<lambda>f. True)" "\<not> d_Allowed ?d"
    using outcome_Evaluate [OF t, of lib sys k req ?ps]
    by (auto simp: outcome_def Let_def any_effect_def split: if_splits)
  then show ?thesis
  proof cases
    case allow
    then show ?thesis using Evaluate_allow_effect [OF val allow]
      by (simp add: verdict_def permits_def Let_def verdict_names)
  next
    case deny
    then show ?thesis by (auto simp: verdict_def permits_def Let_def verdict_names)
  next
    case default
    have ev: "evaluate lib e ?r ?ps = zero_Decision\<lparr>d_Reason := ''no matching allow statement (default deny)'',
        d_Code := defaultDenyCode lib ?r ?ps\<rparr>"
      using default(1)
      by (cases rule: evaluate_cases [of lib ?r ?ps e]) (auto simp: any_effect_def)
    have "?d = evaluate lib e ?r ?ps"
      unfolding Evaluate_def Let_def ev by (simp add: applyTaint_def zero_Decision_def effect_defs)
    then show ?thesis using default ev
      by (simp add: verdict_def permits_def Let_def verdict_names zero_Decision_def effect_defs)
  qed
qed

lemma first_invalid_None: "first_invalid lib i ps = None \<longleftrightarrow> (\<forall>p\<in>set ps. Validate lib p = None)"
  by (induction ps arbitrary: i) (auto split: option.splits)

lemma New_Inr:
  assumes "New lib cfg = Inr e"
  shows "en_base e = ec_Policies cfg" "\<forall>p\<in>set (en_base e). Validate lib p = None"
    "en_mode e = ec_Mode cfg" "en_eval e = ec_Evaluator cfg"
  using assms by (auto simp: New_def Let_def first_invalid_None split: option.splits if_splits)

lemma engine_resolve_valid:
  assumes "New lib cfg = Inr e" "engine_resolve lib e ag = Inr (pols, limit)"
  shows "\<forall>p\<in>set pols. Validate lib p = None"
  using assms(2) New_Inr(2) [OF assms(1)]
  by (auto simp: engine_resolve_def first_invalid_None split: option.splits sum.splits)

lemma AuthorizeMint_Inr:
  assumes "AuthorizeMint rl now now' ag req (Some g) = (Inr res, g')" "ga_engine g = Some engine"
  shows "\<not> AgentExpired ag now \<and> (\<exists>dec. engine ag (mint_queries req) = Inr dec \<and> apply_decision req dec = Inr res)"
  using assms by (auto simp: AuthorizeMint_def Let_def split: if_splits sum.splits prod.splits option.splits)

lemma Engine_Decide_applies:
  assumes "Engine_Decide lib dl sys e ag qs = Inr dec" "engine_resolve lib e ag = Inr (pols, limit)"
  shows "pd_Applies dec \<longleftrightarrow> pols \<noteq> []"
  using assms by (auto simp: Engine_Decide_def Let_def split: if_splits prod.splits)

text \<open>A scope that a mint may carry under the policies \<open>pols\<close>: it is within the ceiling, no deny and no
  escalation matches it, and an allow matches it unless the engine runs in deny list mode.\<close>

definition scope_granted ::
  "('a, 'p) golib \<Rightarrow> (nat \<Rightarrow> time) \<Rightarrow> Engine \<Rightarrow> Policy list \<Rightarrow> Agent \<Rightarrow> AgentMintRequest \<Rightarrow> nat \<Rightarrow> string \<Rightarrow> bool" where
  "scope_granted lib sys e pols ag req i sc \<longleftrightarrow>
     (let r = prepare (en_eval e) sys i (agent_request ag \<lparr>pq_Action = sc, pq_Resource = mr_Resource req\<rparr>);
          ps = map Some pols
      in (case mr_Ceiling req of None \<Rightarrow> True | Some c \<Rightarrow> sc \<in> set c)
         \<and> \<not> any_effect lib r ps (\<lambda>f. f = Deny) \<and> \<not> any_effect lib r ps (\<lambda>f. f = Escalate)
         \<and> (en_mode e = AllowList \<longrightarrow> any_effect lib r ps (\<lambda>f. f = Allow)))"

lemma engine_may_granted:
  assumes new: "New lib cfg = Inr e" and t: "rules_ok (ev_Taint (ec_Evaluator cfg))"
    and r: "engine_resolve lib e ag = Inr (pols, limit)" and ne: "pols \<noteq> []"
    and may: "engine_may lib sys e ag i \<lparr>pq_Action = sc, pq_Resource = mr_Resource req\<rparr>"
    and c: "case mr_Ceiling req of None \<Rightarrow> True | Some c \<Rightarrow> sc \<in> set c"
  shows "scope_granted lib sys e pols ag req i sc"
proof -
  let ?q = "agent_request ag \<lparr>pq_Action = sc, pq_Resource = mr_Resource req\<rparr>"
  let ?r = "prepare (en_eval e) sys i ?q" and ?ps = "map Some pols"
  let ?any = "any_effect lib ?r ?ps"
  have t': "rules_ok (ev_Taint (en_eval e))" using t New_Inr(4) [OF new] by simp
  note val = engine_resolve_valid [OF new r]
  have p: "permits (verdict (Evaluate lib (en_eval e) sys i ?q ?ps)) (en_mode e = DenyList)"
    using may r ne by (simp add: engine_may_def)
  have al: "?any (\<lambda>f. f = Allow)" if "?any (\<lambda>f. f \<noteq> Deny \<and> f \<noteq> Escalate)"
  proof -
    from that obtain s where s: "s \<in> matching lib ?r ?ps" "st_Effect s \<noteq> Deny" "st_Effect s \<noteq> Escalate"
      by (auto simp: any_effect_def)
    from s(1) obtain p where "p \<in> set pols" "s \<in> set (pol_Statements p)" by (auto simp: matching_def)
    then have "st_Effect s = Allow" using Validate_effect [of lib p s] val s by auto
    then show ?thesis using s(1) by (auto simp: any_effect_def)
  qed
  have "d_Allowed (Evaluate lib (en_eval e) sys i ?q ?ps) \<or> (en_mode e = DenyList \<and> \<not> ?any (\<lambda>f. True))"
    using p verdict_permits [OF val t'] by blast
  then have "\<not> ?any (\<lambda>f. f = Deny) \<and> \<not> ?any (\<lambda>f. f = Escalate) \<and> (en_mode e = AllowList \<longrightarrow> ?any (\<lambda>f. f = Allow))"
  proof
    assume "d_Allowed (Evaluate lib (en_eval e) sys i ?q ?ps)"
    then show ?thesis using allowed_spec [OF t', of lib sys i ?q ?ps] al by (simp add: Let_def)
  next
    assume "en_mode e = DenyList \<and> \<not> ?any (\<lambda>f. True)"
    then show ?thesis by (auto simp: any_effect_def)
  qed
  with c show ?thesis by (simp add: scope_granted_def Let_def)
qed

text \<open>C5: a token the gate lets through for an agent carries only requested scopes, all of them when the
  caller named them, for an agent that has not expired. When policies are attached to the agent, every
  scope of the token is within the ceiling, no deny and no escalation of the attached policies matches
  it, and in allow list mode an allow does.\<close>

theorem AuthorizeMint_policy:
  assumes new: "New lib cfg = Inr e" and t: "rules_ok (ev_Taint (ec_Evaluator cfg))"
    and g: "ga_engine g = Some (Engine_Decide lib dl sys e)"
    and m: "AuthorizeMint rl now now' ag req (Some g) = (Inr res, g')"
  shows "\<not> AgentExpired ag now \<and> set (ms_Scopes res) \<subseteq> set (mr_Scopes req)
      \<and> (mr_Explicit req \<longrightarrow> ms_Scopes res = mr_Scopes req)
      \<and> (\<exists>pols limit. engine_resolve lib e ag = Inr (pols, limit)
          \<and> (pols \<noteq> [] \<longrightarrow> (\<forall>sc\<in>set (ms_Scopes res). \<exists>i. scope_granted lib sys e pols ag req i sc)))"
proof -
  obtain dec where ex: "\<not> AgentExpired ag now" and d: "Engine_Decide lib dl sys e ag (mint_queries req) = Inr dec"
    and a: "apply_decision req dec = Inr res"
    using AuthorizeMint_Inr [OF m g] by blast
  obtain pols limit where r: "engine_resolve lib e ag = Inr (pols, limit)"
    using d by (auto simp: Engine_Decide_def split: sum.splits)
  note s = agp.apply_decision_sound [OF d a]
  have gr: "\<exists>i. scope_granted lib sys e pols ag req i sc" if ne: "pols \<noteq> []" and sc: "sc \<in> set (ms_Scopes res)" for sc
  proof -
    obtain i where may: "engine_may lib sys e ag i \<lparr>pq_Action = sc, pq_Resource = mr_Resource req\<rparr>"
      and c: "pd_Applies dec \<longrightarrow> (case mr_Ceiling req of None \<Rightarrow> True | Some c \<Rightarrow> sc \<in> set c)"
      using bspec [OF s(1) sc] by (elim exE conjE) (rule that)
    have "pd_Applies dec" using Engine_Decide_applies [OF d r] ne by simp
    with c have "case mr_Ceiling req of None \<Rightarrow> True | Some c \<Rightarrow> sc \<in> set c" by (rule mp)
    from engine_may_granted [OF new t r ne may this] show ?thesis by (rule exI)
  qed
  have sub: "set (ms_Scopes res) \<subseteq> set (mr_Scopes req)"
  proof
    fix sc assume "sc \<in> set (ms_Scopes res)"
    from bspec [OF s(1) this] show "sc \<in> set (mr_Scopes req)" by (auto dest: nth_mem)
  qed
  have "\<forall>sc\<in>set (ms_Scopes res). \<exists>i. scope_granted lib sys e pols ag req i sc" if "pols \<noteq> []"
    using gr that by blast
  with ex sub s(2) r show ?thesis by blast
qed

lemma AuthorizeMint_fails_closed:
  assumes "ga_engine g = Some engine" "engine ag (mint_queries req) = Inl err"
  shows "\<exists>e. AuthorizeMint rl now now' ag req (Some g) = (Inl e, Some g)"
  using assms by (simp add: AuthorizeMint_def Let_def)

text \<open>A concrete engine with one policy, and a gate without a rate limit.\<close>

definition ex_rl :: "unit ratelib" where
  "ex_rl = \<lparr>NewLimiter = (\<lambda>_ _. ()), ReserveN = (\<lambda>_ _. (True, 0, ())), CancelAt = (\<lambda>_ _. ()),
     LimiterAllow = (\<lambda>_ _. (True, ()))\<rparr>"

definition ex_dl :: digest_lib where
  "ex_dl = \<lparr>dl_json = (\<lambda>_. None), dl_sha256hex = (\<lambda>x. x)\<rparr>"

definition ex_engine_policy :: Policy where
  "ex_engine_policy = sample_policy [(sample_stmt Allow ''doc:*'')\<lparr>st_Actions := [''read'']\<rparr>]"

definition ex_engine_cfg :: EngineConfig where
  "ex_engine_cfg = \<lparr>ec_Policies = [ex_engine_policy], ec_Resolver = None, ec_ResolverV2 = None,
     ec_Mode = AllowList, ec_Evaluator = sample_ev\<rparr>"

definition ex_engine :: Engine where
  "ex_engine = \<lparr>en_base = [ex_engine_policy], en_resolver = None, en_mode = AllowList, en_eval = sample_ev\<rparr>"

definition ex_gate :: "unit Gate" where
  "ex_gate = \<lparr>ga_engine = Some (Engine_Decide sample_lib ex_dl (\<lambda>_. 1) ex_engine),
     ga_limiter = NewWindowLimiter \<lparr>w_Requests = 0, w_Per = 0, w_Burst = 0\<rparr> 0\<rparr>"

definition ex_mint :: AgentMintRequest where
  "ex_mint = \<lparr>mr_Grant = ''client_credentials'', mr_Resource = ''doc:1'', mr_Scopes = [''read'', ''write''],
     mr_Explicit = False, mr_Ceiling = None\<rparr>"

lemma ex_engine_new: "New sample_lib ex_engine_cfg = Inr ex_engine"
proof -
  have "Validate sample_lib ex_engine_policy = None" by code_simp
  moreover have "hasAllow [ex_engine_policy]" by code_simp
  ultimately show ?thesis by (simp add: New_def ex_engine_cfg_def ex_engine_def)
qed

lemma ex_gate_minted:
  "fst (AuthorizeMint ex_rl 5 5 zero_Agent ex_mint (Some ex_gate))
     = Inr \<lparr>ms_Scopes = [''read''], ms_Dropped = [''write''], ms_PolicyIDs = [''p''], ms_PolicyHash = []\<rparr>"
  by code_simp

theorem AuthorizeMint_policy_witness:
  "New sample_lib ex_engine_cfg = Inr ex_engine
   \<and> fst (AuthorizeMint ex_rl 5 5 zero_Agent ex_mint (Some ex_gate))
       = Inr \<lparr>ms_Scopes = [''read''], ms_Dropped = [''write''], ms_PolicyIDs = [''p''], ms_PolicyHash = []\<rparr>
   \<and> (\<exists>i. scope_granted sample_lib (\<lambda>_. 1) ex_engine [ex_engine_policy] zero_Agent ex_mint i ''read'')"
proof -
  let ?r = "AuthorizeMint ex_rl 5 5 zero_Agent ex_mint (Some ex_gate)"
  let ?res = "\<lparr>ms_Scopes = [''read''], ms_Dropped = [''write''], ms_PolicyIDs = [''p''], ms_PolicyHash = []\<rparr>"
  have t: "rules_ok (ev_Taint (ec_Evaluator ex_engine_cfg))"
    by (simp add: rules_ok_def sample_ev_def sample_rule_def ex_engine_cfg_def)
  have g: "ga_engine ex_gate = Some (Engine_Decide sample_lib ex_dl (\<lambda>_. 1) ex_engine)"
    by (simp add: ex_gate_def)
  have m: "?r = (Inr ?res, snd ?r)" using ex_gate_minted by (metis prod.collapse)
  have r: "engine_resolve sample_lib ex_engine zero_Agent = Inr ([ex_engine_policy], None)"
    by (simp add: engine_resolve_def ex_engine_def)
  from AuthorizeMint_policy [OF ex_engine_new t g m] r
  have "\<exists>i. scope_granted sample_lib (\<lambda>_. 1) ex_engine [ex_engine_policy] zero_Agent ex_mint i ''read''"
    by simp
  with ex_engine_new ex_gate_minted show ?thesis by (intro conjI)
qed

text \<open>The ceiling of a request binds only where a policy is attached: without one the gate passes
  scopes outside it.\<close>

lemma ceiling_not_enforced_without_policy:
  "fst (AuthorizeMint ex_rl 5 5 zero_Agent (ex_mint\<lparr>mr_Ceiling := Some [], mr_Explicit := True\<rparr>)
      (Some (ex_gate\<lparr>ga_engine := Some (Engine_Decide sample_lib ex_dl (\<lambda>_. 1) (ex_engine\<lparr>en_base := []\<rparr>))\<rparr>)))
   = Inr \<lparr>ms_Scopes = [''read'', ''write''], ms_Dropped = [], ms_PolicyIDs = [], ms_PolicyHash = []\<rparr>"
  by code_simp

end
