(* ===== verification/AsExchange.thy ===== *)
theory AsExchange
  imports AsToken AgentGate
begin

text \<open>
  Tokens for agents (\<open>src/internal/as/token_v34.go\<close>, \<open>agent_gate.go\<close> and the issuing half of
  \<open>idjag.go\<close>): the client credentials grant, and token exchange, by which an agent trades a user's token
  for one of its own that names it as the latest actor, under a delegation grant of that user. The gate
  of \<open>AgentGate\<close> vets each mint. Signing an ID-JAG and decoding stored claims are parameters besides
  those of \<open>AsToken\<close>.
\<close>

section \<open>Requests, errors and parameters\<close>

definition TokenTypeAccessToken :: string where
  "TokenTypeAccessToken = ''urn:ietf:params:oauth:token-type:access_token''"

definition TokenTypeIDJAG :: string where
  "TokenTypeIDJAG = ''urn:ietf:params:oauth:token-type:id-jag''"

record TokenExchangeRequest =
  xr_ClientID :: string
  xr_ClientSecret :: string
  xr_SubjectToken :: string
  xr_SubjectTokenType :: string
  xr_ActorToken :: string
  xr_ActorTokenType :: string
  xr_RequestedTokenType :: string
  xr_Resource :: string
  xr_Audience :: string
  xr_Scope :: "string list"
  xr_DPoPProof :: string
  xr_HTTPMethod :: string
  xr_HTTPURL :: string

datatype grant_error =
    GAs as_error | GLive live_error | GGate gate_error | GRateLimited duration
  | ErrSubjectTokenInvalid | ErrActorTokenInvalid | ErrChainDepthExceeded
  | ErrDelegationNotFound | ErrDelegationRevoked | ErrOAuthUnsupportedGrantType

record AgentPolicy =
  apo_MaxChainDepth :: int
  apo_DefaultDelegatedTokenTTL :: duration

record IDJAGConfig =
  ij_Audiences :: "string list"
  ij_TTL :: duration

text \<open>\<open>xp_lookup\<close> says whether the service was given an agent lookup; \<open>xp_keys\<close> is the key
  snapshot the request reads.\<close>

record exchange_params =
  xp_tok :: token_params
  xp_ulid :: "string \<Rightarrow> ULID option"
  xp_lookup :: bool
  xp_policy :: "AgentPolicy option"
  xp_idjag :: "IDJAGConfig option"
  xp_sign_idjag :: "Claims \<Rightarrow> as_error + string"
  xp_claims :: "string \<Rightarrow> Claims option"
  xp_jwt :: jwt_lib
  xp_keys :: KeyResolver

record exchange_draws =
  xd_base :: draws
  xd_live :: time
  xd_gate :: time
  xd_limit :: time

record 'l XState =
  xs_as :: AsState
  xs_gate :: "'l Gate option"

abbreviation xs_v20 :: "'l XState \<Rightarrow> v20State" where
  "xs_v20 x \<equiv> st_v20 (xs_as x)"

definition verifyAccessJWT ::
  "exchange_params \<Rightarrow> Config \<Rightarrow> string \<Rightarrow> string \<Rightarrow> time \<Rightarrow> jwt_error + Claims" where
  "verifyAccessJWT p cfg tok expectedAud now =
     VerifyWith (xp_jwt p) tok (xp_keys p) TypeAccessToken expectedAud now
       \<lparr>vo_AllowMissingTyp = False, vo_Skew = cf_ClockSkew cfg, vo_IgnoreExpiry = False\<rparr>"

section \<open>The gate as the server calls it\<close>

definition gateMint ::
  "'l ratelib \<Rightarrow> exchange_draws \<Rightarrow> Agent \<Rightarrow> string \<Rightarrow> string \<Rightarrow> string list \<Rightarrow> bool \<Rightarrow> string list option
     \<Rightarrow> 'l XState \<Rightarrow> (grant_error + AgentMintResult) \<times> 'l XState" where
  "gateMint rl xd ag grant resource scopes explicit ceil x =
     (case xs_gate x of
        None \<Rightarrow> (Inr \<lparr>ms_Scopes = scopes, ms_Dropped = [], ms_PolicyIDs = [], ms_PolicyHash = []\<rparr>, x)
      | Some g \<Rightarrow>
          (case AuthorizeMint rl (xd_gate xd) (xd_limit xd) ag
              \<lparr>mr_Grant = grant, mr_Resource = resource, mr_Scopes = scopes, mr_Explicit = explicit,
               mr_Ceiling = ceil\<rparr> (Some g) of
             (Inl (GateRateLimited retry), g) \<Rightarrow> (Inl (GRateLimited retry), x\<lparr>xs_gate := g\<rparr>)
           | (Inl e, g) \<Rightarrow> (Inl (GGate e), x\<lparr>xs_gate := g\<rparr>)
           | (Inr res, g) \<Rightarrow> (Inr res, x\<lparr>xs_gate := g\<rparr>)))"

definition agentPolicyClaim :: "AgentMintResult \<Rightarrow> claim option" where
  "agentPolicyClaim res =
     (if ms_PolicyIDs res = [] \<and> ms_PolicyHash res = [] then None
      else Some (CMap [(''ids'', CStrs (ms_PolicyIDs res)), (''hash'', CStr (ms_PolicyHash res))]))"

definition addAgentPolicy :: "(string, claim) gomap \<Rightarrow> AgentMintResult \<Rightarrow> (string, claim) gomap" where
  "addAgentPolicy claims res =
     (case agentPolicyClaim res of None \<Rightarrow> claims | Some c \<Rightarrow> gm_put ''agent_policy'' c claims)"

section \<open>Actor claims\<close>

lemma claim_size_map_of: "map_of m k = Some (c :: claim) \<Longrightarrow> size c < size (CMap m)"
proof -
  assume "map_of m k = Some c"
  then have "(k, c) \<in> set m" by (rule map_of_SomeD)
  then have "size c < Suc (size_list (size_prod (\<lambda>_. 0) size) m)"
    by (induction m) auto
  then show ?thesis by simp
qed

function actorFromAny :: "claim \<Rightarrow> Actor option" where
  "actorFromAny raw =
     (case raw of
        CMap m \<Rightarrow>
          (case gm_get m ''sub'' of
             Some (CStr subj) \<Rightarrow>
               if subj = [] then None
               else Some (Actor subj (case gm_get m ''act'' of None \<Rightarrow> None | Some inner \<Rightarrow> actorFromAny inner))
           | _ \<Rightarrow> None)
      | _ \<Rightarrow> None)"
  by auto
termination
  by (relation "measure size") (auto dest: claim_size_map_of)

declare actorFromAny.simps [simp del]

definition actorFromClaims :: "Claims \<Rightarrow> Actor option" where
  "actorFromClaims c =
     (case gm_get (cl_Extra c) ''act'' of
        None \<Rightarrow> None
      | Some raw \<Rightarrow> if raw = CNull then None else actorFromAny raw)"

fun actorClaimToMap :: "Actor \<Rightarrow> claim" where
  "actorClaimToMap (Actor s None) = CMap [(''sub'', CStr s)]"
| "actorClaimToMap (Actor s (Some a)) = CMap [(''sub'', CStr s), (''act'', actorClaimToMap a)]"

definition cnfJKT :: "(string, claim) gomap \<Rightarrow> string" where
  "cnfJKT extra =
     (case gm_get extra ''cnf'' of
        Some (CMap m) \<Rightarrow> (case gm_get m ''jkt'' of Some (CStr j) \<Rightarrow> j | _ \<Rightarrow> [])
      | _ \<Rightarrow> [])"

definition lookupAgent :: "exchange_params \<Rightarrow> string \<Rightarrow> v20State \<Rightarrow> (agent_error + storage_error) + Agent option" where
  "lookupAgent p subj v = (if \<not> xp_lookup p then Inr None else AgentBySubjectClaim (xp_ulid p) subj v)"

text \<open>The walk over the chain: every actor is a live agent; the earliest of their expiries.\<close>

fun check_actors :: "exchange_params \<Rightarrow> time \<Rightarrow> v20State \<Rightarrow> Actor option \<Rightarrow> time \<Rightarrow> grant_error + time" where
  "check_actors p now v None chainExp = Inr chainExp"
| "check_actors p now v (Some (Actor subj rest)) chainExp =
     (case lookupAgent p subj v of
        Inl e \<Rightarrow> Inl ErrSubjectTokenInvalid
      | Inr None \<Rightarrow> Inl ErrSubjectTokenInvalid
      | Inr (Some ag) \<Rightarrow> (case agentLiveErr (Some ag) now of
          Some e \<Rightarrow> Inl (GLive e)
        | None \<Rightarrow> check_actors p now v rest (capExpiry chainExp [agentExpiryBound (Some ag)])))"

definition resolveSubjectPrincipal ::
  "exchange_params \<Rightarrow> Claims \<Rightarrow> time \<Rightarrow> v20State \<Rightarrow> grant_error + ULID \<times> Actor option \<times> time" where
  "resolveSubjectPrincipal p subjectClaims now v =
     andThen (require (cl_Sub subjectClaims \<noteq> []) ErrSubjectTokenInvalid) (\<lambda>_.
     andThen (require (\<not> HasPrefix (cl_Sub subjectClaims) AgentSubjectPrefix) ErrSubjectTokenInvalid) (\<lambda>_.
     andThen (orNone (xp_ulid p (cl_Sub subjectClaims)) ErrSubjectTokenInvalid) (\<lambda>root.
     (let existing = actorFromClaims subjectClaims in
      andThen (check_actors p now v existing zero_time) (\<lambda>chainExp. Inr (root, existing, chainExp))))))"

section \<open>Token exchange\<close>

text \<open>What the checks up to the scopes leave for the mint.\<close>

record exchange_grant =
  xg_agent :: Agent
  xg_subject :: Claims
  xg_proofJKT :: string
  xg_resource :: string
  xg_root :: ULID
  xg_chain :: "Actor option"
  xg_chainExp :: time
  xg_grant :: DelegationGrant
  xg_scope :: "string list"

definition exchange_subject ::
  "exchange_params \<Rightarrow> Config \<Rightarrow> exchange_draws \<Rightarrow> TokenExchangeRequest \<Rightarrow> OAuthClient \<Rightarrow> AsState
     \<Rightarrow> grant_error + Claims \<times> string" where
  "exchange_subject p cfg xd req client s =
     (let now = dr_check (xd_base xd) in
      andThen (require (xr_SubjectToken req \<noteq> []) (GAs ErrOAuthInvalidRequest)) (\<lambda>_.
      andThen (require (xr_SubjectTokenType req = [] \<or> xr_SubjectTokenType req = TokenTypeAccessToken)
        (GAs ErrOAuthInvalidRequest)) (\<lambda>_.
      andThen (orElse (verifyAccessJWT p cfg (xr_SubjectToken req) [] now) ErrSubjectTokenInvalid) (\<lambda>claims.
      andThen (require (cl_Iss claims = cf_Issuer cfg) ErrSubjectTokenInvalid) (\<lambda>_.
      andThen (require (\<not> accessJTIRevoked cfg (dr_store (xd_base xd)) (cl_Jti claims) s) ErrSubjectTokenInvalid) (\<lambda>_.
      andThen (mapErr GAs (dpopThumbprintForRequest (xp_tok p) now
        \<lparr>rq_GrantType = [], rq_ClientID = oc_ClientID client, rq_ClientSecret = [], rq_Code = [],
         rq_CodeVerifier = [], rq_RedirectURI = [], rq_RefreshToken = [], rq_Resource = [], rq_Scope = [],
         rq_AuthorizationDetails = [], rq_DPoPProof = xr_DPoPProof req, rq_HTTPMethod = xr_HTTPMethod req,
         rq_HTTPURL = xr_HTTPURL req, rq_ClientAssertionType = [], rq_ClientAssertion = [], rq_Assertion = []\<rparr>)) (\<lambda>proof.
      andThen (require (cnfJKT (cl_Extra claims) = [] \<or> (proof \<noteq> [] \<and> jktEqual proof (cnfJKT (cl_Extra claims))))
        (GAs ErrDPoPInvalid)) (\<lambda>_.
      Inr (claims, proof)))))))))"

definition exchange_actor ::
  "exchange_params \<Rightarrow> Config \<Rightarrow> exchange_draws \<Rightarrow> TokenExchangeRequest \<Rightarrow> Agent \<Rightarrow> grant_error + unit" where
  "exchange_actor p cfg xd req ag =
     (if xr_ActorToken req = [] then Inr ()
      else
        andThen (require (xr_ActorTokenType req = [] \<or> xr_ActorTokenType req = TokenTypeAccessToken)
          (GAs ErrOAuthInvalidRequest)) (\<lambda>_.
        andThen (orElse (verifyAccessJWT p cfg (xr_ActorToken req) [] (dr_check (xd_base xd))) ErrActorTokenInvalid) (\<lambda>c.
        require (cl_Sub c = AgentSubjectPrefix @ ag_ID ag) ErrActorTokenInvalid)))"

definition exchange_resource ::
  "exchange_params \<Rightarrow> Config \<Rightarrow> TokenExchangeRequest \<Rightarrow> Claims \<Rightarrow> grant_error + string" where
  "exchange_resource p cfg req claims =
     (let parse = ap_parse (pm_auth (xp_tok p));
          rid = (if xr_Resource req = [] then cl_Aud claims else xr_Resource req) in
      andThen (require (rid \<noteq> [] \<and> cl_Aud claims \<noteq> []) (GAs ErrOAuthInvalidResource)) (\<lambda>_.
      andThen (orElse (resolveResource parse cfg rid) (GAs ErrOAuthInvalidResource)) (\<lambda>(r, aud).
      andThen (require (aud = cl_Aud claims) (GAs ErrOAuthInvalidResource)) (\<lambda>_.
      andThen (if xr_Audience req = [] then Inr ()
               else andThen (orElse (resolveResource parse cfg (xr_Audience req)) (GAs ErrOAuthInvalidResource))
                 (\<lambda>_. Inr ())) (\<lambda>_.
      Inr aud)))))"

definition maxChainDepth :: "Config \<Rightarrow> AgentPolicy \<Rightarrow> int" where
  "maxChainDepth cfg pol =
     (if cf_MaxActorChainDepth cfg > 0 then cf_MaxActorChainDepth cfg else apo_MaxChainDepth pol)"

definition xchg_check ::
  "exchange_params \<Rightarrow> AgentPolicy \<Rightarrow> Config \<Rightarrow> exchange_draws \<Rightarrow> TokenExchangeRequest \<Rightarrow> OAuthClient \<Rightarrow> AsState
     \<Rightarrow> grant_error + exchange_grant" where
  "xchg_check p pol cfg xd req client s =
     (let now = dr_check (xd_base xd); v = st_v20 s in
      andThen (orElse (AgentByClientID (oc_ClientID client) v) (GAs ErrOAuthInvalidClient)) (\<lambda>ag.
      andThen (case agentLiveErr (Some ag) (xd_live xd) of Some e \<Rightarrow> Inl (GLive e) | None \<Rightarrow> Inr ()) (\<lambda>_.
      andThen (exchange_subject p cfg xd req client s) (\<lambda>(claims, proof).
      andThen (exchange_actor p cfg xd req ag) (\<lambda>_.
      andThen (exchange_resource p cfg req claims) (\<lambda>resource.
      andThen (resolveSubjectPrincipal p claims (xd_live xd) v) (\<lambda>(root, existing, chainExp).
      andThen (require (int (Depth existing) + 1 \<le> maxChainDepth cfg pol) ErrChainDepthExceeded) (\<lambda>_.
      andThen (orElse (DelegationGrantByUserAgentResource root (ag_ID ag) resource v) ErrDelegationNotFound) (\<lambda>grant.
      andThen (require (Active (Some grant) now) ErrDelegationRevoked) (\<lambda>_.
      andThen (orNone (NarrowScope (xr_Scope req) (scopeSplit (cl_Scope claims)) (dg_Scope grant)) (GAs ErrOAuthInvalidScope)) (\<lambda>scope.
      andThen (require (scope \<noteq> []) (GAs ErrOAuthInvalidScope)) (\<lambda>_.
      Inr \<lparr>xg_agent = ag, xg_subject = claims, xg_proofJKT = proof, xg_resource = resource, xg_root = root,
           xg_chain = existing, xg_chainExp = chainExp, xg_grant = grant, xg_scope = scope\<rparr>))))))))))))"

text \<open>The earliest of the expiries that bound the new token.\<close>

definition xchg_expiry :: "AgentPolicy \<Rightarrow> Config \<Rightarrow> time \<Rightarrow> exchange_grant \<Rightarrow> time" where
  "xchg_expiry pol cfg now g =
     TightenDuration [time_Unix (cl_Exp (xg_subject g)), now + apo_DefaultDelegatedTokenTTL pol,
       now + i64 (dg_MaxDurationSeconds (xg_grant g) * second), now + cf_AccessTokenTTL cfg,
       agentExpiryBound (Some (xg_agent g)), xg_chainExp g]"

definition xchg_claims ::
  "Config \<Rightarrow> exchange_draws \<Rightarrow> OAuthClient \<Rightarrow> exchange_grant \<Rightarrow> AgentMintResult \<Rightarrow> time \<Rightarrow> Claims" where
  "xchg_claims cfg xd client g gated until =
     (let newActor = Prepend (AgentSubjectPrefix @ ag_ID (xg_agent g)) (actorFromClaims (xg_subject g));
          extra = addAgentPolicy [(''act'', actorClaimToMap newActor),
            (''delegation_grant_id'', CStr (dg_ID (xg_grant g)))] gated;
          extra = (if xg_proofJKT g \<noteq> [] then gm_put ''cnf'' (CStrMap [(''jkt'', xg_proofJKT g)]) extra else extra)
      in \<lparr>cl_Iss = cf_Issuer cfg, cl_Sub = cl_Sub (xg_subject g), cl_Aud = xg_resource g, cl_Exp = to_Unix until,
          cl_Iat = to_Unix (dr_check (xd_base xd)), cl_Nbf = 0, cl_Jti = dr_jti (xd_base xd),
          cl_ClientID = oc_ClientID client, cl_Scope = scopeJoin (ms_Scopes gated), cl_Typ = TypeAccessToken,
          cl_Extra = extra\<rparr>)"

definition touchAgentLastActive :: "ULID \<Rightarrow> time \<Rightarrow> AsState \<Rightarrow> AsState" where
  "touchAgentLastActive i now s = set_v20 (snd (UpdateAgentLastActive i now (st_v20 s))) s"

text \<open>The end both agent grants share: the host's hook, the token, the activity mark, the response.\<close>

definition agent_mint ::
  "exchange_params \<Rightarrow> Config \<Rightarrow> exchange_draws \<Rightarrow> OAuthClient \<Rightarrow> Agent \<Rightarrow> Claims \<Rightarrow> TokenResponse \<Rightarrow> 'l XState
     \<Rightarrow> (grant_error + TokenResponse) \<times> 'l XState" where
  "agent_mint p cfg xd client ag claims resp x =
     (case applyOnTokenIssued (xp_tok p) claims of
        Inl e \<Rightarrow> (Inl (GAs e), x)
      | Inr claims \<Rightarrow>
          (case issueAccessToken (xp_tok p) cfg (xd_base xd) (oc_ClientID client) claims (xs_as x) of
             (Inl e, s) \<Rightarrow> (Inl (GAs e), x\<lparr>xs_as := s\<rparr>)
           | (Inr access, s) \<Rightarrow>
               (Inr (resp\<lparr>tr_AccessToken := access\<rparr>),
                x\<lparr>xs_as := touchAgentLastActive (ag_ID ag) (dr_check (xd_base xd)) s\<rparr>)))"

definition agent_response :: "string \<Rightarrow> duration \<Rightarrow> string list \<Rightarrow> string \<Rightarrow> TokenResponse" where
  "agent_response typ lifetime scope issued =
     \<lparr>tr_AccessToken = [], tr_TokenType = typ, tr_ExpiresIn = lifetime div second, tr_RefreshToken = [],
      tr_Scope = scopeJoin scope, tr_IssuedTokenType = issued, tr_AuthorizationDetails = None, tr_IDToken = []\<rparr>"

text \<open>Everything up to the claims: who asked, what was checked, the claims and the response without its
  token.\<close>

definition exchange_prepare ::
  "exchange_params \<Rightarrow> (AuthState \<Rightarrow> AuthState) \<Rightarrow> 'l ratelib \<Rightarrow> AgentPolicy \<Rightarrow> Config \<Rightarrow> exchange_draws
     \<Rightarrow> TokenExchangeRequest \<Rightarrow> 'l XState
     \<Rightarrow> (grant_error + OAuthClient \<times> exchange_grant \<times> Claims \<times> TokenResponse) \<times> 'l XState" where
  "exchange_prepare p env rl pol cfg xd req x =
     (case AuthenticateClient (pm_auth (xp_tok p)) env (dr_auth (xd_base xd)) (dr_auth_put (xd_base xd))
         (xr_ClientID req) (xr_ClientSecret req) (st_auth (xs_as x)) of
        (Inl e, a) \<Rightarrow> (Inl (GAs e), x\<lparr>xs_as := (xs_as x)\<lparr>st_auth := a\<rparr>\<rparr>)
      | (Inr client, a) \<Rightarrow>
          (let x = x\<lparr>xs_as := (xs_as x)\<lparr>st_auth := a\<rparr>\<rparr>; now = dr_check (xd_base xd) in
           case xchg_check p pol cfg xd req client (xs_as x) of
             Inl e \<Rightarrow> (Inl e, x)
           | Inr g \<Rightarrow>
               (case gateMint rl xd (xg_agent g) ''token_exchange'' (xg_resource g) (xg_scope g)
                   (xr_Scope req \<noteq> []) None x of
                  (Inl e, x) \<Rightarrow> (Inl e, x)
                | (Inr gated, x) \<Rightarrow>
                    (let until = xchg_expiry pol cfg now g in
                     if until \<le> now then (Inl (GAs ErrOAuthInvalidGrant), x)
                     else (Inr (client, g, xchg_claims cfg xd client g gated until,
                             agent_response (if xg_proofJKT g \<noteq> [] then ''DPoP'' else ''Bearer'')
                               (time_sub until now) (ms_Scopes gated) TokenTypeAccessToken), x)))))"

section \<open>Identity assertions\<close>

definition lookupOpaqueClaims :: "exchange_params \<Rightarrow> Config \<Rightarrow> time \<Rightarrow> string \<Rightarrow> AsState \<Rightarrow> Claims option" where
  "lookupOpaqueClaims p cfg now tok s =
     (case OpaqueAccessTokenByHash (HashToken (xp_tok p) tok) (st_v20 s) of
        Inl e \<Rightarrow> None
      | Inr r \<Rightarrow> if oa_RevokedAt r \<noteq> None then None
          else if \<not> oa_ExpiresAt r + cf_ClockSkew cfg > now then None
          else xp_claims p (oa_Claims r))"

definition idJAGSubject ::
  "exchange_params \<Rightarrow> Config \<Rightarrow> exchange_draws \<Rightarrow> string \<Rightarrow> AsState \<Rightarrow> grant_error + Claims" where
  "idJAGSubject p cfg xd tok s =
     (let now = dr_check (xd_base xd) in
      andThen (if length (filter (\<lambda>c. c = CHR ''.'') tok) = 2
               then andThen (orElse (verifyAccessJWT p cfg tok [] now) ErrSubjectTokenInvalid) (\<lambda>c.
                    andThen (require (\<not> accessJTIRevoked cfg (dr_store (xd_base xd)) (cl_Jti c) s) ErrSubjectTokenInvalid)
                      (\<lambda>_. Inr c))
               else orNone (lookupOpaqueClaims p cfg (xd_live xd) tok s) ErrSubjectTokenInvalid) (\<lambda>claims.
      andThen (require (cl_Iss claims = cf_Issuer cfg) ErrSubjectTokenInvalid) (\<lambda>_. Inr claims)))"

definition absolute_resource :: "url_parse \<Rightarrow> string \<Rightarrow> bool" where
  "absolute_resource parse r =
     (r = [] \<or> (case parse r of None \<Rightarrow> False | Some u \<Rightarrow> u_Scheme u \<noteq> [] \<and> u_Fragment u = []))"

definition idjag_check ::
  "exchange_params \<Rightarrow> IDJAGConfig \<Rightarrow> Config \<Rightarrow> exchange_draws \<Rightarrow> TokenExchangeRequest \<Rightarrow> OAuthClient \<Rightarrow> AsState
     \<Rightarrow> grant_error + Claims \<times> string list" where
  "idjag_check p ij cfg xd req client s =
     (let now = dr_check (xd_base xd) in
      andThen (require (xr_SubjectToken req \<noteq> []) (GAs ErrOAuthInvalidRequest)) (\<lambda>_.
      andThen (require (xr_SubjectTokenType req = [] \<or> xr_SubjectTokenType req = TokenTypeAccessToken)
        (GAs ErrOAuthInvalidRequest)) (\<lambda>_.
      andThen (require (xr_Audience req \<noteq> [] \<and> xr_Audience req \<in> set (ij_Audiences ij)) (GAs ErrOAuthInvalidResource)) (\<lambda>_.
      andThen (require (absolute_resource (ap_parse (pm_auth (xp_tok p))) (xr_Resource req)) (GAs ErrOAuthInvalidResource)) (\<lambda>_.
      andThen (idJAGSubject p cfg xd (xr_SubjectToken req) s) (\<lambda>subject.
      andThen (require (cl_ClientID subject = oc_ClientID client \<and> \<not> HasPrefix (cl_Sub subject) AgentSubjectPrefix
        \<and> cl_Sub subject \<noteq> []) ErrSubjectTokenInvalid) (\<lambda>_.
      andThen (if cnfJKT (cl_Extra subject) = [] then Inr ()
               else andThen (mapErr GAs (dpopThumbprintForRequest (xp_tok p) now
                 \<lparr>rq_GrantType = [], rq_ClientID = oc_ClientID client, rq_ClientSecret = [], rq_Code = [],
                  rq_CodeVerifier = [], rq_RedirectURI = [], rq_RefreshToken = [], rq_Resource = [], rq_Scope = [],
                  rq_AuthorizationDetails = [], rq_DPoPProof = xr_DPoPProof req, rq_HTTPMethod = xr_HTTPMethod req,
                  rq_HTTPURL = xr_HTTPURL req, rq_ClientAssertionType = [], rq_ClientAssertion = [], rq_Assertion = []\<rparr>)) (\<lambda>proof.
                 require (proof \<noteq> [] \<and> jktEqual proof (cnfJKT (cl_Extra subject))) (GAs ErrDPoPInvalid))) (\<lambda>_.
      (let scope = scopeSplit (cl_Scope subject) in
       if xr_Scope req = [] then Inr (subject, scope)
       else if scopeSubset (xr_Scope req) scope then Inr (subject, xr_Scope req)
       else Inl (GAs ErrOAuthInvalidScope))))))))))"

definition idjag_claims ::
  "IDJAGConfig \<Rightarrow> Config \<Rightarrow> exchange_draws \<Rightarrow> TokenExchangeRequest \<Rightarrow> OAuthClient \<Rightarrow> Claims \<Rightarrow> string list \<Rightarrow> time \<times> Claims" where
  "idjag_claims ij cfg xd req client subject scope =
     (let now = dr_check (xd_base xd);
          until = (if time_Unix (cl_Exp subject) < now + ij_TTL ij then time_Unix (cl_Exp subject) else now + ij_TTL ij)
      in (until, \<lparr>cl_Iss = cf_Issuer cfg, cl_Sub = cl_Sub subject, cl_Aud = xr_Audience req, cl_Exp = to_Unix until,
          cl_Iat = to_Unix now, cl_Nbf = 0, cl_Jti = dr_jti (xd_base xd), cl_ClientID = oc_ClientID client,
          cl_Scope = scopeJoin scope, cl_Typ = [],
          cl_Extra = (if xr_Resource req \<noteq> [] then [(''resource'', CStr (xr_Resource req))] else [])\<rparr>))"

definition exchangeForIDJAG ::
  "exchange_params \<Rightarrow> (AuthState \<Rightarrow> AuthState) \<Rightarrow> Config \<Rightarrow> exchange_draws \<Rightarrow> TokenExchangeRequest \<Rightarrow> 'l XState
     \<Rightarrow> (grant_error + TokenResponse) \<times> 'l XState" where
  "exchangeForIDJAG p env cfg xd req x =
     (case xp_idjag p of
        None \<Rightarrow> (Inl ErrOAuthUnsupportedGrantType, x)
      | Some ij \<Rightarrow>
          if ij_Audiences ij = [] then (Inl ErrOAuthUnsupportedGrantType, x)
          else case AuthenticateClient (pm_auth (xp_tok p)) env (dr_auth (xd_base xd)) (dr_auth_put (xd_base xd))
              (xr_ClientID req) (xr_ClientSecret req) (st_auth (xs_as x)) of
            (Inl e, a) \<Rightarrow> (Inl (GAs e), x\<lparr>xs_as := (xs_as x)\<lparr>st_auth := a\<rparr>\<rparr>)
          | (Inr client, a) \<Rightarrow>
              (let x = x\<lparr>xs_as := (xs_as x)\<lparr>st_auth := a\<rparr>\<rparr> in
               case idjag_check p ij cfg xd req client (xs_as x) of
                 Inl e \<Rightarrow> (Inl e, x)
               | Inr (subject, scope) \<Rightarrow>
                   (case idjag_claims ij cfg xd req client subject scope of
                      (until, claims) \<Rightarrow>
                        (case xp_sign_idjag p claims of
                           Inl e \<Rightarrow> (Inl (GAs e), x)
                         | Inr assertion \<Rightarrow>
                             (Inr ((agent_response ''N_A'' (time_sub until (dr_check (xd_base xd))) scope TokenTypeIDJAG)
                                \<lparr>tr_AccessToken := assertion\<rparr>), x)))))"

definition ExchangeToken ::
  "exchange_params \<Rightarrow> (AuthState \<Rightarrow> AuthState) \<Rightarrow> 'l ratelib \<Rightarrow> Config \<Rightarrow> exchange_draws \<Rightarrow> TokenExchangeRequest
     \<Rightarrow> 'l XState \<Rightarrow> (grant_error + TokenResponse) \<times> 'l XState" where
  "ExchangeToken p env rl cfg xd req x =
     (if xr_RequestedTokenType req = TokenTypeIDJAG then exchangeForIDJAG p env cfg xd req x
      else case xp_policy p of
        None \<Rightarrow> (Inl ErrOAuthUnsupportedGrantType, x)
      | Some pol \<Rightarrow>
          (case exchange_prepare p env rl pol cfg xd req x of
             (Inl e, x) \<Rightarrow> (Inl e, x)
           | (Inr (client, g, claims, resp), x) \<Rightarrow> agent_mint p cfg xd client (xg_agent g) claims resp x))"

section \<open>Client credentials\<close>

text \<open>The checks before the gate: the agent, the audience and the scopes asked for.\<close>

definition credentials_check ::
  "exchange_params \<Rightarrow> Config \<Rightarrow> exchange_draws \<Rightarrow> TokenRequest \<Rightarrow> OAuthClient \<Rightarrow> AsState
     \<Rightarrow> grant_error + Agent \<times> string \<times> string list" where
  "credentials_check p cfg xd req client s =
     andThen (orElse (AgentByClientID (oc_ClientID client) (st_v20 s)) (GAs ErrOAuthInvalidClient)) (\<lambda>ag.
     andThen (case agentLiveErr (Some ag) (xd_live xd) of Some e \<Rightarrow> Inl (GLive e) | None \<Rightarrow> Inr ()) (\<lambda>_.
     andThen (mapErr GAs (resolveResource (ap_parse (pm_auth (xp_tok p))) cfg (rq_Resource req))) (\<lambda>(resource, audience).
     (let registered = (if scopeSplit (oc_Scope client) = [] then ag_Scope ag else scopeSplit (oc_Scope client));
          available = ScopeIntersect registered (pr_Scopes resource);
          requested = (if rq_Scope req = [] then available else rq_Scope req)
      in andThen (require (rq_Scope req = [] \<or> ScopeSubset (rq_Scope req) available) (GAs ErrOAuthInvalidScope)) (\<lambda>_.
         andThen (require (requested \<noteq> []) (GAs ErrOAuthInvalidScope)) (\<lambda>_.
         Inr (ag, audience, requested)))))))"

definition ptrToString :: "ULID option \<Rightarrow> string" where
  "ptrToString p = (case p of None \<Rightarrow> [] | Some i \<Rightarrow> i)"

definition credentials_claims ::
  "Config \<Rightarrow> exchange_draws \<Rightarrow> OAuthClient \<Rightarrow> Agent \<Rightarrow> string \<Rightarrow> AgentMintResult \<Rightarrow> time \<Rightarrow> Claims" where
  "credentials_claims cfg xd client ag audience gated until =
     \<lparr>cl_Iss = cf_Issuer cfg, cl_Sub = AgentSubjectPrefix @ ag_ID ag, cl_Aud = audience, cl_Exp = to_Unix until,
      cl_Iat = to_Unix (dr_check (xd_base xd)), cl_Nbf = 0, cl_Jti = dr_jti (xd_base xd),
      cl_ClientID = oc_ClientID client, cl_Scope = scopeJoin (ms_Scopes gated), cl_Typ = TypeAccessToken,
      cl_Extra = addAgentPolicy [(''agent'', CMap [(''id'', CStr (ag_ID ag)),
        (''owner_user_id'', CStr (ptrToString (ag_OwnerUserID ag))),
        (''organization_id'', CStr (ptrToString (ag_OrganizationID ag)))])] gated\<rparr>"

definition ClientCredentialsToken ::
  "exchange_params \<Rightarrow> (AuthState \<Rightarrow> AuthState) \<Rightarrow> 'l ratelib \<Rightarrow> Config \<Rightarrow> exchange_draws \<Rightarrow> TokenRequest
     \<Rightarrow> 'l XState \<Rightarrow> (grant_error + TokenResponse) \<times> 'l XState" where
  "ClientCredentialsToken p env rl cfg xd req x =
     (case xp_policy p of
        None \<Rightarrow> (Inl ErrOAuthUnsupportedGrantType, x)
      | Some pol \<Rightarrow>
          (case authenticate (xp_tok p) env (xd_base xd) req (xs_as x) of
             (Inl e, s) \<Rightarrow> (Inl (GAs e), x\<lparr>xs_as := s\<rparr>)
           | (Inr client, s) \<Rightarrow>
               (let x = x\<lparr>xs_as := s\<rparr>; now = dr_check (xd_base xd) in
                case credentials_check p cfg xd req client s of
                  Inl e \<Rightarrow> (Inl e, x)
                | Inr (ag, audience, requested) \<Rightarrow>
                    (case gateMint rl xd ag ''client_credentials'' audience requested (rq_Scope req \<noteq> []) None x of
                       (Inl e, x) \<Rightarrow> (Inl e, x)
                     | (Inr gated, x) \<Rightarrow>
                         (let until = capExpiry (now + cf_AccessTokenTTL cfg) [agentExpiryBound (Some ag)] in
                          agent_mint p cfg xd client ag (credentials_claims cfg xd client ag audience gated until)
                            (agent_response ''Bearer'' (time_sub until now) (ms_Scopes gated) []) x)))))"

end
