(* ===== verification/AsExchangeProps.thy ===== *)
theory AsExchangeProps
  imports AsExchange
begin

text \<open>
  What token exchange guarantees. One exchange: the new token acts for the same user at the same
  resource, its scopes are within those of the subject token and of a live delegation grant, it expires
  no later than the subject token, the grant's duration and every agent involved, and its actor chain is
  the subject's with the requesting agent in front. A chain of exchanges: authority only shrinks.
\<close>

section \<open>Scopes as text\<close>

definition is_word :: "string \<Rightarrow> bool" where
  "is_word w \<longleftrightarrow> w \<noteq> [] \<and> (\<forall>c\<in>set w. \<not> is_space c)"

lemma fields_acc_word:
  "\<forall>c\<in>set w. \<not> is_space c \<Longrightarrow> fields_acc acc (w @ rest) = fields_acc (rev w @ acc) rest"
  by (induction w arbitrary: acc) auto

lemma Fields_Join: "\<forall>w\<in>set ws. is_word w \<Longrightarrow> Fields (Join ws '' '') = ws"
proof (induction ws)
  case Nil
  then show ?case by (simp add: Fields_def)
next
  case (Cons w ws)
  have w: "w \<noteq> []" "\<forall>c\<in>set w. \<not> is_space c" using Cons.prems by (auto simp: is_word_def)
  have ih: "fields_acc [] (Join ws '' '') = ws" using Cons.IH Cons.prems by (simp add: Fields_def)
  show ?case
  proof (cases ws)
    case Nil
    then show ?thesis using fields_acc_word [OF w(2), of "[]" "[]"] w(1) by (simp add: Fields_def)
  next
    case (Cons w' ws')
    then have "Join (w # ws) '' '' = w @ CHR '' '' # Join ws '' ''" by simp
    moreover have "fields_acc (rev w) (CHR '' '' # Join ws '' '') = w # ws"
      using w(1) by (simp only: fields_acc.simps ih) (simp add: is_space_def)
    ultimately show ?thesis using fields_acc_word [OF w(2), of "[]" "CHR '' '' # Join ws '' ''"]
      by (simp only: Fields_def append_Nil2)
  qed
qed

lemma fields_acc_words:
  "\<forall>c\<in>set acc. \<not> is_space c \<Longrightarrow> w \<in> set (fields_acc acc s) \<Longrightarrow> is_word w"
proof (induction s arbitrary: acc)
  case Nil
  then show ?case by (simp add: is_word_def split: if_splits)
next
  case (Cons c s)
  show ?case
  proof (cases "is_space c")
    case True
    then have "acc \<noteq> [] \<and> w = rev acc \<or> w \<in> set (fields_acc [] s)" using Cons.prems(2) by (simp split: if_splits)
    then show ?thesis
    proof
      assume "acc \<noteq> [] \<and> w = rev acc"
      then show ?thesis using Cons.prems(1) by (simp add: is_word_def)
    next
      assume w: "w \<in> set (fields_acc [] s)"
      show ?thesis by (rule Cons.IH [OF _ w]) simp
    qed
  next
    case False
    then show ?thesis using Cons.prems by (intro Cons.IH [of "c # acc"]) simp_all
  qed
qed

lemma Fields_words: "w \<in> set (Fields s) \<Longrightarrow> is_word w"
  by (rule fields_acc_words [of "[]"]) (simp_all add: Fields_def)

lemma scopeSplit_words: "w \<in> set (scopeSplit s) \<Longrightarrow> is_word w"
  by (rule Fields_words) (simp add: scopeSplit_def)

lemma set_scopeSplit_Join: "\<forall>w\<in>set ws. is_word w \<Longrightarrow> set (scopeSplit (scopeJoin ws)) = set ws"
  by (simp add: scopeSplit_def scopeJoin_def Fields_Join)

section \<open>Actor claims\<close>

fun named :: "Actor option \<Rightarrow> bool" where
  "named None = True"
| "named (Some (Actor s a)) = (s \<noteq> [] \<and> named a)"

lemma actorFromAny_Map:
  "actorFromAny (CMap m) =
     (case gm_get m ''sub'' of
        Some (CStr subj) \<Rightarrow>
          if subj = [] then None
          else Some (Actor subj (case gm_get m ''act'' of None \<Rightarrow> None | Some inner \<Rightarrow> actorFromAny inner))
      | _ \<Rightarrow> None)"
  by (subst actorFromAny.simps) simp

lemma actorFromAny_ToMap: "named (Some a) \<Longrightarrow> actorFromAny (actorClaimToMap a) = Some a"
  by (induction a rule: actorClaimToMap.induct) (simp_all add: actorFromAny_Map)

lemma named_actorFromAny: "named (actorFromAny c)"
proof (induction c rule: actorFromAny.induct)
  case (1 raw)
  show ?case
  proof (cases raw)
    case (CMap m)
    then show ?thesis using 1 by (auto simp: actorFromAny_Map split: option.splits claim.splits)
  qed (subst actorFromAny.simps, simp)+
qed

lemma named_actorFromClaims: "named (actorFromClaims c)"
  by (auto simp: actorFromClaims_def named_actorFromAny split: option.splits)

lemma named_Prepend: "s \<noteq> [] \<Longrightarrow> named a \<Longrightarrow> named (Some (Prepend s a))"
  by (cases a) (simp_all add: Prepend_def)

section \<open>The gate\<close>

lemma AuthorizeMint_subset:
  assumes "AuthorizeMint rl now now' ag req g = (Inr res, g')"
  shows "set (ms_Scopes res) \<subseteq> set (mr_Scopes req) \<and> (mr_Scopes req \<noteq> [] \<longrightarrow> ms_Scopes res \<noteq> [])"
proof -
  have "set (ms_Scopes res) \<subseteq> set (mr_Scopes req) \<and> (mr_Scopes req \<noteq> [] \<longrightarrow> ms_Scopes res \<noteq> [])"
    if a: "apply_decision req dec = Inr res" for dec
  proof (cases "pd_Applies dec")
    case True
    let ?sv = "zip (mr_Scopes req) (pd_Verdicts dec)"
    have lv: "length (pd_Verdicts dec) = length (mr_Scopes req)"
      using a True by (auto simp: apply_decision_def mint_queries_def split: if_splits)
    obtain dropped first where vet: "vet_scopes req (pd_DenyList dec) ?sv = Inr (ms_Scopes res, dropped, first)"
      and ne: "ms_Scopes res = [] \<Longrightarrow> first = None"
      using a True lv
      by (auto simp: apply_decision_def mint_queries_def split: sum.splits prod.splits list.splits option.splits)
    from vet_scopes_Inr [OF vet] have kept: "ms_Scopes res = map fst (filter (scope_ok req (pd_DenyList dec)) ?sv)"
      and dr: "dropped = map fst (filter (\<lambda>x. \<not> scope_ok req (pd_DenyList dec) x) ?sv)"
      and fd: "first = None \<longleftrightarrow> dropped = []" by blast+
    have "set (ms_Scopes res) \<subseteq> set (mr_Scopes req)" by (auto simp: kept dest: set_zip_leftD)
    moreover have "ms_Scopes res \<noteq> []" if "mr_Scopes req \<noteq> []"
    proof
      assume e: "ms_Scopes res = []"
      then have "filter (scope_ok req (pd_DenyList dec)) ?sv = []"
        "filter (\<lambda>x. \<not> scope_ok req (pd_DenyList dec) x) ?sv = []"
        using kept dr fd ne by auto
      then have "?sv = []" by (auto simp: filter_empty_conv)
      then show False using that lv by auto
    qed
    ultimately show ?thesis by blast
  qed (use a in \<open>auto simp: apply_decision_def\<close>)
  then show ?thesis using assms
    by (auto simp: AuthorizeMint_def Let_def split: option.splits sum.splits prod.splits if_splits)
qed

lemma gateMint_Inr:
  assumes "gateMint rl xd ag grant resource scopes explicit ceil x = (Inr res, x')"
  shows "set (ms_Scopes res) \<subseteq> set scopes \<and> (scopes \<noteq> [] \<longrightarrow> ms_Scopes res \<noteq> []) \<and> xs_as x' = xs_as x"
proof (cases "xs_gate x")
  case (Some g)
  let ?req = "\<lparr>mr_Grant = grant, mr_Resource = resource, mr_Scopes = scopes, mr_Explicit = explicit, mr_Ceiling = ceil\<rparr>"
  obtain g' where "AuthorizeMint rl (xd_gate xd) (xd_limit xd) ag ?req (Some g) = (Inr res, g')" "x' = x\<lparr>xs_gate := g'\<rparr>"
    using assms Some by (auto simp: gateMint_def split: prod.splits sum.splits gate_error.splits)
  with AuthorizeMint_subset [OF this(1)] show ?thesis by simp
qed (use assms in \<open>auto simp: gateMint_def\<close>)

section \<open>The actors\<close>

fun actor_subs :: "Actor option \<Rightarrow> string list" where
  "actor_subs None = []"
| "actor_subs (Some (Actor s a)) = s # actor_subs a"

text \<open>The actor is an agent that is live at \<open>now\<close> and does not expire before \<open>until\<close>.\<close>

definition actor_live :: "exchange_params \<Rightarrow> time \<Rightarrow> v20State \<Rightarrow> time \<Rightarrow> string \<Rightarrow> bool" where
  "actor_live p now v until s \<longleftrightarrow>
     (\<exists>ag. lookupAgent p s v = Inr (Some ag) \<and> agentLiveErr (Some ag) now = None
        \<and> (\<forall>e. ag_ExpiresAt ag = Some e \<longrightarrow> until \<le> e))"

lemma capExpiry_le:
  "\<not> IsZero e \<Longrightarrow> \<not> IsZero (capExpiry e [b]) \<and> capExpiry e [b] \<le> e"
  "\<not> IsZero b \<Longrightarrow> \<not> IsZero (capExpiry e [b]) \<and> capExpiry e [b] \<le> b"
  unfolding capExpiry_def by (rule TightenDuration_least; simp)+

lemma check_actors_le:
  "check_actors p now v act e0 = Inr e \<Longrightarrow> \<not> IsZero e0 \<Longrightarrow> \<not> IsZero e \<and> e \<le> e0"
proof (induction p now v act e0 rule: check_actors.induct)
  case (2 p now v subj rest e0)
  obtain ag where ag: "lookupAgent p subj v = Inr (Some ag)" "agentLiveErr (Some ag) now = None"
    and r: "check_actors p now v rest (capExpiry e0 [agentExpiryBound (Some ag)]) = Inr e"
    using "2.prems"(1) by (auto split: sum.splits option.splits)
  have c: "\<not> IsZero (capExpiry e0 [agentExpiryBound (Some ag)])" "capExpiry e0 [agentExpiryBound (Some ag)] \<le> e0"
    using capExpiry_le(1) [OF "2.prems"(2)] by auto
  from "2.IH" [OF ag(1) refl ag(2) r c(1)] c(2) show ?case by auto
qed simp

lemma agent_expiry_pos:
  "agentLiveErr (Some ag) now = None \<Longrightarrow> 0 < now \<Longrightarrow> ag_ExpiresAt ag = Some e \<Longrightarrow>
     agentExpiryBound (Some ag) = e \<and> \<not> IsZero e"
  by (auto simp: agentLive_iff AgentExpired_def agentExpiryBound_def)

lemma check_actors_Inr:
  assumes "check_actors p now v act e0 = Inr e" "0 < now" "\<And>t. \<not> IsZero e \<Longrightarrow> t = until \<Longrightarrow> t \<le> e"
  shows "\<forall>s\<in>set (actor_subs act). actor_live p now v until s"
  using assms
proof (induction p now v act e0 rule: check_actors.induct)
  case (2 p now v subj rest e0)
  obtain ag where ag: "lookupAgent p subj v = Inr (Some ag)" "agentLiveErr (Some ag) now = None"
    and r: "check_actors p now v rest (capExpiry e0 [agentExpiryBound (Some ag)]) = Inr e"
    using "2.prems"(1) by (auto split: sum.splits option.splits)
  have rest: "\<forall>s\<in>set (actor_subs rest). actor_live p now v until s"
    by (rule "2.IH" [OF ag(1) refl ag(2) r "2.prems"(2,3)])
  have "until \<le> x" if x: "ag_ExpiresAt ag = Some x" for x
  proof -
    have b: "agentExpiryBound (Some ag) = x" "\<not> IsZero x" using agent_expiry_pos [OF ag(2) "2.prems"(2) x] by auto
    have c: "\<not> IsZero (capExpiry e0 [x])" "capExpiry e0 [x] \<le> x" using capExpiry_le(2) [OF b(2)] by auto
    from check_actors_le [OF r [unfolded b(1)] c(1)] c(2) "2.prems"(3) show ?thesis by force
  qed
  with ag have "actor_live p now v until subj" by (auto simp: actor_live_def)
  with rest show ?case by simp
qed simp

section \<open>One exchange\<close>

text \<open>The clock is past the zero instant by more than the skew, lifetimes are not negative, and the
  latest expiry the server issues fits a 64-bit count of seconds.\<close>

definition clock_ok :: "Config \<Rightarrow> AgentPolicy \<Rightarrow> exchange_draws \<Rightarrow> bool" where
  "clock_ok cfg pol xd \<longleftrightarrow>
     (let now = dr_check (xd_base xd) in
      0 < xd_live xd \<and> 0 \<le> cf_ClockSkew cfg \<and> cf_ClockSkew cfg < now
      \<and> 0 \<le> cf_AccessTokenTTL cfg \<and> 0 \<le> apo_DefaultDelegatedTokenTTL pol
      \<and> now + cf_AccessTokenTTL cfg \<le> max_i64 * second)"

text \<open>How the claims \<open>c\<close> of an exchanged token relate to those of the subject token, for the agent \<open>ag\<close>
  that asked and the grant it acts under.\<close>

definition narrows :: "exchange_params \<Rightarrow> AgentPolicy \<Rightarrow> Config \<Rightarrow> exchange_draws \<Rightarrow> v20State \<Rightarrow> Agent
    \<Rightarrow> DelegationGrant \<Rightarrow> Claims \<Rightarrow> Claims \<Rightarrow> bool" where
  "narrows p pol cfg xd v ag grant subject c \<longleftrightarrow>
     (let now = dr_check (xd_base xd); until = time_Unix (cl_Exp c) in
      cl_Sub c = cl_Sub subject \<and> cl_Aud c = cl_Aud subject \<and> cl_Aud c \<noteq> []
      \<and> actorFromClaims c = Some (Prepend (AgentSubjectPrefix @ ag_ID ag) (actorFromClaims subject))
      \<and> int (Depth (actorFromClaims c)) \<le> maxChainDepth cfg pol
      \<and> (\<exists>ws. cl_Scope c = scopeJoin ws \<and> ws \<noteq> [] \<and> set ws \<subseteq> set (dg_Scope grant))
      \<and> (scopeSplit (cl_Scope subject) \<noteq> [] \<longrightarrow> scopeSplit (cl_Scope c) \<noteq> []
           \<and> set (scopeSplit (cl_Scope c)) \<subseteq> set (scopeSplit (cl_Scope subject)) \<inter> set (dg_Scope grant))
      \<and> until \<le> time_Unix (cl_Exp subject) \<and> until \<le> now + cf_AccessTokenTTL cfg
      \<and> until \<le> now + apo_DefaultDelegatedTokenTTL pol
      \<and> (0 < dg_MaxDurationSeconds grant \<and> dg_MaxDurationSeconds grant \<le> max_i64 div second
           \<longrightarrow> until \<le> now + dg_MaxDurationSeconds grant * second)
      \<and> (\<forall>e. ag_ExpiresAt ag = Some e \<longrightarrow> until \<le> e)
      \<and> (\<forall>s\<in>set (actor_subs (actorFromClaims subject)). actor_live p (xd_live xd) v until s))"

lemma verifyAccessJWT_time:
  "verifyAccessJWT p cfg tok aud now = Inr c \<Longrightarrow> now \<le> time_Unix (cl_Exp c) + cf_ClockSkew cfg"
  by (auto simp: verifyAccessJWT_def VerifyWith_def not_less
      split: list.splits option.splits if_splits prod.splits)

lemma xchg_check_Inr:
  assumes "xchg_check p pol cfg xd req client s = Inr g"
  shows "AgentByClientID (oc_ClientID client) (st_v20 s) = Inr (xg_agent g)"
    and "agentLiveErr (Some (xg_agent g)) (xd_live xd) = None"
    and "exchange_subject p cfg xd req client s = Inr (xg_subject g, xg_proofJKT g)"
    and "exchange_actor p cfg xd req (xg_agent g) = Inr ()"
    and "exchange_resource p cfg req (xg_subject g) = Inr (xg_resource g)"
    and "resolveSubjectPrincipal p (xg_subject g) (xd_live xd) (st_v20 s) = Inr (xg_root g, xg_chain g, xg_chainExp g)"
    and "int (Depth (xg_chain g)) + 1 \<le> maxChainDepth cfg pol"
    and "DelegationGrantByUserAgentResource (xg_root g) (ag_ID (xg_agent g)) (xg_resource g) (st_v20 s) = Inr (xg_grant g)"
    and "Active (Some (xg_grant g)) (dr_check (xd_base xd))"
    and "NarrowScope (xr_Scope req) (scopeSplit (cl_Scope (xg_subject g))) (dg_Scope (xg_grant g)) = Some (xg_scope g)"
    and "xg_scope g \<noteq> []"
  using assms by (auto simp: xchg_check_def guards Let_def split: option.splits)

lemma exchange_subject_Inr:
  assumes "exchange_subject p cfg xd req client s = Inr (c, pr)"
  shows "verifyAccessJWT p cfg (xr_SubjectToken req) [] (dr_check (xd_base xd)) = Inr c"
    and "cl_Iss c = cf_Issuer cfg"
    and "\<not> accessJTIRevoked cfg (dr_store (xd_base xd)) (cl_Jti c) s"
    and "cnfJKT (cl_Extra c) = [] \<or> pr = cnfJKT (cl_Extra c)"
  using assms by (auto simp: exchange_subject_def guards Let_def jktEqual_def)

lemma exchange_resource_Inr:
  assumes "exchange_resource p cfg req c = Inr r"
  shows "r = cl_Aud c \<and> cl_Aud c \<noteq> []"
  using assms by (auto simp: exchange_resource_def guards Let_def split: prod.splits)

lemma resolveSubjectPrincipal_Inr:
  assumes "resolveSubjectPrincipal p c now v = Inr (user, existing, e)"
  shows "xp_ulid p (cl_Sub c) = Some user" "\<not> HasPrefix (cl_Sub c) AgentSubjectPrefix"
    "existing = actorFromClaims c" "check_actors p now v (actorFromClaims c) zero_time = Inr e"
  using assms by (auto simp: resolveSubjectPrincipal_def guards Let_def)

abbreviation (input) exchange_client ::
  "exchange_params \<Rightarrow> (AuthState \<Rightarrow> AuthState) \<Rightarrow> exchange_draws \<Rightarrow> TokenExchangeRequest \<Rightarrow> 'l XState
     \<Rightarrow> (as_error + OAuthClient) \<times> AuthState" where
  "exchange_client p env xd req x \<equiv> AuthenticateClient (pm_auth (xp_tok p)) env (dr_auth (xd_base xd))
     (dr_auth_put (xd_base xd)) (xr_ClientID req) (xr_ClientSecret req) (st_auth (xs_as x))"

lemma exchange_prepare_Inr:
  assumes "exchange_prepare p env rl pol cfg xd req x = (Inr (client, g, c, resp), x')"
  shows "\<exists>a gated. exchange_client p env xd req x = (Inr client, a)
      \<and> xs_as x' = (xs_as x)\<lparr>st_auth := a\<rparr>
      \<and> xchg_check p pol cfg xd req client (xs_as x') = Inr g
      \<and> set (ms_Scopes gated) \<subseteq> set (xg_scope g) \<and> (xg_scope g \<noteq> [] \<longrightarrow> ms_Scopes gated \<noteq> [])
      \<and> dr_check (xd_base xd) < xchg_expiry pol cfg (dr_check (xd_base xd)) g
      \<and> c = xchg_claims cfg xd client g gated (xchg_expiry pol cfg (dr_check (xd_base xd)) g)"
proof -
  let ?now = "dr_check (xd_base xd)"
  obtain a where a: "exchange_client p env xd req x = (Inr client, a)"
    using assms by (auto simp: exchange_prepare_def Let_def split: prod.splits sum.splits if_splits)
  let ?x = "x\<lparr>xs_as := (xs_as x)\<lparr>st_auth := a\<rparr>\<rparr>"
  have g: "xchg_check p pol cfg xd req client (xs_as ?x) = Inr g"
    using assms a by (auto simp: exchange_prepare_def Let_def split: prod.splits sum.splits if_splits)
  obtain gated where gm: "gateMint rl xd (xg_agent g) ''token_exchange'' (xg_resource g) (xg_scope g)
      (xr_Scope req \<noteq> []) None ?x = (Inr gated, x')"
    and u: "?now < xchg_expiry pol cfg ?now g" "c = xchg_claims cfg xd client g gated (xchg_expiry pol cfg ?now g)"
    using assms a g by (auto simp: exchange_prepare_def Let_def not_le split: prod.splits sum.splits if_splits)
  from gateMint_Inr [OF gm] have "xs_as x' = (xs_as x)\<lparr>st_auth := a\<rparr>" "set (ms_Scopes gated) \<subseteq> set (xg_scope g)"
    "xg_scope g \<noteq> [] \<longrightarrow> ms_Scopes gated \<noteq> []" by simp_all
  with a g u show ?thesis by auto
qed

lemma xchg_claims_fields:
  "cl_Sub (xchg_claims cfg xd client g gated until) = cl_Sub (xg_subject g)"
  "cl_Aud (xchg_claims cfg xd client g gated until) = xg_resource g"
  "cl_Exp (xchg_claims cfg xd client g gated until) = to_Unix until"
  "cl_Scope (xchg_claims cfg xd client g gated until) = scopeJoin (ms_Scopes gated)"
  by (simp_all add: xchg_claims_def Let_def)

lemma actor_xchg_claims:
  "actorFromClaims (xchg_claims cfg xd client g gated until)
     = Some (Prepend (AgentSubjectPrefix @ ag_ID (xg_agent g)) (actorFromClaims (xg_subject g)))"
proof -
  let ?a = "Prepend (AgentSubjectPrefix @ ag_ID (xg_agent g)) (actorFromClaims (xg_subject g))"
  have "named (Some ?a)" by (rule named_Prepend) (simp_all add: AgentSubjectPrefix_def named_actorFromClaims)
  then have a: "actorFromAny (actorClaimToMap ?a) = Some ?a" by (rule actorFromAny_ToMap)
  then have "actorClaimToMap ?a \<noteq> CNull" by (auto simp: actorFromAny.simps)
  moreover have "gm_get (cl_Extra (xchg_claims cfg xd client g gated until)) ''act'' = Some (actorClaimToMap ?a)"
    by (simp add: xchg_claims_def addAgentPolicy_def Let_def split: option.splits)
  ultimately show ?thesis using a by (simp add: actorFromClaims_def)
qed

text \<open>The instant a whole-second expiry stands for is not after the instant it was cut from.\<close>

lemma time_Unix_to_Unix:
  assumes "0 \<le> t" "t \<le> max_i64 * second"
  shows "time_Unix (to_Unix t) \<le> t"
proof -
  have "t div second \<le> max_i64" using assms(2) by (simp add: max_i64_def)
  moreover have "min_i64 \<le> t div second" using assms(1) by (simp add: min_i64_def pos_imp_zdiv_nonneg_iff)
  ultimately show ?thesis by (simp add: time_Unix_def to_Unix_def i64_id)
qed

lemma xchg_expiry_le:
  assumes "b \<in> {time_Unix (cl_Exp (xg_subject g)), now + apo_DefaultDelegatedTokenTTL pol,
      now + i64 (dg_MaxDurationSeconds (xg_grant g) * second), now + cf_AccessTokenTTL cfg,
      agentExpiryBound (Some (xg_agent g)), xg_chainExp g}" and "\<not> IsZero b"
  shows "xchg_expiry pol cfg now g \<le> b"
  unfolding xchg_expiry_def by (rule conjunct2 [OF TightenDuration_least]) (use assms in auto)

lemma narrowed_scopes:
  assumes n: "NarrowScope req subj grant = Some out" and sub: "set ws \<subseteq> set out" "ws \<noteq> []"
    and words: "\<And>w. w \<in> set subj \<Longrightarrow> is_word w" and ne: "subj \<noteq> []"
  shows "scopeSplit (scopeJoin ws) \<noteq> [] \<and> set (scopeSplit (scopeJoin ws)) \<subseteq> set subj \<inter> set grant"
proof -
  have o: "set out \<subseteq> set grant" "set out \<subseteq> set subj" using NarrowScope_Some [OF n] ne by auto
  have "\<forall>w\<in>set ws. is_word w" using sub(1) o(2) words by blast
  from set_scopeSplit_Join [OF this] sub o show ?thesis by (cases "scopeSplit (scopeJoin ws)") auto
qed

text \<open>The expiry of the new token against every bound.\<close>

lemma exchange_until:
  assumes chk: "xchg_check p pol cfg xd req client s = Inr g" and clk: "clock_ok cfg pol xd"
    and until: "dr_check (xd_base xd) < xchg_expiry pol cfg (dr_check (xd_base xd)) g"
  defines "now \<equiv> dr_check (xd_base xd)" and "u \<equiv> time_Unix (to_Unix (xchg_expiry pol cfg (dr_check (xd_base xd)) g))"
  shows "u \<le> time_Unix (cl_Exp (xg_subject g))" "u \<le> now + cf_AccessTokenTTL cfg"
    "u \<le> now + apo_DefaultDelegatedTokenTTL pol"
    "0 < dg_MaxDurationSeconds (xg_grant g) \<Longrightarrow> dg_MaxDurationSeconds (xg_grant g) \<le> max_i64 div second \<Longrightarrow>
       u \<le> now + dg_MaxDurationSeconds (xg_grant g) * second"
    "ag_ExpiresAt (xg_agent g) = Some e \<Longrightarrow> u \<le> e"
    "\<not> IsZero (xg_chainExp g) \<Longrightarrow> u \<le> xg_chainExp g"
proof -
  let ?u = "xchg_expiry pol cfg now g"
  note i = xchg_check_Inr [OF chk]
  have now: "0 < now" "0 < xd_live xd" and ttl: "now + cf_AccessTokenTTL cfg \<le> max_i64 * second"
    "0 \<le> cf_AccessTokenTTL cfg" "0 \<le> apo_DefaultDelegatedTokenTTL pol"
    using clk by (auto simp: clock_ok_def Let_def now_def)
  have sexp: "0 < time_Unix (cl_Exp (xg_subject g))"
    using verifyAccessJWT_time [OF exchange_subject_Inr(1) [OF i(3)]] clk by (auto simp: clock_ok_def Let_def)
  have access: "?u \<le> now + cf_AccessTokenTTL cfg" by (rule xchg_expiry_le) (use now ttl in auto)
  have "u \<le> ?u" unfolding u_def now_def
    by (rule time_Unix_to_Unix) (use now until access ttl in \<open>auto simp: now_def\<close>)
  then have cut: "u \<le> b" if "b \<in> {time_Unix (cl_Exp (xg_subject g)), now + apo_DefaultDelegatedTokenTTL pol,
      now + i64 (dg_MaxDurationSeconds (xg_grant g) * second), now + cf_AccessTokenTTL cfg,
      agentExpiryBound (Some (xg_agent g)), xg_chainExp g}" "\<not> IsZero b" for b
    using xchg_expiry_le [OF that] by (rule order_trans)
  show "u \<le> time_Unix (cl_Exp (xg_subject g))" by (rule cut) (use sexp in auto)
  show "u \<le> now + cf_AccessTokenTTL cfg" "u \<le> now + apo_DefaultDelegatedTokenTTL pol"
    by (rule cut; use now ttl in auto)+
  show "u \<le> now + dg_MaxDurationSeconds (xg_grant g) * second"
    if d: "0 < dg_MaxDurationSeconds (xg_grant g)" "dg_MaxDurationSeconds (xg_grant g) \<le> max_i64 div second"
  proof -
    have "i64 (dg_MaxDurationSeconds (xg_grant g) * second) = dg_MaxDurationSeconds (xg_grant g) * second"
      by (rule i64_id) (use d in \<open>auto simp: min_i64_def max_i64_def\<close>)
    then show ?thesis using cut [of "now + i64 (dg_MaxDurationSeconds (xg_grant g) * second)"] now d by simp
  qed
  show "u \<le> e" if "ag_ExpiresAt (xg_agent g) = Some e"
    using agent_expiry_pos [OF i(2) now(2) that] cut [of e] by auto
  show "u \<le> xg_chainExp g" if "\<not> IsZero (xg_chainExp g)" by (rule cut) (use that in auto)
qed

lemma exchange_narrows:
  assumes chk: "xchg_check p pol cfg xd req client s = Inr g" and clk: "clock_ok cfg pol xd"
    and sub: "set (ms_Scopes gated) \<subseteq> set (xg_scope g)" "ms_Scopes gated \<noteq> []"
    and until: "dr_check (xd_base xd) < xchg_expiry pol cfg (dr_check (xd_base xd)) g"
    and c: "c = xchg_claims cfg xd client g gated (xchg_expiry pol cfg (dr_check (xd_base xd)) g)"
  shows "narrows p pol cfg xd (st_v20 s) (xg_agent g) (xg_grant g) (xg_subject g) c"
proof -
  note i = xchg_check_Inr [OF chk]
  note r = resolveSubjectPrincipal_Inr [OF i(6)]
  note u = exchange_until [OF chk clk until]
  have e: "cl_Exp c = to_Unix (xchg_expiry pol cfg (dr_check (xd_base xd)) g)"
    unfolding c by (rule xchg_claims_fields)
  have live: "\<forall>s'\<in>set (actor_subs (actorFromClaims (xg_subject g))).
      actor_live p (xd_live xd) (st_v20 s) (time_Unix (cl_Exp c)) s'"
    by (rule check_actors_Inr [OF r(4)]) (use clk u(6) in \<open>auto simp: e clock_ok_def Let_def\<close>)
  have scope: "\<exists>ws. cl_Scope c = scopeJoin ws \<and> ws \<noteq> [] \<and> set ws \<subseteq> set (dg_Scope (xg_grant g))"
    using sub NarrowScope_Some(1) [OF i(10)] unfolding c xchg_claims_fields by blast
  have scope': "scopeSplit (cl_Scope c) \<noteq> []
      \<and> set (scopeSplit (cl_Scope c)) \<subseteq> set (scopeSplit (cl_Scope (xg_subject g))) \<inter> set (dg_Scope (xg_grant g))"
    if "scopeSplit (cl_Scope (xg_subject g)) \<noteq> []"
    unfolding c xchg_claims_fields by (rule narrowed_scopes [OF i(10) sub]) (use that scopeSplit_words in auto)
  have depth: "int (Depth (actorFromClaims c)) \<le> maxChainDepth cfg pol"
    unfolding c actor_xchg_claims using i(7) r(3) by simp
  have aud: "cl_Aud c = cl_Aud (xg_subject g) \<and> cl_Aud c \<noteq> []"
    unfolding c xchg_claims_fields using exchange_resource_Inr [OF i(5)] by simp
  have act: "actorFromClaims c = Some (Prepend (AgentSubjectPrefix @ ag_ID (xg_agent g)) (actorFromClaims (xg_subject g)))"
    unfolding c by (rule actor_xchg_claims)
  have "cl_Sub c = cl_Sub (xg_subject g)" unfolding c xchg_claims_fields ..
  with aud act depth scope scope' u live show ?thesis unfolding narrows_def Let_def e by blast
qed

lemma agent_mint_Inr:
  assumes "agent_mint p cfg xd client ag c resp0 x = (Inr resp, x')"
  shows "\<exists>c'. applyOnTokenIssued (xp_tok p) c = Inr c'
      \<and> fst (issueAccessToken (xp_tok p) cfg (xd_base xd) (oc_ClientID client) c' (xs_as x)) = Inr (tr_AccessToken resp)"
  using assms by (auto simp: agent_mint_def split: sum.splits prod.splits)

lemma applyOnTokenIssued_registered:
  assumes "applyOnTokenIssued p c = Inr c'"
  shows "c' = c\<lparr>cl_Extra := cl_Extra c'\<rparr>"
  using assms by (auto simp: applyOnTokenIssued_def Let_def split: option.splits sum.splits)


section \<open>Chains of exchanges\<close>

text \<open>Two claim sets say the same about what a token may do. Claims that went through a token and its
  verification are compared so, since decoding may change the form of other claims.\<close>

definition same_authority :: "Claims \<Rightarrow> Claims \<Rightarrow> bool" where
  "same_authority c d \<longleftrightarrow> cl_Sub c = cl_Sub d \<and> cl_Aud c = cl_Aud d \<and> cl_Exp c = cl_Exp d
     \<and> cl_Scope c = cl_Scope d \<and> actorFromClaims c = actorFromClaims d"

text \<open>\<open>n\<close> exchanges lead from a token with claims \<open>c0\<close> to one with claims \<open>c\<close>: each presents the token the
  one before it issued. Agents, keys, stores and clocks differ from one to the next.\<close>

inductive exchanged :: "'l ratelib \<Rightarrow> AgentPolicy \<Rightarrow> Config \<Rightarrow> Claims \<Rightarrow> nat \<Rightarrow> Claims \<Rightarrow> bool" for rl pol cfg c0 where
  start: "exchanged rl pol cfg c0 0 c0"
| exchange: "exchanged rl pol cfg c0 n c \<Longrightarrow> clock_ok cfg pol xd \<Longrightarrow>
    exchange_prepare p env rl pol cfg xd req x = (Inr (client, g, c', resp), x') \<Longrightarrow>
    same_authority c (xg_subject g) \<Longrightarrow> exchanged rl pol cfg c0 (Suc n) c'"

lemma exchange_prepare_narrows:
  assumes "exchange_prepare p env rl pol cfg xd req x = (Inr (client, g, c, resp), x')" "clock_ok cfg pol xd"
  shows "\<exists>v. narrows p pol cfg xd v (xg_agent g) (xg_grant g) (xg_subject g) c"
proof -
  from exchange_prepare_Inr [OF assms(1)] obtain gated where
    chk: "xchg_check p pol cfg xd req client (xs_as x') = Inr g"
    and sc: "set (ms_Scopes gated) \<subseteq> set (xg_scope g)" "xg_scope g \<noteq> [] \<longrightarrow> ms_Scopes gated \<noteq> []"
    and u: "dr_check (xd_base xd) < xchg_expiry pol cfg (dr_check (xd_base xd)) g"
    and c: "c = xchg_claims cfg xd client g gated (xchg_expiry pol cfg (dr_check (xd_base xd)) g)" by blast
  have "ms_Scopes gated \<noteq> []" using sc(2) xchg_check_Inr(11) [OF chk] by simp
  from exchange_narrows [OF chk assms(2) sc(1) this u c] show ?thesis by (rule exI)
qed


section \<open>An exchange\<close>

text \<open>A user's token with the scope \<open>read\<close> is exchanged by an agent under a grant for ten minutes.\<close>

definition ex_xp :: "jwt_lib \<Rightarrow> exchange_params" where
  "ex_xp lib = \<lparr>xp_tok = ex_tp, xp_ulid = Some, xp_lookup = True,
     xp_policy = Some \<lparr>apo_MaxChainDepth = 3, apo_DefaultDelegatedTokenTTL = 30 * minute\<rparr>,
     xp_idjag = None, xp_sign_idjag = (\<lambda>_. Inl ErrOAuthServerBusy), xp_claims = (\<lambda>_. None),
     xp_jwt = lib, xp_keys = ex_resolve\<rparr>"

definition ex_pol :: AgentPolicy where
  "ex_pol = \<lparr>apo_MaxChainDepth = 3, apo_DefaultDelegatedTokenTTL = 30 * minute\<rparr>"

lemma ex_xp_policy: "xp_policy (ex_xp lib) = Some ex_pol"
  by (simp add: ex_xp_def ex_pol_def)

definition ex_xv :: v20State where
  "ex_xv = snd (InsertDelegationGrant 1 (zero_DelegationGrant\<lparr>dg_ID := ''g'', dg_UserID := ''u'', dg_AgentID := ''a'',
       dg_Scope := [''read'', ''write''], dg_Resource := ''api'', dg_MaxDurationSeconds := 600\<rparr>)
     (snd (InsertAgent 1 (zero_Agent\<lparr>ag_ID := ''a'', ag_ClientID := ''agc''\<rparr>)
     (snd (InsertOAuthClient 1 (zero_OAuthClient\<lparr>oc_ClientID := ''agc'',
       oc_TokenEndpointAuthMethod := ClientAuthNone\<rparr>) ensureV20)))))"

definition ex_x :: "unit XState" where
  "ex_x = \<lparr>xs_as = set_v20 ex_xv ex_as0, xs_gate = None\<rparr>"

definition ex_xd :: exchange_draws where
  "ex_xd = \<lparr>xd_base = ex_d ''t'', xd_live = ex_now, xd_gate = ex_now, xd_limit = ex_now\<rparr>"

definition ex_xr :: TokenExchangeRequest where
  "ex_xr = \<lparr>xr_ClientID = ''agc'', xr_ClientSecret = [], xr_SubjectToken = ex_token, xr_SubjectTokenType = [],
     xr_ActorToken = [], xr_ActorTokenType = [], xr_RequestedTokenType = [], xr_Resource = [], xr_Audience = [],
     xr_Scope = [], xr_DPoPProof = [], xr_HTTPMethod = [], xr_HTTPURL = []\<rparr>"

definition ex_exchange :: "jwt_lib \<Rightarrow> (grant_error + TokenResponse) \<times> unit XState" where
  "ex_exchange lib = ExchangeToken (ex_xp lib) (\<lambda>a. a) ex_rl ex_cfg ex_xd ex_xr ex_x"

lemma ex_clock: "clock_ok ex_cfg ex_pol ex_xd"
  by code_simp

lemma ex_exchange_ok:
  "(case fst (ex_exchange ex_lib) of Inl _ \<Rightarrow> False | Inr r \<Rightarrow> tr_Scope r = ''read'' \<and> tr_ExpiresIn r = 600)"
  by code_simp

lemma ex_verified: "verifyAccessJWT (ex_xp ex_lib) ex_cfg ex_token [] ex_now = Inr ex_claims"
  by code_simp

lemma ex_exchange_run:
  obtains resp x' where "ExchangeToken (ex_xp ex_lib) (\<lambda>a. a) ex_rl ex_cfg ex_xd ex_xr ex_x = (Inr resp, x')"
  using ex_exchange_ok unfolding ex_exchange_def
  by (cases "ExchangeToken (ex_xp ex_lib) (\<lambda>a. a) ex_rl ex_cfg ex_xd ex_xr ex_x") (auto split: sum.splits)

lemma ex_sel: "xr_RequestedTokenType ex_xr \<noteq> TokenTypeIDJAG" "xr_SubjectToken ex_xr = ex_token"
    "dr_check (xd_base ex_xd) = ex_now"
  by (simp_all add: ex_xr_def TokenTypeIDJAG_def ex_xd_def ex_d_def)



text \<open>A subject token without scopes is exchanged for the scopes of the grant: here the agent obtains
  \<open>read\<close> and \<open>write\<close> from a token that had neither.\<close>

lemma empty_scope_widens:
  "(case fst (ex_exchange (ex_lib\<lparr>jl_alias := (\<lambda>_. Some (ex_claims\<lparr>cl_Scope := []\<rparr>))\<rparr>)) of
      Inl _ \<Rightarrow> False | Inr r \<Rightarrow> tr_Scope r = ''read write'')"
  by code_simp

end
