(* ===== verification/Spec2Isabelle.thy ===== *)
theory Spec2Isabelle
  imports PolicyGuard Throttle AsTokenProps JwksProps AsExchangeProps
begin

text \<open>
  A verification development of theauth-go, an OAuth 2.1 authorization server with agent identities,
  policies and human login, written in Go. Paths below are relative to \<open>src/\<close>.

  \<^bold>\<open>The parts and how they interact.\<close> A client registers with the authorization server
  (\<open>internal/as\<close>), obtains an authorization code for a user, redeems it at the token endpoint for an
  access token and a refresh token, and rotates the refresh token. Access tokens are JWTs
  (\<open>internal/jwt\<close>) signed with keys the server rotates, or opaque handles. Agents (\<open>internal/agent\<close>)
  are clients of their own, which act for users under delegation grants (\<open>internal/delegation\<close>): token
  exchange turns a user's token into one that names the agent as the latest actor, and a gate
  (\<open>internal/agent/gate.go\<close>, \<open>agentpolicy\<close>) vets each agent token against policies. All rows live behind a storage
  interface; the in-process store (\<open>storage/memory\<close>) is the one modelled. Policies (\<open>policy\<close>) decide
  what a principal may do and guard HTTP handlers. Limits are kept by \<open>internal/throttle\<close> (failed
  logins), \<open>internal/ratelimit\<close> (requests) and \<open>kv\<close> (replay cache, fixed windows).

  \<^bold>\<open>Theories and code.\<close>
  \<^item> \<open>Prelude\<close>: instants, 64-bit integers, Go maps, strings; the lemma collections.
  \<^item> \<open>Glob\<close> (\<open>policy/glob.go\<close>), \<open>PolicyDoc\<close> (\<open>policy.go\<close>, \<open>codes.go\<close>), \<open>PolicyEval\<close>, \<open>Taint\<close>,
    \<open>PolicyEngine\<close> (\<open>eval.go\<close>, \<open>risk.go\<close>, \<open>taint.go\<close>), \<open>PolicyStore\<close> (\<open>storage.go\<close>, \<open>memory.go\<close>),
    \<open>PolicyGuard\<close> (\<open>http.go\<close>).
  \<^item> \<open>Kv\<close> (\<open>kv/kv.go\<close>, \<open>kv/memory.go\<close>), \<open>Throttle\<close> (\<open>internal/throttle\<close>), \<open>Ratelimit\<close>
    (\<open>internal/ratelimit\<close>).
  \<^item> \<open>AsModels\<close> (\<open>internal/models/models_v20.go\<close>), \<open>AsStore\<close> and \<open>AsStoreRuns\<close>
    (\<open>storage/memory/memory_v20.go\<close>, \<open>memory_opaque.go\<close>): the rows, every operation of the store on the
    record \<open>v20State\<close> of its maps, and the invariants of its indexes over every sequence of operations.
  \<^item> \<open>AsCompat\<close> (\<open>internal/as/compat.go\<close> and helpers): resources, scopes, redirect URIs, grant expiry.
  \<^item> \<open>AsClientAuth\<close> (\<open>internal/clientauthcache\<close>, \<open>AuthenticateClient\<close>): client secrets and their cache.
  \<^item> \<open>Base64\<close>, \<open>Jwt\<close> (\<open>internal/jwt\<close>), \<open>Jwks\<close>, \<open>JwksRuns\<close>, \<open>JwksProps\<close> (\<open>internal/as/jwks.go\<close>): the
    JWTs and the life of the keys that sign them.
  \<^item> \<open>AsToken\<close>, \<open>AsTokenRuns\<close>, \<open>AsTokenProps\<close> (\<open>internal/as/token.go\<close>, \<open>revoke.go\<close>, \<open>hardening.go\<close>,
    \<open>token_policy.go\<close>, \<open>token_hooks.go\<close>): the token and revocation endpoints, as whole handlers and as
    the steps between which handlers of concurrent requests interleave.
  \<^item> \<open>ApiTokens\<close> (\<open>storage/memory/memory_apitokens.go\<close>), \<open>Agents\<close> (\<open>internal/agent/service.go\<close>,
    \<open>cascade.go\<close>): personal and agent tokens, device codes, agents and the cascade of a revocation.

  \<^item> \<open>Delegation\<close> (\<open>internal/chain\<close>, \<open>internal/delegation\<close>, \<open>internal/as/agent_expiry.go\<close>), \<open>AgentGate\<close>
    (\<open>internal/agent/gate.go\<close>, \<open>agentpolicy\<close>), \<open>AsExchange\<close> and \<open>AsExchangeProps\<close>
    (\<open>internal/as/token_v34.go\<close>, \<open>agent_gate.go\<close>, \<open>idjag.go\<close>): grants and actor chains, the gate over the
    policy evaluator, client credentials, token exchange and identity assertions.

  \<^bold>\<open>How state and effects are represented.\<close> An operation that the code runs under one mutex is one
  function from state to result and state. Clock readings and random draws are arguments. A Go map is
  an association list, so that the order of a \<open>range\<close> loop is the order of the list; the lemmas hold for
  every order. Errors are values of sum types. \<open>net/url\<close>, \<open>encoding/json\<close>, the signature libraries,
  Argon2id, hash functions, the token bucket of \<open>golang.org/x/time/rate\<close> and \<open>net/netip\<close> are parameters.
  Concurrent requests are interleavings of atomic steps: an inductive run relation in \<open>AsTokenRuns\<close>,
  interference functions in \<open>AsClientAuth\<close> and \<open>Throttle\<close>.

  \<^bold>\<open>What the lemmas show.\<close>
  \<^item> Tokens: a code is redeemed at most once, by its client, with its PKCE verifier; a rotation family has
    at most one live token over every interleaving; reuse revokes the family; a grant's expiry caps
    everything minted from it; revocation touches only the caller's families.
  \<^item> Agent tokens: an exchange succeeds only for a live agent with a valid token and an active grant of
    that user; over any chain of exchanges user and audience stay, scopes and expiry only shrink, and the
    actor chain stays within its limit; the gate passes only scopes the attached policies permit.
  \<^item> Keys: each algorithm has one current and one next key; a signed token verifies until the second
    rotation after its key was current.
  \<^item> Policies: the matcher accepts the language of its pattern; explicit deny wins, default deny; the
    outcome does not depend on order; variables cannot inject; the guard serves only what stored
    policies allow.
  \<^item> Limits: lockout after the configured failures, no lost update, refusals end; replay rejected within
    capacity; memory bounded.
  \<^item> Agents: leaving the active state cascades over grants, tokens and caches; device codes are claimed
    once; at most one live delegation grant per user, agent and resource.

  \<^bold>\<open>Interfaces.\<close> The contracts between components are locales interpreted on the model: policy storage,
  the key-value cache, the throttle store, the store of refresh tokens, the policy engine of the gate.

  \<^bold>\<open>Bounds and fuel.\<close> Loops are structural recursions over the data the code ranges over, or functions
  with a termination measure (the glob matcher, the reading of actor claims); the compare-and-swap loop of \<open>Throttle\<close> has the retry
  bound of the code. Machine integers are wrapped with \<open>i64\<close> where the code can overflow. The exchange
  properties assume a clock past the zero instant by more than the configured skew and expiries that fit
  a 64-bit count of seconds (\<open>clock_ok\<close>).

  \<^bold>\<open>Parameters that stand for modelled or unmodelled server code.\<close> The token endpoint of \<open>AsToken\<close> takes
  signing, ID tokens, DPoP verification and authorization details as parameters. Signing and verification
  themselves are modelled in \<open>Jwt\<close> and \<open>Jwks\<close>; token exchange verifies its tokens with that model.

  \<^bold>\<open>Not modelled.\<close> HTTP routing, response writing and JSON of handlers, metrics, spans, audit sinks and
  logging; the SQL stores, whose atomicity is the database's; the human login methods (passwords,
  WebAuthn, TOTP, SAML, OAuth providers), SCIM; of the authorization server the authorize and consent
  handlers, introspection, the device, CIBA and JWT bearer grants, pushed and signed requests, dynamic
  registration, logout, CORS and discovery documents, which build on the modelled storage and token
  endpoint but are not needed for its properties; command line tools and examples.
\<close>

end
